(* ===== verification/Prelude.thy ===== *)
theory Prelude imports Main "HOL-Library.Multiset" begin

text \<open>
  Shared vocabulary of the development: the shape of fallible Go functions, Go's 64-bit
  wrap-around, the iteration order of Go maps, and the generic facts on lists, options and
  row tables that the component theories use.

  A Go function \<open>func f() (T, error)\<close> that can fail becomes a function into
  \<open>err + 'a\<close> (\<open>Inl\<close> the error); a method that only returns \<open>error\<close> becomes a function into
  \<open>err option\<close> (\<open>None\<close> is Go's \<open>nil\<close>). A method that changes state also returns the new state.
\<close>

named_theorems store_simps \<open>equations for the tables and the statements on them\<close>
named_theorems frame_simps \<open>fields that an operation leaves unchanged\<close>
named_theorems engine_simps \<open>equations of the execution engine\<close>

subsection \<open>Machine integers\<close>

text \<open>Go's \<open>int\<close>, \<open>int64\<close> and \<open>time.Duration\<close> are 64-bit two's complement: a result outside the
  range wraps. \<open>uint64\<close> wraps modulo \<open>2 ^ 64\<close>.\<close>

definition wrap64 :: "int \<Rightarrow> int" where
  "wrap64 x = (x + 2 ^ 63) mod 2 ^ 64 - 2 ^ 63"

definition wrapu64 :: "int \<Rightarrow> int" where
  "wrapu64 x = x mod 2 ^ 64"

lemma wrap64_id [simp]: "- (2 ^ 63) \<le> x \<Longrightarrow> x < 2 ^ 63 \<Longrightarrow> wrap64 x = x"
  by (simp add: wrap64_def)

lemma wrap64_range: "- (2 ^ 63) \<le> wrap64 x \<and> wrap64 x < 2 ^ 63"
  using pos_mod_bound [of "2 ^ 64" "x + 2 ^ 63"] pos_mod_sign [of "2 ^ 64" "x + 2 ^ 63"]
  by (simp add: wrap64_def)

lemma wrapu64_id [simp]: "0 \<le> x \<Longrightarrow> x < 2 ^ 64 \<Longrightarrow> wrapu64 x = x"
  by (simp add: wrapu64_def)

subsection \<open>Go maps\<close>

text \<open>
  Go's \<open>for k := range m\<close> visits the keys of a map in an order the language leaves open. Where
  the code ranges over a map and the order can be observed, the model takes the order as an
  argument: a function that permutes a list of keys.
\<close>

definition range_order :: "('a list \<Rightarrow> 'a list) \<Rightarrow> bool" where
  "range_order ro \<longleftrightarrow> (\<forall>xs. mset (ro xs) = mset xs)"

lemma range_order_mset: "range_order ro \<Longrightarrow> mset (ro xs) = mset xs"
  by (simp add: range_order_def)

lemma range_order_set [simp]: "range_order ro \<Longrightarrow> set (ro xs) = set xs"
  by (metis range_order_mset set_mset_mset)

lemma range_order_distinct [simp]: "range_order ro \<Longrightarrow> distinct (ro xs) = distinct xs"
  by (metis range_order_mset mset_eq_imp_distinct_iff)

lemma range_order_length [simp]: "range_order ro \<Longrightarrow> length (ro xs) = length xs"
  by (metis range_order_mset size_mset)

lemma range_order_id [simp]: "range_order id" "range_order (\<lambda>xs. xs)" "range_order rev"
  by (simp_all add: range_order_def)

text \<open>
  A small Go map is the association list of its entries, in the order the keys were first set. \<open>m[k] = v\<close>
  is \<open>gm_set\<close>; reading a missing key gives the zero value: 0 for a \<open>map[string]int\<close> (\<open>sm_int\<close>) and the nil
  slice for a \<open>map[string][]T\<close> (\<open>sm_list\<close>).
\<close>

fun gm_set :: "'k \<Rightarrow> 'v \<Rightarrow> ('k \<times> 'v) list \<Rightarrow> ('k \<times> 'v) list" where
  "gm_set k v [] = [(k, v)]"
| "gm_set k v ((k', v') # m) = (if k' = k then (k, v) # m else (k', v') # gm_set k v m)"

definition sm_int :: "('k \<times> int) list \<Rightarrow> 'k \<Rightarrow> int" where
  "sm_int m k = (case map_of m k of None \<Rightarrow> 0 | Some i \<Rightarrow> i)"

definition sm_list :: "('k \<times> 'v list) list \<Rightarrow> 'k \<Rightarrow> 'v list" where
  "sm_list m k = (case map_of m k of None \<Rightarrow> [] | Some l \<Rightarrow> l)"

lemma map_of_gm_set [simp]: "map_of (gm_set k v m) = (map_of m)(k \<mapsto> v)"
  by (induction m) auto

lemma sm_int_set [simp]: "sm_int (gm_set a v m) k = (if k = a then v else sm_int m k)"
  by (simp add: sm_int_def)

lemma sm_list_set [simp]: "sm_list (gm_set a v m) k = (if k = a then v else sm_list m k)"
  by (simp add: sm_list_def)

lemma keys_gm_set: "set (map fst (gm_set k v m)) = insert k (set (map fst m))"
proof (induction m)
  case (Cons kv m)
  then show ?case by (cases kv) (auto simp del: set_map)
qed simp

lemma distinct_gm_set: "distinct (map fst m) \<Longrightarrow> distinct (map fst (gm_set k v m))"
proof (induction m)
  case (Cons kv m)
  then show ?case using keys_gm_set [of k v m] by (cases kv) (auto simp del: set_map)
qed simp

lemma gm_set_new: "k \<notin> set (map fst m) \<Longrightarrow> gm_set k v m = m @ [(k, v)]"
  by (induction m) auto

lemma gm_set_keys_old: "k \<in> set (map fst m) \<Longrightarrow> map fst (gm_set k v m) = map fst m"
  by (induction m) force+

subsection \<open>Row tables\<close>

text \<open>
  A database table is the list of its rows in storage order. \<open>modify_first p f\<close> changes the
  first row that satisfies \<open>p\<close>; \<open>modify_all p f\<close> changes every such row, as an \<open>UPDATE\<close> does.
\<close>

definition modify_all :: "('r \<Rightarrow> bool) \<Rightarrow> ('r \<Rightarrow> 'r) \<Rightarrow> 'r list \<Rightarrow> 'r list" where
  "modify_all p f rows = map (\<lambda>r. if p r then f r else r) rows"

definition count_rows :: "('r \<Rightarrow> bool) \<Rightarrow> 'r list \<Rightarrow> nat" where
  "count_rows p rows = length (filter p rows)"

lemma modify_all_none: "(\<And>r. r \<in> set rows \<Longrightarrow> \<not> p r) \<Longrightarrow> modify_all p f rows = rows"
  unfolding modify_all_def by (rule map_idI) auto

lemma modify_all_cong_key:
  "(\<And>r. p r \<Longrightarrow> key (f r) = key r) \<Longrightarrow> map key (modify_all p f rows) = map key rows"
  by (induction rows) (auto simp: modify_all_def)

lemma modify_all_simps [simp]:
  "modify_all p f [] = []"
  "modify_all p f (r # rows) = (if p r then f r else r) # modify_all p f rows"
  by (simp_all add: modify_all_def)

lemma set_modify_all:
  "set (modify_all p f rows) = (\<lambda>r. if p r then f r else r) ` set rows"
  by (auto simp: modify_all_def)

lemma length_modify_all [simp]: "length (modify_all p f rows) = length rows"
  by (simp add: modify_all_def)

lemma count_rows_simps [simp]:
  "count_rows p [] = 0"
  "count_rows p (r # rows) = (if p r then Suc (count_rows p rows) else count_rows p rows)"
  by (simp_all add: count_rows_def)

lemma count_rows_0: "count_rows p rows = 0 \<longleftrightarrow> (\<forall>r \<in> set rows. \<not> p r)"
  by (induction rows) auto

lemma count_rows_append [simp]: "count_rows p (xs @ ys) = count_rows p xs + count_rows p ys"
  by (simp add: count_rows_def)

text \<open>Looking up the first row with a given property, and how updates move through it.\<close>

lemma find_None_iff2: "List.find p xs = None \<longleftrightarrow> (\<forall>x \<in> set xs. \<not> p x)"
  by (auto simp: find_None_iff)

lemma find_SomeD: "List.find p xs = Some x \<Longrightarrow> x \<in> set xs \<and> p x"
  by (induction xs) (auto split: if_splits)

lemma find_append:
  "List.find p (xs @ ys) = (case List.find p xs of None \<Rightarrow> List.find p ys | Some x \<Rightarrow> Some x)"
  by (induction xs) auto

lemma find_modify_all:
  assumes "\<And>r. p (f r) = p r"
  shows "List.find p (modify_all q f rows) =
    map_option (\<lambda>r. if q r then f r else r) (List.find p rows)"
  by (induction rows) (auto simp: assms)

lemma find_unique_key:
  assumes "distinct (map key rows)" "r \<in> set rows"
  shows "List.find (\<lambda>x. key x = key r) rows = Some r"
  using assms by (induction rows) auto

lemma distinct_key_eq:
  "distinct (map key rows) \<Longrightarrow> a \<in> set rows \<Longrightarrow> b \<in> set rows \<Longrightarrow> key a = key b \<Longrightarrow> a = b"
  by (metis find_unique_key option.inject)

subsection \<open>Lists\<close>

lemma mset_eq_setI: "distinct xs \<Longrightarrow> distinct ys \<Longrightarrow> set xs = set ys \<Longrightarrow> mset xs = mset ys"
  by (simp add: set_eq_iff_mset_eq_distinct)

lemma count_list_map_concat:
  "count_list (concat (map f xs)) y = sum_list (map (\<lambda>x. count_list (f x) y) xs)"
  by (induction xs) auto

lemma count_list_replicate: "count_list (replicate n x) y = (if x = y then n else 0)"
  by (induction n) auto

lemma sum_list_remove_zero: "(\<And>x. x \<in> set xs \<Longrightarrow> f x = (0::nat)) \<Longrightarrow> sum_list (map f xs) = 0"
  by (induction xs) auto

end
