(* ===== verification/Errors.thy ===== *)
theory Errors imports Prelude begin

text \<open>
  Application errors, \<open>pkg/errorx\<close>: the error values that travel through the services
  (\<open>error.go\<close>), the translation of driver errors (\<open>db_error.go\<close>) and the translation of an
  error into an HTTP answer (\<open>map_error.go\<close>).

  Go's \<open>error\<close> interface is the datatype \<open>err\<close>, with one constructor per kind of error value the
  code creates or inspects. \<open>ErrorType\<close> is a string type in Go; its zero value \<open>""\<close> is the
  constructor \<open>ErrTypeUnset\<close>.
\<close>

datatype ErrorType =
    ErrTypeNotFound
  | ErrTypeConflict
  | ErrTypeInternal
  | ErrTypeValidation
  | ErrTypeUnauthorized
  | ErrTypeUnset

primrec error_type_string :: "ErrorType \<Rightarrow> string" where
  "error_type_string ErrTypeNotFound = ''NOT_FOUND''"
| "error_type_string ErrTypeConflict = ''CONFLICT''"
| "error_type_string ErrTypeInternal = ''INTERNAL_ERROR''"
| "error_type_string ErrTypeValidation = ''VALIDATION_ERROR''"
| "error_type_string ErrTypeUnauthorized = ''UNAUTHORIZED''"
| "error_type_string ErrTypeUnset = ''''"

text \<open>
  \<open>AppError\<close> is the struct of \<open>error.go\<close> (type, message, fields, wrapped error, which it does not
  expose through \<open>Unwrap\<close>). \<open>ErrorString\<close> is \<open>errors.New\<close> or an \<open>fmt.Errorf\<close> without \<open>%w\<close>,
  \<open>WrapError p e\<close> an \<open>fmt.Errorf\<close> whose format ends in \<open>%w\<close>. The rest are sentinel values and driver
  errors: \<open>pgx.ErrNoRows\<close>, \<open>*pgconn.PgError\<close> (code, message), \<open>pgx.ErrTxClosed\<close>, any other error of
  the driver or the network, the Redis client's errors and the errors of a finished context.
\<close>

datatype err =
    AppError ErrorType string "(string \<times> string) list" "err option"
  | ErrorString string
  | WrapError string err
  | ErrSuspendExecution
  | ErrNoRows
  | PgError string string
  | ErrTxClosed
  | DriverError string
  | ErrCacheMiss
  | ContextError string

text \<open>The \<open>Error()\<close> method.\<close>

primrec error_string :: "err \<Rightarrow> string" where
  "error_string (AppError t m fs e) = error_type_string t @ '': '' @ m"
| "error_string (ErrorString s) = s"
| "error_string (WrapError p e) = p @ error_string e"
| "error_string ErrSuspendExecution = ''execution suspended pending external event''"
| "error_string ErrNoRows = ''no rows in result set''"
| "error_string (PgError c m) = ''ERROR: '' @ m @ '' (SQLSTATE '' @ c @ '')''"
| "error_string ErrTxClosed = ''tx is closed''"
| "error_string (DriverError s) = s"
| "error_string ErrCacheMiss = ''cache: key not found''"
| "error_string (ContextError s) = s"

text \<open>\<open>errors.Is\<close> for the sentinels the code looks for, and \<open>errors.AsType\<close> for the two struct types:
  both follow the \<open>%w\<close> chain, and an \<open>AppError\<close> ends it.\<close>

primrec is_suspend :: "err \<Rightarrow> bool" where
  "is_suspend (AppError t m fs e) = False"
| "is_suspend (ErrorString s) = False"
| "is_suspend (WrapError p e) = is_suspend e"
| "is_suspend ErrSuspendExecution = True"
| "is_suspend ErrNoRows = False"
| "is_suspend (PgError c m) = False"
| "is_suspend ErrTxClosed = False"
| "is_suspend (DriverError s) = False"
| "is_suspend ErrCacheMiss = False"
| "is_suspend (ContextError s) = False"

fun unwrap_all :: "err \<Rightarrow> err" where
  "unwrap_all (WrapError p e) = unwrap_all e"
| "unwrap_all e = e"

definition is_no_rows :: "err \<Rightarrow> bool" where
  "is_no_rows e \<longleftrightarrow> unwrap_all e = ErrNoRows"

definition NewValidationError :: "(string \<times> string) list \<Rightarrow> err" where
  "NewValidationError fields = AppError ErrTypeValidation ''validation failed'' fields None"

text \<open>
  \<open>NewError\<close> builds the error with an unset type and then sets the type in a \<open>switch\<close> over the
  requested one. The switch has no case for \<open>ErrTypeValidation\<close>.
\<close>

definition NewError :: "ErrorType \<Rightarrow> string \<Rightarrow> err option \<Rightarrow> err" where
  "NewError errType msg e =
     (case errType of
        ErrTypeNotFound \<Rightarrow> AppError ErrTypeNotFound msg [] e
      | ErrTypeConflict \<Rightarrow> AppError ErrTypeConflict msg [] e
      | ErrTypeInternal \<Rightarrow> AppError ErrTypeInternal msg [] e
      | ErrTypeUnauthorized \<Rightarrow> AppError ErrTypeUnauthorized msg [] e
      | _ \<Rightarrow> AppError ErrTypeUnset msg [] e)"

text \<open>\<open>DbError\<close>; its message argument is not used by the code.\<close>

definition DbError :: "err \<Rightarrow> err" where
  "DbError e =
     (if is_no_rows e then NewError ErrTypeNotFound ''query error'' (Some e)
      else case unwrap_all e of
        PgError code msg \<Rightarrow>
          (if code = ''23505'' then NewError ErrTypeConflict msg (Some (PgError code msg))
           else if code = ''23503'' then NewError ErrTypeNotFound msg (Some (PgError code msg))
           else NewError ErrTypeInternal ''internal server error'' (Some e))
      | _ \<Rightarrow> NewError ErrTypeInternal ''internal server error'' (Some e))"

record HTTPError =
  h_Code :: nat
  h_Message :: string
  h_Fields :: "(string \<times> string) list"

text \<open>\<open>MapError\<close>: \<open>nil\<close> stays \<open>nil\<close>; an error with an \<open>AppError\<close> in its chain is mapped by type, with
  the general 500 answer for a type that no case of the switch names.\<close>

definition unexpected_error :: HTTPError where
  "unexpected_error = \<lparr>h_Code = 500, h_Message = ''an unexpected error occurred'', h_Fields = []\<rparr>"

definition MapError :: "err option \<Rightarrow> HTTPError option" where
  "MapError eo =
     (case eo of
        None \<Rightarrow> None
      | Some e \<Rightarrow> Some
         (case unwrap_all e of
            AppError t msg fs inner \<Rightarrow>
              (case t of
                 ErrTypeValidation \<Rightarrow> \<lparr>h_Code = 422, h_Message = msg, h_Fields = fs\<rparr>
               | ErrTypeConflict \<Rightarrow> \<lparr>h_Code = 409, h_Message = msg, h_Fields = []\<rparr>
               | ErrTypeNotFound \<Rightarrow> \<lparr>h_Code = 404, h_Message = msg, h_Fields = []\<rparr>
               | ErrTypeUnauthorized \<Rightarrow> \<lparr>h_Code = 401, h_Message = msg, h_Fields = []\<rparr>
               | ErrTypeInternal \<Rightarrow>
                   \<lparr>h_Code = 500, h_Message = ''internal server error'', h_Fields = []\<rparr>
               | ErrTypeUnset \<Rightarrow> unexpected_error)
          | _ \<Rightarrow> unexpected_error))"

subsection \<open>Facts\<close>

lemma unwrap_all_not_wrap: "unwrap_all e \<noteq> WrapError p e'"
  by (induction e rule: unwrap_all.induct) auto

lemma is_suspend_unwrap: "is_suspend e \<longleftrightarrow> unwrap_all e = ErrSuspendExecution"
  by (induction e rule: unwrap_all.induct) auto

lemma NewError_app: "\<exists>t'. NewError t msg e = AppError t' msg [] e"
  by (cases t) (auto simp: NewError_def)

lemma NewError_not_suspend [simp]: "\<not> is_suspend (NewError t msg e)"
  by (cases t) (auto simp: NewError_def)

lemma DbError_app: "\<exists>t m e'. DbError e = AppError t m [] (Some e')"
  using NewError_app by (fastforce simp: DbError_def split: err.splits if_splits)

lemma DbError_not_suspend [simp]: "\<not> is_suspend (DbError e)"
  by (metis DbError_app is_suspend.simps(1))

text \<open>The type under which \<open>DbError\<close> files an error: never a validation or authorization error.\<close>

definition db_error_class :: "err \<Rightarrow> ErrorType" where
  "db_error_class e =
     (case unwrap_all e of
        ErrNoRows \<Rightarrow> ErrTypeNotFound
      | PgError code msg \<Rightarrow>
          (if code = ''23505'' then ErrTypeConflict
           else if code = ''23503'' then ErrTypeNotFound else ErrTypeInternal)
      | _ \<Rightarrow> ErrTypeInternal)"

lemma DbError_class:
  "\<exists>m e'. DbError e = AppError (db_error_class e) m [] (Some e')"
  by (auto simp: DbError_def db_error_class_def NewError_def is_no_rows_def split: err.splits)

text \<open>The HTTP status a service error gets when it is built by \<open>NewError\<close> and sent by \<open>MapError\<close>.\<close>

definition http_status :: "err \<Rightarrow> nat" where
  "http_status e = (case MapError (Some e) of None \<Rightarrow> 200 | Some h \<Rightarrow> h_Code h)"

lemma http_status_NewError:
  "http_status (NewError t msg e) =
     (case t of ErrTypeNotFound \<Rightarrow> 404 | ErrTypeConflict \<Rightarrow> 409 | ErrTypeUnauthorized \<Rightarrow> 401
      | _ \<Rightarrow> 500)"
  by (cases t) (simp_all add: http_status_def MapError_def NewError_def unexpected_error_def)

lemma http_status_wrap [simp]: "http_status (WrapError p e) = http_status e"
  by (simp add: http_status_def MapError_def)

end
