(* ===== verification/Values.thy ===== *)
theory Values imports Errors "HOL-Library.Char_ord" "HOL-Library.List_Lexorder" begin

text \<open>
  The values that flow through workflows: Go's \<open>any\<close> as \<open>encoding/json\<close> and the step actions
  build it, and the parts of Go's standard library the code applies to such values:
  \<open>json.Marshal\<close>, \<open>strings.Split\<close>, \<open>strings.Contains\<close>, \<open>fmt.Sprintf("%d")\<close>.

  Strings are byte strings (\<open>char list\<close>), as in Go; they are taken to be valid UTF-8 without the two
  line separators U+2028 and U+2029, which \<open>json.Marshal\<close> escapes and this model does not. A \<open>float64\<close> is
  given by its shortest decimal form \<open>m * 10 ^ e\<close>, which identifies a finite double; JSON has no others.
\<close>

datatype float64 = F64 (f64_mant: int) (f64_exp: int)

datatype any =
    NilV
  | BoolV bool
  | IntV int
  | FloatV float64
  | StrV string
  | StrsV "string list"
  | ListV "any list"
  | ObjV "(string \<times> any) list"

text \<open>A \<open>map[string]any\<close> is the association list of its entries.\<close>

type_synonym gomap = "(string \<times> any) list"

text \<open>\<open>m[k]\<close> gives \<open>nil\<close> for a missing key; \<open>v, ok := m[k]\<close> is \<open>map_of\<close>.\<close>

definition gm_get :: "gomap \<Rightarrow> string \<Rightarrow> any" where
  "gm_get m k = (case map_of m k of None \<Rightarrow> NilV | Some v \<Rightarrow> v)"

lemma gm_get_set [simp]: "gm_get (gm_set k v m) k' = (if k' = k then v else gm_get m k')"
  by (simp add: gm_get_def)

text \<open>Type assertions \<open>v.(string)\<close>, \<open>v.([]any)\<close>, \<open>v.(map[string]any)\<close>, \<open>v.(bool)\<close>; the first with the
  zero value \<open>""\<close> where the code ignores \<open>ok\<close>.\<close>

fun as_string :: "any \<Rightarrow> string option" where
  "as_string (StrV s) = Some s"
| "as_string _ = None"

definition string_or_empty :: "any \<Rightarrow> string" where
  "string_or_empty v = (case as_string v of None \<Rightarrow> '''' | Some s \<Rightarrow> s)"

fun as_list :: "any \<Rightarrow> any list option" where
  "as_list (ListV xs) = Some xs"
| "as_list _ = None"

fun as_obj :: "any \<Rightarrow> gomap option" where
  "as_obj (ObjV m) = Some m"
| "as_obj _ = None"

fun as_bool :: "any \<Rightarrow> bool option" where
  "as_bool (BoolV b) = Some b"
| "as_bool _ = None"

subsection \<open>Decimal numbers\<close>

definition digit_char :: "nat \<Rightarrow> char" where
  "digit_char d = char_of (48 + d)"

fun show_nat :: "nat \<Rightarrow> string" where
  "show_nat n = (if n < 10 then [digit_char n] else show_nat (n div 10) @ [digit_char (n mod 10)])"

declare show_nat.simps [simp del]

definition show_int :: "int \<Rightarrow> string" where
  "show_int i = (if i < 0 then CHR ''-'' # show_nat (nat (- i)) else show_nat (nat i))"

text \<open>\<open>json.Marshal\<close> of a \<open>float64\<close>: format \<open>f\<close> or, for magnitudes below 1e-6 and from 1e21, format
  \<open>e\<close> with a two-digit exponent whose leading zero is dropped when it is negative. The value is
  \<open>0.d1 d2 ... * 10 ^ p\<close>.\<close>

definition show_exp :: "int \<Rightarrow> string" where
  "show_exp x = (if x < 0 then ''e-'' @ show_nat (nat (- x)) else ''e+'' @ show_nat (nat x))"

definition show_float :: "float64 \<Rightarrow> string" where
  "show_float f =
     (let m = f64_mant f; ds = show_nat (nat \<bar>m\<bar>); n = int (length ds); p = n + f64_exp f;
          sign = (if m < 0 then ''-'' else '''')
      in if m = 0 then ''0''
         else if p < - 5 \<or> 21 < p then
           sign @ [hd ds] @ (if n = 1 then '''' else CHR ''.'' # tl ds) @ show_exp (p - 1)
         else if p \<le> 0 then sign @ ''0.'' @ replicate (nat (- p)) (CHR ''0'') @ ds
         else if n \<le> p then sign @ ds @ replicate (nat (p - n)) (CHR ''0'')
         else sign @ take (nat p) ds @ ''.'' @ drop (nat p) ds)"

subsection \<open>json.Marshal\<close>

definition hex_digit :: "nat \<Rightarrow> char" where
  "hex_digit d = (if d < 10 then char_of (48 + d) else char_of (87 + d))"

definition json_escape :: "char \<Rightarrow> string" where
  "json_escape c =
     (let n = of_char c :: nat in
      if n = 34 then [CHR 0x5C, CHR 0x22]
      else if n = 92 then [CHR 0x5C, CHR 0x5C]
      else if n = 8 then [CHR 0x5C, CHR ''b'']
      else if n = 12 then [CHR 0x5C, CHR ''f'']
      else if n = 10 then [CHR 0x5C, CHR ''n'']
      else if n = 13 then [CHR 0x5C, CHR ''r'']
      else if n = 9 then [CHR 0x5C, CHR ''t'']
      else if n < 32 \<or> n = 60 \<or> n = 62 \<or> n = 38 then
        CHR 0x5C # ''u00'' @ [hex_digit (n div 16), hex_digit (n mod 16)]
      else [c])"

definition json_string :: "string \<Rightarrow> string" where
  "json_string s = CHR 0x22 # concat (map json_escape s) @ [CHR 0x22]"

fun join_with :: "string \<Rightarrow> string list \<Rightarrow> string" where
  "join_with sep [] = ''''"
| "join_with sep [x] = x"
| "join_with sep (x # y # xs) = x @ sep @ join_with sep (y # xs)"

definition json_array :: "string list \<Rightarrow> string" where
  "json_array xs = ''['' @ join_with '','' xs @ '']''"

text \<open>Object keys are written in sorted byte order.\<close>

definition json_object :: "(string \<times> string) list \<Rightarrow> string" where
  "json_object kvs =
     CHR 0x7B # join_with '','' (map (\<lambda>(k, v). json_string k @ '':'' @ v) (sort_key fst kvs))
       @ [CHR 0x7D]"

fun json_marshal :: "any \<Rightarrow> string" where
  "json_marshal NilV = ''null''"
| "json_marshal (BoolV b) = (if b then ''true'' else ''false'')"
| "json_marshal (IntV i) = show_int i"
| "json_marshal (FloatV f) = show_float f"
| "json_marshal (StrV s) = json_string s"
| "json_marshal (StrsV ss) = json_array (map json_string ss)"
| "json_marshal (ListV xs) = json_array (map json_marshal xs)"
| "json_marshal (ObjV m) = json_object (map (\<lambda>kv. (fst kv, json_marshal (snd kv))) m)"

text \<open>
  What a value becomes when it is stored in a \<open>JSONB\<close> column and read back into \<open>any\<close>: integers come
  back as \<open>float64\<close> and string slices as \<open>[]any\<close>. The shortest form of an integer drops its trailing
  zeros.
\<close>

function norm_dec :: "int \<Rightarrow> int \<Rightarrow> float64" where
  "norm_dec m e = (if m \<noteq> 0 \<and> m mod 10 = 0 then norm_dec (m div 10) (e + 1) else F64 m e)"
  by pat_completeness auto
termination
  by (relation "measure (\<lambda>(m, e). nat \<bar>m\<bar>)") auto

declare norm_dec.simps [simp del]

fun json_roundtrip :: "any \<Rightarrow> any" where
  "json_roundtrip NilV = NilV"
| "json_roundtrip (BoolV b) = BoolV b"
| "json_roundtrip (IntV i) = FloatV (norm_dec i 0)"
| "json_roundtrip (FloatV f) = FloatV f"
| "json_roundtrip (StrV s) = StrV s"
| "json_roundtrip (StrsV ss) = ListV (map StrV ss)"
| "json_roundtrip (ListV xs) = ListV (map json_roundtrip xs)"
| "json_roundtrip (ObjV m) = ObjV (map (\<lambda>kv. (fst kv, json_roundtrip (snd kv))) m)"

lemma json_roundtrip_idem: "json_roundtrip (json_roundtrip v) = json_roundtrip v"
  by (induction v rule: json_roundtrip.induct) (auto simp: comp_def)

subsection \<open>strings\<close>

text \<open>\<open>strings.Split\<close> at a one-byte separator: one part more than separators.\<close>

fun split_at :: "char \<Rightarrow> string \<Rightarrow> string list" where
  "split_at c [] = [[]]"
| "split_at c (x # xs) =
     (if x = c then [] # split_at c xs
      else case split_at c xs of [] \<Rightarrow> [[x]] | p # ps \<Rightarrow> (x # p) # ps)"

lemma split_at_nonempty [simp]: "split_at c s \<noteq> []"
  by (induction s) (auto split: list.splits)

lemma split_at_no_sep: "c \<notin> set s \<Longrightarrow> split_at c s = [s]"
  by (induction s) auto

lemma split_at_append_sep: "c \<notin> set p \<Longrightarrow> split_at c (p @ c # s) = p # split_at c s"
  by (induction p) auto

lemma join_with_Cons:
  "join_with sep (x # xs) = x @ (if xs = [] then [] else sep @ join_with sep xs)"
  by (cases xs) auto

lemma split_at_join: "join_with [c] (split_at c s) = s"
proof (induction s)
  case (Cons x xs)
  then show ?case
    by (cases "split_at c xs") (auto simp: join_with_Cons)
qed simp

lemma split_at_parts: "p \<in> set (split_at c s) \<Longrightarrow> c \<notin> set p"
proof (induction s arbitrary: p)
  case (Cons x xs)
  then show ?case
    by (cases "split_at c xs") (auto split: if_splits)
qed simp

text \<open>\<open>strings.Contains\<close>.\<close>

fun starts_with :: "string \<Rightarrow> string \<Rightarrow> bool" where
  "starts_with [] s = True"
| "starts_with (x # xs) [] = False"
| "starts_with (x # xs) (y # ys) = (x = y \<and> starts_with xs ys)"

fun str_contains :: "string \<Rightarrow> string \<Rightarrow> bool" where
  "str_contains [] sub = (sub = [])"
| "str_contains (x # xs) sub = (starts_with sub (x # xs) \<or> str_contains xs sub)"

lemma starts_with_iff: "starts_with p s \<longleftrightarrow> (\<exists>t. s = p @ t)"
  by (induction p s rule: starts_with.induct) auto

lemma str_contains_iff: "str_contains s sub \<longleftrightarrow> (\<exists>a b. s = a @ sub @ b)"
proof (induction s)
  case (Cons x xs)
  show ?case
  proof
    assume "str_contains (x # xs) sub"
    then consider "starts_with sub (x # xs)" | "str_contains xs sub" by auto
    then show "\<exists>a b. x # xs = a @ sub @ b"
    proof cases
      case 1
      then obtain t where "x # xs = [] @ sub @ t" by (auto simp: starts_with_iff)
      then show ?thesis by blast
    next
      case 2
      with Cons.IH obtain a b where "x # xs = (x # a) @ sub @ b" by auto
      then show ?thesis by blast
    qed
  next
    assume "\<exists>a b. x # xs = a @ sub @ b"
    then obtain a b where ab: "x # xs = a @ sub @ b" by blast
    show "str_contains (x # xs) sub"
    proof (cases a)
      case Nil
      with ab have "starts_with sub (x # xs)" by (auto simp: starts_with_iff)
      then show ?thesis by simp
    next
      case (Cons y ys)
      with ab Cons.IH show ?thesis by auto
    qed
  qed
qed simp

end
