(* ===== verification/Model.thy ===== *)
theory Model imports Values begin

text \<open>
  The domain model, \<open>internal/model\<close>: the rows of the five tables, the column lists the
  repositories select and insert, the status constants and the step definitions of a workflow's DAG.

  A time is an integer number of seconds; \<open>*time.Time\<close> is an option. A record's field is the struct's
  field with a prefix for the struct. \<open>json.RawMessage\<close> is a decoded JSON text: \<open>None\<close> for bytes that
  are not JSON (a \<open>JSONB\<close> column holds none of those).
\<close>

type_synonym time = int
type_synonym json_text = "any option"

subsection \<open>Statuses\<close>

abbreviation StatusExecutionPending :: string where "StatusExecutionPending \<equiv> ''PENDING''"
abbreviation StatusExecutionSuccess :: string where "StatusExecutionSuccess \<equiv> ''SUCCESS''"
abbreviation StatusExecutionFailed :: string where "StatusExecutionFailed \<equiv> ''FAILED''"
abbreviation StatusExecutionTimeout :: string where "StatusExecutionTimeout \<equiv> ''TIMEOUT''"
abbreviation StatusExecutionRunning :: string where "StatusExecutionRunning \<equiv> ''RUNNING''"
abbreviation StatusExecutionCancelled :: string where "StatusExecutionCancelled \<equiv> ''CANCELLED''"
abbreviation StatusExecutionSkipped :: string where "StatusExecutionSkipped \<equiv> ''SKIPPED''"
abbreviation StatusExecutionSuspended :: string where "StatusExecutionSuspended \<equiv> ''SUSPENDED''"
abbreviation StatusExecutionCompensating :: string where
  "StatusExecutionCompensating \<equiv> ''COMPENSATING''"

definition execution_statuses :: "string list" where
  "execution_statuses =
     [StatusExecutionPending, StatusExecutionSuccess, StatusExecutionFailed, StatusExecutionTimeout,
      StatusExecutionRunning, StatusExecutionCancelled, StatusExecutionSkipped,
      StatusExecutionSuspended, StatusExecutionCompensating]"

subsection \<open>Rows\<close>

record Execution =
  e_ID :: string
  e_TenantID :: string
  e_WorkflowID :: string
  e_Status :: string
  e_TriggerType :: string
  e_Version :: int
  e_StartedAt :: "time option"
  e_CompletedAt :: "time option"
  e_CreatedAt :: time
  e_UpdatedAt :: time

definition execution_columns :: "string list" where
  "execution_columns =
     [''id'', ''tenant_id'', ''workflow_id'', ''status'', ''trigger_type'', ''version'',
      ''started_at'', ''completed_at'', ''created_at'', ''updated_at'']"

text \<open>The \<open>Output\<close> of a step is a JSON object; \<open>None\<close> is SQL \<open>NULL\<close> (Go's \<open>nil\<close> slice).\<close>

record StepExecution =
  s_ID :: string
  s_TenantID :: string
  s_ExecutionID :: string
  s_StepID :: string
  s_Action :: string
  s_Status :: string
  s_Version :: int
  s_RetryCount :: int
  s_ErrorLog :: string
  s_Output :: "any option"
  s_StartedAt :: "time option"
  s_CompletedAt :: "time option"

definition step_execution_columns :: "string list" where
  "step_execution_columns =
     [''id'', ''tenant_id'', ''execution_id'', ''step_id'', ''action'', ''status'', ''version'',
      ''retry_count'', ''error_log'', ''output'', ''started_at'', ''completed_at'']"

record Workflow =
  w_ID :: string
  w_TenantID :: string
  w_Name :: string
  w_Description :: string
  w_DAGDefinition :: json_text
  w_Version :: int
  w_IsCurrent :: bool
  w_IsActive :: bool
  w_CreatedAt :: time
  w_UpdatedAt :: "time option"

record Tenant =
  t_ID :: string
  t_Name :: string
  t_CreatedAt :: time
  t_UpdatedAt :: "time option"
  t_IsActive :: bool

record User =
  u_ID :: string
  u_TenantID :: string
  u_Email :: string
  u_PasswordHash :: string
  u_Role :: string
  u_Version :: int
  u_CreatedAt :: time
  u_UpdatedAt :: "time option"
  u_IsActive :: bool

subsection \<open>Step definitions and their JSON\<close>

record StepDefinition =
  d_ID :: string
  d_Action :: string
  d_Parameters :: gomap
  d_DependsOn :: "string list"
  d_MaxRetries :: int

definition zero_step :: StepDefinition where
  "zero_step = \<lparr>d_ID = '''', d_Action = '''', d_Parameters = [], d_DependsOn = [], d_MaxRetries = 0\<rparr>"

text \<open>
  \<open>json.Unmarshal\<close> into \<open>[]StepDefinition\<close>. A field is set by every key that equals its tag up to
  letter case, in the object's order; \<open>null\<close> leaves a string or number unchanged and empties a slice or
  map; any other type mismatch makes the whole call fail. A number fits \<open>int\<close> when it is integral and in
  range.
\<close>

definition lower_char :: "char \<Rightarrow> char" where
  "lower_char c = (let n = of_char c :: nat in if 65 \<le> n \<and> n \<le> 90 then char_of (n + 32) else c)"

definition json_int :: "any \<Rightarrow> int option" where
  "json_int v =
     (case v of
        FloatV f \<Rightarrow>
          (let n = f64_mant f * 10 ^ nat (f64_exp f) in
           if 0 \<le> f64_exp f \<and> - (2 ^ 63) \<le> n \<and> n < 2 ^ 63 then Some n else None)
      | IntV n \<Rightarrow> (if - (2 ^ 63) \<le> n \<and> n < 2 ^ 63 then Some n else None)
      | _ \<Rightarrow> None)"

fun decode_strings :: "any list \<Rightarrow> string list option" where
  "decode_strings [] = Some []"
| "decode_strings (NilV # vs) = map_option (Cons '''') (decode_strings vs)"
| "decode_strings (StrV s # vs) = map_option (Cons s) (decode_strings vs)"
| "decode_strings (_ # vs) = None"

definition decode_step_field :: "string \<Rightarrow> any \<Rightarrow> StepDefinition \<Rightarrow> StepDefinition option" where
  "decode_step_field k v d =
     (let f = map lower_char k in
      if f = ''id'' then
        (case v of NilV \<Rightarrow> Some d | StrV s \<Rightarrow> Some (d\<lparr>d_ID := s\<rparr>) | _ \<Rightarrow> None)
      else if f = ''action'' then
        (case v of NilV \<Rightarrow> Some d | StrV s \<Rightarrow> Some (d\<lparr>d_Action := s\<rparr>) | _ \<Rightarrow> None)
      else if f = ''parameters'' then
        (case v of NilV \<Rightarrow> Some (d\<lparr>d_Parameters := []\<rparr>)
         | ObjV m \<Rightarrow> Some (d\<lparr>d_Parameters := m\<rparr>) | _ \<Rightarrow> None)
      else if f = ''depends_on'' then
        (case v of NilV \<Rightarrow> Some (d\<lparr>d_DependsOn := []\<rparr>)
         | ListV vs \<Rightarrow> map_option (\<lambda>ss. d\<lparr>d_DependsOn := ss\<rparr>) (decode_strings vs) | _ \<Rightarrow> None)
      else if f = ''max_retries'' then
        (case v of NilV \<Rightarrow> Some d
         | _ \<Rightarrow> map_option (\<lambda>n. d\<lparr>d_MaxRetries := n\<rparr>) (json_int v))
      else Some d)"

fun decode_step_fields :: "gomap \<Rightarrow> StepDefinition \<Rightarrow> StepDefinition option" where
  "decode_step_fields [] d = Some d"
| "decode_step_fields ((k, v) # m) d =
     (case decode_step_field k v d of None \<Rightarrow> None | Some d' \<Rightarrow> decode_step_fields m d')"

fun decode_step :: "any \<Rightarrow> StepDefinition option" where
  "decode_step NilV = Some zero_step"
| "decode_step (ObjV m) = decode_step_fields m zero_step"
| "decode_step _ = None"

fun decode_step_list :: "any list \<Rightarrow> StepDefinition list option" where
  "decode_step_list [] = Some []"
| "decode_step_list (v # vs) =
     (case decode_step v of None \<Rightarrow> None | Some d \<Rightarrow> map_option (Cons d) (decode_step_list vs))"

definition unmarshal_steps :: "json_text \<Rightarrow> err + StepDefinition list" where
  "unmarshal_steps raw =
     (case raw of
        None \<Rightarrow> Inl (ErrorString ''invalid character'')
      | Some NilV \<Rightarrow> Inr []
      | Some (ListV vs) \<Rightarrow>
          (case decode_step_list vs of
             None \<Rightarrow> Inl (ErrorString ''json: cannot unmarshal'')
           | Some ds \<Rightarrow> Inr ds)
      | Some _ \<Rightarrow> Inl (ErrorString ''json: cannot unmarshal''))"

definition GetSteps :: "Workflow \<Rightarrow> err + StepDefinition list" where
  "GetSteps w = unmarshal_steps (w_DAGDefinition w)"

definition NextVersion :: "Workflow \<Rightarrow> int" where
  "NextVersion w = wrap64 (w_Version w + 1)"

text \<open>\<open>json.Marshal\<close> of \<open>[]StepDefinition\<close>, as the value that decoding the text gives.\<close>

definition encode_step :: "StepDefinition \<Rightarrow> any" where
  "encode_step d = ObjV
     [(''id'', StrV (d_ID d)), (''action'', StrV (d_Action d)),
      (''parameters'', ObjV (d_Parameters d)),
      (''depends_on'', ListV (map StrV (d_DependsOn d))),
      (''max_retries'', IntV (d_MaxRetries d))]"

definition marshal_steps :: "StepDefinition list \<Rightarrow> json_text" where
  "marshal_steps ds = Some (ListV (map encode_step ds))"

lemma lower_tags [simp]:
  "map lower_char ''id'' = ''id''" "map lower_char ''action'' = ''action''"
  "map lower_char ''parameters'' = ''parameters''" "map lower_char ''depends_on'' = ''depends_on''"
  "map lower_char ''max_retries'' = ''max_retries''"
  by (code_simp)+

lemma decode_strings_map [simp]: "decode_strings (map StrV ss) = Some ss"
  by (induction ss) auto

text \<open>Step lists survive the encode/decode round trip, as \<open>CreateFromText\<close> relies on.\<close>

definition int64 :: "int \<Rightarrow> bool" where
  "int64 n \<longleftrightarrow> - (2 ^ 63) \<le> n \<and> n < 2 ^ 63"

lemma decode_encode_step:
  assumes "int64 (d_MaxRetries d)"
  shows "decode_step (encode_step d) = Some d"
proof -
  have "json_int (IntV (d_MaxRetries d)) = Some (d_MaxRetries d)"
    using assms by (simp add: json_int_def int64_def)
  then show ?thesis
    unfolding encode_step_def zero_step_def decode_step.simps decode_step_fields.simps
    by (simp add: decode_step_field_def Let_def del: list.map)
qed

lemma decode_encode_steps:
  "\<forall>d \<in> set ds. int64 (d_MaxRetries d) \<Longrightarrow> decode_step_list (map encode_step ds) = Some ds"
  by (induction ds) (auto simp: decode_encode_step)

lemma unmarshal_marshal_steps:
  "\<forall>d \<in> set ds. int64 (d_MaxRetries d) \<Longrightarrow> unmarshal_steps (marshal_steps ds) = Inr ds"
  by (simp add: unmarshal_steps_def marshal_steps_def decode_encode_steps)

end
