(* ===== verification/Dag.thy ===== *)
theory Dag imports Model begin

text \<open>
  The execution plan of a workflow, \<open>pkg/dag/parser.go\<close>: \<open>BuildExecutionPlan\<close> checks that step ids
  are unique and that dependencies exist, and then peels the dependency graph layer by layer
  (Kahn's algorithm). Steps of one layer run in parallel, layers one after the other.

  The three maps of the function are the fields of \<open>graph\<close>. Its first queue is filled in the iteration
  order of a Go map, which is the argument \<open>ro\<close>.
\<close>

record graph =
  adjList :: "(string \<times> string list) list"
  inDegree :: "(string \<times> int) list"
  stepMap :: "(string \<times> StepDefinition) list"

definition empty_graph :: graph where
  "empty_graph = \<lparr>adjList = [], inDegree = [], stepMap = []\<rparr>"

definition empty_workflow_error :: err where
  "empty_workflow_error =
     NewError ErrTypeValidation ''workflow cannot empty'' (Some (ErrorString ''workflow cannot empty''))"

definition duplicate_error :: "string \<Rightarrow> err" where
  "duplicate_error i =
     NewError ErrTypeValidation ''duplicate step id found''
       (Some (ErrorString (''duplicate step id found: '' @ i)))"

definition missing_dep_error :: "string \<Rightarrow> string \<Rightarrow> err" where
  "missing_dep_error i dep =
     NewError ErrTypeValidation ''step depends on a non-existent step''
       (Some (ErrorString (''step '' @ [CHR 0x27] @ i @ [CHR 0x27]
         @ '' depends on a non-existent step: '' @ [CHR 0x27] @ dep @ [CHR 0x27])))"

definition cycle_error :: err where
  "cycle_error =
     NewError ErrTypeValidation ''cycle detected in the workflow DAG''
       (Some (ErrorString ''cycle detected in the workflow DAG, infinite loop prevented''))"

subsection \<open>The function\<close>

text \<open>The first loop: register every step, refusing a second step with the same id.\<close>

fun register_steps :: "StepDefinition list \<Rightarrow> graph \<Rightarrow> err + graph" where
  "register_steps [] g = Inr g"
| "register_steps (step # steps) g =
     (if map_of (stepMap g) (d_ID step) \<noteq> None then Inl (duplicate_error (d_ID step))
      else register_steps steps
        (g\<lparr>stepMap := gm_set (d_ID step) step (stepMap g),
           inDegree := gm_set (d_ID step) 0 (inDegree g),
           adjList := gm_set (d_ID step) [] (adjList g)\<rparr>))"

text \<open>The second, nested loop: one edge per listed dependency.\<close>

fun add_deps :: "StepDefinition \<Rightarrow> string list \<Rightarrow> graph \<Rightarrow> err + graph" where
  "add_deps step [] g = Inr g"
| "add_deps step (depID # deps) g =
     (if map_of (stepMap g) depID = None then Inl (missing_dep_error (d_ID step) depID)
      else add_deps step deps
        (g\<lparr>adjList := gm_set depID (sm_list (adjList g) depID @ [d_ID step]) (adjList g),
           inDegree := gm_set (d_ID step) (sm_int (inDegree g) (d_ID step) + 1) (inDegree g)\<rparr>))"

fun link_steps :: "StepDefinition list \<Rightarrow> graph \<Rightarrow> err + graph" where
  "link_steps [] g = Inr g"
| "link_steps (step # steps) g =
     (case add_deps step (d_DependsOn step) g of
        Inl e \<Rightarrow> Inl e
      | Inr g' \<Rightarrow> link_steps steps g')"

text \<open>The innermost loop of the third phase: take one unit off the in-degree of each neighbour and queue
  the neighbours that reach zero.\<close>

fun relax :: "string list \<Rightarrow> (string \<times> int) list \<Rightarrow> string list \<Rightarrow> (string \<times> int) list \<times> string list" where
  "relax [] deg nextQueue = (deg, nextQueue)"
| "relax (neighbor # ns) deg nextQueue =
     (let deg' = gm_set neighbor (sm_int deg neighbor - 1) deg in
      relax ns deg'
        (if sm_int deg' neighbor = 0 then nextQueue @ [neighbor] else nextQueue))"

definition step_of :: "(string \<times> StepDefinition) list \<Rightarrow> string \<Rightarrow> StepDefinition" where
  "step_of sm i = (case map_of sm i of None \<Rightarrow> zero_step | Some s \<Rightarrow> s)"

text \<open>One layer: all ids of the current queue.\<close>

fun visit_layer ::
  "graph \<Rightarrow> string list \<Rightarrow> (string \<times> int) list \<Rightarrow> string list \<Rightarrow> StepDefinition list \<Rightarrow> nat
   \<Rightarrow> (string \<times> int) list \<times> string list \<times> StepDefinition list \<times> nat" where
  "visit_layer g [] deg nextQueue currentLayer visitedCount =
     (deg, nextQueue, currentLayer, visitedCount)"
| "visit_layer g (i # queue) deg nextQueue currentLayer visitedCount =
     (let (deg', nextQueue') = relax (sm_list (adjList g) i) deg nextQueue in
      visit_layer g queue deg' nextQueue' (currentLayer @ [step_of (stepMap g) i]) (visitedCount + 1))"

text \<open>The loop ends because every id it queues has used up one positive in-degree.\<close>

definition n_positive :: "(string \<times> int) list \<Rightarrow> nat" where
  "n_positive deg = length (filter (\<lambda>kv. 0 < snd kv) deg)"

lemma n_positive_dec:
  "n_positive (gm_set k (sm_int deg k - 1) deg) + (if sm_int deg k = 1 then 1 else 0) = n_positive deg"
proof (induction deg)
  case (Cons kv deg)
  then show ?case
    by (cases kv) (auto simp: n_positive_def sm_int_def split: if_splits)
qed (simp add: n_positive_def sm_int_def)

lemma relax_positive:
  "relax ns deg nq = (deg', nq') \<Longrightarrow> n_positive deg' + length nq' = n_positive deg + length nq"
proof (induction ns deg nq rule: relax.induct)
  case (2 neighbor ns deg nq)
  then show ?case
    using n_positive_dec [of neighbor deg] by (fastforce simp: Let_def split: if_splits)
qed simp

lemma visit_layer_positive:
  "visit_layer g q deg nq layer n = (deg', nq', layer', n') \<Longrightarrow>
   n_positive deg' + length nq' = n_positive deg + length nq"
proof (induction g q deg nq layer n rule: visit_layer.induct)
  case (2 g i queue deg nq layer n)
  then show ?case
    by (auto simp: Let_def split: prod.splits dest!: relax_positive)
qed simp

function peel_layers ::
  "graph \<Rightarrow> (string \<times> int) list \<Rightarrow> string list \<Rightarrow> StepDefinition list list \<Rightarrow> nat
   \<Rightarrow> StepDefinition list list \<times> nat" where
  "peel_layers g deg currentQueue executionLayers visitedCount =
     (if currentQueue = [] then (executionLayers, visitedCount)
      else case visit_layer g currentQueue deg [] [] visitedCount of
        (deg', nextQueue, currentLayer, visitedCount') \<Rightarrow>
          peel_layers g deg' nextQueue (executionLayers @ [currentLayer]) visitedCount')"
  by pat_completeness auto
termination
  by (relation "measure (\<lambda>(g, deg, q, ls, n). 2 * n_positive deg + (if q = [] then 0 else 1))")
    (auto dest!: visit_layer_positive [OF sym] simp: neq_Nil_conv)

declare peel_layers.simps [simp del]

definition BuildExecutionPlan ::
  "(string list \<Rightarrow> string list) \<Rightarrow> StepDefinition list \<Rightarrow> err + StepDefinition list list" where
  "BuildExecutionPlan ro steps =
     (if steps = [] then Inl empty_workflow_error
      else case register_steps steps empty_graph of
        Inl e \<Rightarrow> Inl e
      | Inr g0 \<Rightarrow>
          (case link_steps steps g0 of
             Inl e \<Rightarrow> Inl e
           | Inr g \<Rightarrow>
               (let currentQueue = filter (\<lambda>i. sm_int (inDegree g) i = 0) (ro (map fst (inDegree g)));
                    (executionLayers, visitedCount) = peel_layers g (inDegree g) currentQueue [] 0
                in if visitedCount \<noteq> length steps then Inl cycle_error
                   else Inr executionLayers)))"

subsection \<open>The specification\<close>

text \<open>
  The dependencies of an id, the dependency relation, and the workflows the function is to accept. The
  layers of a plan are described without queues or counters: the next layer is exactly the set of ids,
  outside the layers so far, whose dependencies all lie in the layers so far.
\<close>

definition ids :: "StepDefinition list \<Rightarrow> string set" where
  "ids steps = set (map d_ID steps)"

definition deps_of :: "StepDefinition list \<Rightarrow> string \<Rightarrow> string list" where
  "deps_of steps x =
     (case List.find (\<lambda>s. d_ID s = x) steps of None \<Rightarrow> [] | Some s \<Rightarrow> d_DependsOn s)"

definition dep_rel :: "StepDefinition list \<Rightarrow> (string \<times> string) set" where
  "dep_rel steps = {(u, x). \<exists>s \<in> set steps. d_ID s = x \<and> u \<in> set (d_DependsOn s)}"

definition deps_closed :: "StepDefinition list \<Rightarrow> bool" where
  "deps_closed steps \<longleftrightarrow> (\<forall>s \<in> set steps. set (d_DependsOn s) \<subseteq> ids steps)"

definition valid_dag :: "StepDefinition list \<Rightarrow> bool" where
  "valid_dag steps \<longleftrightarrow>
     steps \<noteq> [] \<and> distinct (map d_ID steps) \<and> deps_closed steps \<and> acyclic (dep_rel steps)"

definition ready :: "StepDefinition list \<Rightarrow> string set \<Rightarrow> string set" where
  "ready steps V = {x \<in> ids steps. x \<notin> V \<and> set (deps_of steps x) \<subseteq> V}"

fun layered :: "StepDefinition list \<Rightarrow> string set \<Rightarrow> string list list \<Rightarrow> bool" where
  "layered steps V [] \<longleftrightarrow> ready steps V = {}"
| "layered steps V (q # qs) \<longleftrightarrow>
     q \<noteq> [] \<and> distinct q \<and> set q = ready steps V \<and> layered steps (V \<union> set q) qs"

lemma find_id:
  assumes "distinct (map d_ID steps)" "s \<in> set steps"
  shows "List.find (\<lambda>r. d_ID r = d_ID s) steps = Some s"
  using find_unique_key [OF assms] .

lemma deps_of_step: "distinct (map d_ID steps) \<Longrightarrow> s \<in> set steps \<Longrightarrow> deps_of steps (d_ID s) = d_DependsOn s"
  by (simp add: deps_of_def find_id)

lemma deps_of_other: "x \<notin> ids steps \<Longrightarrow> deps_of steps x = []"
  by (auto simp: deps_of_def ids_def find_None_iff split: option.splits dest!: find_SomeD)

lemma deps_of_ids: "deps_closed steps \<Longrightarrow> distinct (map d_ID steps) \<Longrightarrow> set (deps_of steps x) \<subseteq> ids steps"
  by (cases "x \<in> ids steps")
    (auto simp: deps_of_other deps_closed_def ids_def deps_of_step subset_iff)

lemma dep_rel_deps_of:
  "distinct (map d_ID steps) \<Longrightarrow> (u, x) \<in> dep_rel steps \<longleftrightarrow> x \<in> ids steps \<and> u \<in> set (deps_of steps x)"
  by (auto simp: dep_rel_def ids_def deps_of_step)

lemma finite_dep_rel: "finite (dep_rel steps)"
proof -
  have "dep_rel steps = (\<Union>s \<in> set steps. (\<lambda>u. (u, d_ID s)) ` set (d_DependsOn s))"
    by (auto simp: dep_rel_def)
  then show ?thesis by simp
qed

subsection \<open>The first two loops\<close>

definition registered :: "StepDefinition list \<Rightarrow> graph" where
  "registered steps =
     \<lparr>adjList = map (\<lambda>s. (d_ID s, [])) steps, inDegree = map (\<lambda>s. (d_ID s, 0)) steps,
      stepMap = map (\<lambda>s. (d_ID s, s)) steps\<rparr>"

lemma map_of_steps:
  "map_of (map (\<lambda>s. (d_ID s, f s)) steps) x = map_option f (List.find (\<lambda>s. d_ID s = x) steps)"
  by (induction steps) auto

lemma map_of_steps_None: "map_of (map (\<lambda>s. (d_ID s, f s)) steps) x = None \<longleftrightarrow> x \<notin> ids steps"
  by (auto simp: map_of_steps find_None_iff ids_def)

lemma register_steps_prefix:
  assumes "distinct (map d_ID (pre @ steps))"
  shows "register_steps steps (registered pre) = Inr (registered (pre @ steps))"
  using assms
proof (induction steps arbitrary: pre)
  case (Cons s steps)
  have "d_ID s \<notin> ids pre" using Cons.prems by (auto simp: ids_def)
  then have "map_of (stepMap (registered pre)) (d_ID s) = None"
    by (simp add: registered_def map_of_steps_None)
  moreover have "(registered pre)
      \<lparr>stepMap := gm_set (d_ID s) s (stepMap (registered pre)),
       inDegree := gm_set (d_ID s) 0 (inDegree (registered pre)),
       adjList := gm_set (d_ID s) [] (adjList (registered pre))\<rparr> = registered (pre @ [s])"
    using \<open>d_ID s \<notin> ids pre\<close> by (simp add: registered_def gm_set_new ids_def comp_def)
  ultimately show ?case using Cons.IH [of "pre @ [s]"] Cons.prems by simp
qed simp

lemma register_steps_dup:
  assumes "\<not> distinct (map d_ID (pre @ steps))" "distinct (map d_ID pre)"
  shows "\<exists>i \<in> ids steps. register_steps steps (registered pre) = Inl (duplicate_error i)"
  using assms
proof (induction steps arbitrary: pre)
  case (Cons s steps)
  show ?case
  proof (cases "d_ID s \<in> ids pre")
    case True
    then have "map_of (stepMap (registered pre)) (d_ID s) \<noteq> None"
      by (simp add: registered_def map_of_steps_None)
    then show ?thesis by (simp add: ids_def)
  next
    case False
    then have "map_of (stepMap (registered pre)) (d_ID s) = None"
      by (simp add: registered_def map_of_steps_None)
    moreover have "(registered pre)
        \<lparr>stepMap := gm_set (d_ID s) s (stepMap (registered pre)),
         inDegree := gm_set (d_ID s) 0 (inDegree (registered pre)),
         adjList := gm_set (d_ID s) [] (adjList (registered pre))\<rparr> = registered (pre @ [s])"
      using False by (simp add: registered_def gm_set_new ids_def comp_def)
    moreover have "\<exists>i \<in> ids steps. register_steps steps (registered (pre @ [s])) = Inl (duplicate_error i)"
      using Cons.IH [of "pre @ [s]"] Cons.prems False by (auto simp: ids_def)
    ultimately show ?thesis by (auto simp: ids_def)
  qed
qed simp

lemma empty_registered: "empty_graph = registered []"
  by (simp add: empty_graph_def registered_def)

text \<open>What linking has added to the maps of a graph: a number of units of in-degree for each id, and a
  list of neighbours for each id. Keys and steps stay.\<close>

definition extends_by :: "graph \<Rightarrow> (string \<Rightarrow> nat) \<Rightarrow> (string \<Rightarrow> string list) \<Rightarrow> graph \<Rightarrow> bool" where
  "extends_by g a b g' \<longleftrightarrow>
     stepMap g' = stepMap g \<and> map fst (inDegree g') = map fst (inDegree g) \<and>
     (\<forall>x. sm_int (inDegree g') x = sm_int (inDegree g) x + int (a x)) \<and>
     (\<forall>u. sm_list (adjList g') u = sm_list (adjList g) u @ b u)"

lemma extends_by_refl: "extends_by g (\<lambda>x. 0) (\<lambda>u. []) g"
  by (simp add: extends_by_def)

lemma extends_by_trans:
  "extends_by g a b g' \<Longrightarrow> extends_by g' a' b' g'' \<Longrightarrow>
   extends_by g (\<lambda>x. a x + a' x) (\<lambda>u. b u @ b' u) g''"
  by (simp add: extends_by_def)

lemma add_deps_ok:
  assumes "set deps \<subseteq> dom (map_of (stepMap g))" "d_ID step \<in> set (map fst (inDegree g))"
  shows "\<exists>g'. add_deps step deps g = Inr g' \<and>
    extends_by g (\<lambda>x. if x = d_ID step then length deps else 0)
      (\<lambda>u. replicate (count_list deps u) (d_ID step)) g'"
  using assms
proof (induction deps arbitrary: g)
  case Nil
  then show ?case by (auto simp: extends_by_def)
next
  case (Cons dep deps)
  let ?g = "g\<lparr>adjList := gm_set dep (sm_list (adjList g) dep @ [d_ID step]) (adjList g),
    inDegree := gm_set (d_ID step) (sm_int (inDegree g) (d_ID step) + 1) (inDegree g)\<rparr>"
  have step: "extends_by g (\<lambda>x. if x = d_ID step then 1 else 0)
      (\<lambda>u. if u = dep then [d_ID step] else []) ?g"
    using Cons.prems(2) by (simp add: extends_by_def gm_set_keys_old)
  have "\<exists>g'. add_deps step deps ?g = Inr g' \<and>
    extends_by ?g (\<lambda>x. if x = d_ID step then length deps else 0)
      (\<lambda>u. replicate (count_list deps u) (d_ID step)) g'"
    using Cons.prems by (intro Cons.IH) (auto simp: keys_gm_set simp del: set_map)
  then obtain g' where g': "add_deps step deps ?g = Inr g'"
    "extends_by ?g (\<lambda>x. if x = d_ID step then length deps else 0)
      (\<lambda>u. replicate (count_list deps u) (d_ID step)) g'" by blast
  have "add_deps step (dep # deps) g = Inr g'"
    using Cons.prems(1) g'(1) by auto
  moreover have "extends_by g (\<lambda>x. if x = d_ID step then length (dep # deps) else 0)
      (\<lambda>u. replicate (count_list (dep # deps) u) (d_ID step)) g'"
    using step g'(2) by (auto simp: extends_by_def)
  ultimately show ?case by blast
qed

lemma add_deps_missing:
  assumes "\<not> set deps \<subseteq> dom (map_of (stepMap g))"
  shows "\<exists>dep \<in> set deps. dep \<notin> dom (map_of (stepMap g)) \<and>
    add_deps step deps g = Inl (missing_dep_error (d_ID step) dep)"
  using assms
proof (induction step deps g rule: add_deps.induct)
  case (2 step dep deps g)
  then show ?case
    by (cases "map_of (stepMap g) dep") auto
qed simp

lemma link_steps_ok:
  assumes "\<forall>s \<in> set steps. set (d_DependsOn s) \<subseteq> dom (map_of (stepMap g))"
    and "ids steps \<subseteq> set (map fst (inDegree g))"
  shows "\<exists>g'. link_steps steps g = Inr g' \<and>
    extends_by g (\<lambda>x. sum_list (map (\<lambda>s. if x = d_ID s then length (d_DependsOn s) else 0) steps))
      (\<lambda>u. concat (map (\<lambda>s. replicate (count_list (d_DependsOn s) u) (d_ID s)) steps)) g'"
  using assms
proof (induction steps arbitrary: g)
  case Nil
  then show ?case by (simp add: extends_by_refl)
next
  case (Cons s steps)
  obtain g1 where g1: "add_deps s (d_DependsOn s) g = Inr g1"
    "extends_by g (\<lambda>x. if x = d_ID s then length (d_DependsOn s) else 0)
      (\<lambda>u. replicate (count_list (d_DependsOn s) u) (d_ID s)) g1"
    using add_deps_ok [of "d_DependsOn s" g s] Cons.prems by (auto simp: ids_def)
  then have "stepMap g1 = stepMap g" "map fst (inDegree g1) = map fst (inDegree g)"
    by (auto simp: extends_by_def)
  with Cons.prems obtain g2 where g2: "link_steps steps g1 = Inr g2"
    "extends_by g1 (\<lambda>x. sum_list (map (\<lambda>s. if x = d_ID s then length (d_DependsOn s) else 0) steps))
      (\<lambda>u. concat (map (\<lambda>s. replicate (count_list (d_DependsOn s) u) (d_ID s)) steps)) g2"
    using Cons.IH [of g1] unfolding ids_def by (auto simp del: set_map)
  with g1 extends_by_trans [OF g1(2) g2(2)] show ?case by simp
qed

lemma link_steps_missing:
  assumes "\<not> (\<forall>s \<in> set steps. set (d_DependsOn s) \<subseteq> dom (map_of (stepMap g)))"
    and "ids steps \<subseteq> set (map fst (inDegree g))"
  shows "\<exists>s \<in> set steps. \<exists>dep \<in> set (d_DependsOn s). dep \<notin> dom (map_of (stepMap g)) \<and>
    link_steps steps g = Inl (missing_dep_error (d_ID s) dep)"
  using assms
proof (induction steps arbitrary: g)
  case (Cons s steps)
  show ?case
  proof (cases "set (d_DependsOn s) \<subseteq> dom (map_of (stepMap g))")
    case True
    then obtain g1 where g1: "add_deps s (d_DependsOn s) g = Inr g1"
      "stepMap g1 = stepMap g" "map fst (inDegree g1) = map fst (inDegree g)"
      using add_deps_ok [of "d_DependsOn s" g s] Cons.prems by (auto simp: ids_def extends_by_def)
    with Cons.IH [of g1] Cons.prems True show ?thesis by (auto simp: ids_def simp del: set_map)
  next
    case False
    then show ?thesis using add_deps_missing [of "d_DependsOn s" g s] by auto
  qed
qed simp

text \<open>For distinct ids the two sums of the previous lemma are about one step only.\<close>

lemma sum_deps_of:
  assumes "distinct (map d_ID steps)"
  shows "sum_list (map (\<lambda>s. if x = d_ID s then length (d_DependsOn s) else 0) steps)
    = length (deps_of steps x)"
  using assms
proof (induction steps)
  case (Cons s steps)
  have *: "sum_list (map (\<lambda>r. if d_ID s = d_ID r then length (d_DependsOn r) else 0) steps) = 0"
    using Cons.prems by (intro sum_list_remove_zero) auto
  from Cons * show ?case
    by (cases "x = d_ID s") (auto simp: deps_of_def)
qed (simp add: deps_of_def)

lemma count_deps_of:
  assumes "distinct (map d_ID steps)"
  shows "count_list (concat (map (\<lambda>s. replicate (count_list (d_DependsOn s) u) (d_ID s)) steps)) x
    = count_list (deps_of steps x) u"
  using assms
proof (induction steps)
  case (Cons s steps)
  have *: "count_list (concat (map (\<lambda>s. replicate (count_list (d_DependsOn s) u) (d_ID s)) steps))
      (d_ID s) = 0"
    using Cons.prems by (auto simp: count_list_0_iff)
  have "deps_of (s # steps) x = (if x = d_ID s then d_DependsOn s else deps_of steps x)"
    by (auto simp: deps_of_def)
  moreover have "deps_of steps (d_ID s) = []"
    using Cons.prems by (intro deps_of_other) (auto simp: ids_def)
  ultimately show ?case
    using Cons * by (simp add: count_list_replicate)
qed (simp add: deps_of_def)

text \<open>The graph after the two loops.\<close>

definition linked :: "StepDefinition list \<Rightarrow> graph \<Rightarrow> bool" where
  "linked steps g \<longleftrightarrow>
     stepMap g = map (\<lambda>s. (d_ID s, s)) steps \<and> map fst (inDegree g) = map d_ID steps \<and>
     (\<forall>x. sm_int (inDegree g) x = int (length (deps_of steps x))) \<and>
     (\<forall>u x. count_list (sm_list (adjList g) u) x = count_list (deps_of steps x) u)"

lemma dom_registered: "dom (map_of (stepMap (registered steps))) = ids steps"
  by (force simp: registered_def ids_def dom_map_of_conv_image_fst)

lemma keys_registered: "map fst (inDegree (registered steps)) = map d_ID steps"
  by (simp add: registered_def comp_def)

lemma link_registered:
  assumes "distinct (map d_ID steps)" "deps_closed steps"
  shows "\<exists>g. link_steps steps (registered steps) = Inr g \<and> linked steps g"
proof -
  obtain g where g: "link_steps steps (registered steps) = Inr g"
    "extends_by (registered steps)
      (\<lambda>x. sum_list (map (\<lambda>s. if x = d_ID s then length (d_DependsOn s) else 0) steps))
      (\<lambda>u. concat (map (\<lambda>s. replicate (count_list (d_DependsOn s) u) (d_ID s)) steps)) g"
    using link_steps_ok [of steps "registered steps"] assms(2)
    by (auto simp: dom_registered keys_registered deps_closed_def ids_def simp del: set_map)
  have "sm_int (inDegree (registered steps)) x = 0" for x
    by (simp add: registered_def sm_int_def map_of_steps split: option.splits)
  moreover have "sm_list (adjList (registered steps)) u = []" for u
    by (simp add: registered_def sm_list_def map_of_steps split: option.splits)
  ultimately have "linked steps g"
    using g(2) assms(1) keys_registered [of steps]
    unfolding linked_def extends_by_def
    by (auto simp: sum_deps_of count_deps_of registered_def)
  with g(1) show ?thesis by blast
qed


subsection \<open>The peeling loop\<close>

text \<open>Relaxing a list of neighbours subtracts their multiplicities and queues exactly the ids whose
  in-degree crosses from positive to zero or below.\<close>

lemma relax_spec:
  assumes "relax ns deg nq = (deg', nq')"
  shows "(\<forall>x. sm_int deg' x = sm_int deg x - int (count_list ns x)) \<and>
    (\<exists>new. nq' = nq @ new \<and> distinct new \<and>
      set new = {x. 0 < sm_int deg x \<and> sm_int deg x \<le> int (count_list ns x)})"
  using assms
proof (induction ns deg nq rule: relax.induct)
  case (1 deg nq)
  then show ?case by auto
next
  case (2 a ns deg nq)
  let ?deg = "gm_set a (sm_int deg a - 1) deg"
  let ?nq = "if sm_int ?deg a = 0 then nq @ [a] else nq"
  have eq: "relax ns ?deg ?nq = (deg', nq')" using "2.prems" by (simp add: Let_def)
  from "2.IH" [OF refl] eq obtain new where
    deg': "\<forall>x. sm_int deg' x = sm_int ?deg x - int (count_list ns x)" and
    new: "nq' = ?nq @ new" "distinct new"
      "set new = {x. 0 < sm_int ?deg x \<and> sm_int ?deg x \<le> int (count_list ns x)}"
    by auto
  have 1: "\<forall>x. sm_int deg' x = sm_int deg x - int (count_list (a # ns) x)"
    using deg' by auto
  show ?case
  proof (cases "sm_int deg a = 1")
    case True
    then have "nq' = nq @ (a # new)" "distinct (a # new)" using new by auto
    moreover have "set (a # new) = {x. 0 < sm_int deg x \<and> sm_int deg x \<le> int (count_list (a # ns) x)}"
      using new(3) True by auto
    ultimately show ?thesis using 1 by blast
  next
    case False
    then have "nq' = nq @ new" using new by auto
    moreover have "set new = {x. 0 < sm_int deg x \<and> sm_int deg x \<le> int (count_list (a # ns) x)}"
    proof (rule set_eqI)
      fix x
      have "x \<in> set new \<longleftrightarrow> 0 < sm_int ?deg x \<and> sm_int ?deg x \<le> int (count_list ns x)"
        unfolding new(3) by simp
      also have "\<dots> \<longleftrightarrow> 0 < sm_int deg x \<and> sm_int deg x \<le> int (count_list (a # ns) x)"
        using False by (cases "x = a") auto
      finally show "x \<in> set new \<longleftrightarrow>
          x \<in> {x. 0 < sm_int deg x \<and> sm_int deg x \<le> int (count_list (a # ns) x)}"
        by simp
    qed
    ultimately show ?thesis using 1 new(2) by blast
  qed
qed

lemma relax_append:
  "relax (xs @ ys) deg nq = (let (deg', nq') = relax xs deg nq in relax ys deg' nq')"
  by (induction xs deg nq rule: relax.induct) (auto simp: Let_def)

lemma visit_layer_relax:
  "visit_layer g q deg nq layer n =
     (let (deg', nq') = relax (concat (map (sm_list (adjList g)) q)) deg nq in
      (deg', nq', layer @ map (step_of (stepMap g)) q, n + length q))"
proof (induction g q deg nq layer n rule: visit_layer.induct)
  case (2 g i queue deg nq layer n)
  obtain deg1 nq1 where r: "relax (sm_list (adjList g) i) deg nq = (deg1, nq1)"
    by (cases "relax (sm_list (adjList g) i) deg nq")
  show ?case
    using "2.IH" [OF r [symmetric] refl] by (simp add: r relax_append split_def Let_def)
qed simp

text \<open>The invariant of the loop: with \<open>V\<close> the ids of the finished layers, an in-degree counts the
  dependencies outside \<open>V\<close>, and the queue holds, once each, the ids that are ready.\<close>

definition peel_inv ::
  "StepDefinition list \<Rightarrow> string set \<Rightarrow> (string \<times> int) list \<Rightarrow> string list \<Rightarrow> bool" where
  "peel_inv steps V deg q \<longleftrightarrow>
     V \<subseteq> ids steps \<and> distinct q \<and> set q = ready steps V \<and>
     (\<forall>x. sm_int deg x = int (length (filter (\<lambda>u. u \<notin> V) (deps_of steps x))))
     \<and> (\<forall>x \<in> V. set (deps_of steps x) \<subseteq> V)"

lemma filter_diff_length:
  assumes "distinct q" "set q \<inter> V = {}"
  shows "int (length (filter (\<lambda>u. u \<notin> V) ds)) - int (sum_list (map (\<lambda>u. count_list ds u) q))
    = int (length (filter (\<lambda>u. u \<notin> V \<union> set q) ds))"
proof (induction ds)
  case (Cons d ds)
  have "sum_list (map (\<lambda>u. count_list (d # ds) u) q)
      = sum_list (map (\<lambda>u. count_list ds u) q) + (if d \<in> set q then 1 else 0)"
    using assms(1)
  proof (induction q)
    case (Cons a q)
    then show ?case by (cases "d = a") auto
  qed simp
  with Cons assms(2) show ?case by auto
qed (simp add: sum_list_remove_zero)

lemma peel_inv_step:
  assumes inv: "peel_inv steps V deg q" and g: "linked steps g"
    and v: "visit_layer g q deg [] [] n = (deg', nq, layer, n')"
  shows "peel_inv steps (V \<union> set q) deg' nq \<and> layer = map (step_of (stepMap g)) q \<and> n' = n + length q"
proof -
  let ?ns = "concat (map (sm_list (adjList g)) q)" and ?W = "V \<union> set q"
  have r: "relax ?ns deg [] = (deg', nq)" and out: "layer = map (step_of (stepMap g)) q" "n' = n + length q"
    using v by (auto simp: visit_layer_relax Let_def split: prod.splits)
  have q: "distinct q" "set q = ready steps V" "set q \<inter> V = {}"
    using inv by (auto simp: peel_inv_def ready_def)
  have cnt: "count_list ?ns x = sum_list (map (\<lambda>u. count_list (deps_of steps x) u) q)" for x
    using g by (simp add: count_list_map_concat linked_def)
  have deg': "sm_int deg' x = int (length (filter (\<lambda>u. u \<notin> ?W) (deps_of steps x)))" for x
  proof -
    have "sm_int deg' x = int (length (filter (\<lambda>u. u \<notin> V) (deps_of steps x))) - int (count_list ?ns x)"
      using relax_spec [OF r] inv by (simp add: peel_inv_def)
    then show ?thesis unfolding cnt using filter_diff_length [OF q(1,3)] by simp
  qed
  obtain "distinct nq" and nq: "set nq = {x. 0 < sm_int deg x \<and> sm_int deg x \<le> int (count_list ?ns x)}"
    using relax_spec [OF r] by auto
  have pos: "0 < sm_int deg x \<longleftrightarrow> \<not> set (deps_of steps x) \<subseteq> V" for x
    using inv by (auto simp: peel_inv_def filter_empty_conv)
  have zero: "sm_int deg x \<le> int (count_list ?ns x) \<longleftrightarrow> set (deps_of steps x) \<subseteq> ?W" for x
  proof -
    have "sm_int deg x \<le> int (count_list ?ns x) \<longleftrightarrow> sm_int deg' x \<le> 0"
      using relax_spec [OF r] by auto
    then show ?thesis unfolding deg' by (auto simp: filter_empty_conv)
  qed
  have "set nq = ready steps ?W"
  proof (intro set_eqI iffI)
    fix x assume "x \<in> set nq"
    then have x: "\<not> set (deps_of steps x) \<subseteq> V" "set (deps_of steps x) \<subseteq> ?W"
      using nq pos zero by auto
    then have "x \<in> ids steps" "x \<notin> V" "x \<notin> set q"
      using deps_of_other [of x steps] inv q(2) by (auto simp: peel_inv_def ready_def)
    with x show "x \<in> ready steps ?W" by (auto simp: ready_def)
  next
    fix x assume "x \<in> ready steps ?W"
    then show "x \<in> set nq" using q(2) unfolding nq by (auto simp: ready_def pos zero)
  qed
  moreover have "?W \<subseteq> ids steps" using inv q(2) by (auto simp: peel_inv_def ready_def)
  moreover have "\<forall>x \<in> ?W. set (deps_of steps x) \<subseteq> ?W" using inv q(2) by (auto simp: peel_inv_def ready_def)
  ultimately show ?thesis using \<open>distinct nq\<close> deg' out by (simp add: peel_inv_def)
qed

lemma peel_layers_layered:
  assumes "peel_inv steps V deg q" "linked steps g"
  shows "\<exists>L. layered steps V L \<and> peel_layers g deg q ls n =
    (ls @ map (map (step_of (stepMap g))) L, n + length (concat L))"
  using assms
proof (induction g deg q ls n arbitrary: V rule: peel_layers.induct)
  case (1 g deg q ls n)
  show ?case
  proof (cases "q = []")
    case True
    then show ?thesis using "1.prems"
      by (intro exI [of _ "[]"]) (simp add: peel_layers.simps peel_inv_def)
  next
    case False
    obtain deg' nq layer n' where v: "visit_layer g q deg [] [] n = (deg', nq, layer, n')"
      by (metis prod_cases4)
    note inv = peel_inv_step [OF "1.prems" v]
    then obtain L where L: "layered steps (V \<union> set q) L"
      "peel_layers g deg' nq (ls @ [layer]) n' =
        ((ls @ [layer]) @ map (map (step_of (stepMap g))) L, n' + length (concat L))"
      using "1.IH" [OF False v [symmetric] refl refl] "1.prems"(2) by blast
    have "layered steps V (q # L)"
      using False L(1) "1.prems"(1) by (simp add: peel_inv_def)
    moreover have "peel_layers g deg q ls n =
        (ls @ map (map (step_of (stepMap g))) (q # L), n + length (concat (q # L)))"
      using False v L(2) inv by (subst peel_layers.simps) simp
    ultimately show ?thesis by blast
  qed
qed

subsection \<open>Correctness of the plan\<close>

lemma layered_distinct:
  "layered steps V L \<Longrightarrow> distinct (concat L) \<and> set (concat L) \<subseteq> ids steps - V"
proof (induction L arbitrary: V)
  case (Cons q L)
  then have "distinct (concat L)" "set (concat L) \<subseteq> ids steps - (V \<union> set q)" by auto
  with Cons.prems show ?case by (auto simp: ready_def)
qed simp

lemma layered_end: "layered steps V L \<Longrightarrow> ready steps (V \<union> set (concat L)) = {}"
proof (induction L arbitrary: V)
  case (Cons q L)
  have "layered steps (V \<union> set q) L" using Cons.prems by (metis layered.simps(2))
  from Cons.IH [OF this] show ?case by (simp add: Un_assoc)
qed simp

lemma layered_nth:
  "layered steps V L \<Longrightarrow> i < length L \<Longrightarrow>
   set (L ! i) = ready steps (V \<union> set (concat (take i L))) \<and> L ! i \<noteq> [] \<and> distinct (L ! i)"
proof (induction L arbitrary: V i)
  case (Cons q L)
  then show ?case by (cases i) (auto simp: Un_assoc)
qed simp

lemma layered_unique: "layered steps V L \<Longrightarrow> layered steps V L' \<Longrightarrow> list_all2 (\<lambda>a b. mset a = mset b) L L'"
proof (induction L arbitrary: V L')
  case Nil
  then show ?case by (cases L') auto
next
  case (Cons q L)
  then obtain q' R where "L' = q' # R" by (cases L') auto
  moreover from Cons.prems calculation have "mset q = mset q'"
    by (intro mset_eq_setI) auto
  ultimately show ?case using Cons mset_eq_setD by fastforce
qed

lemma layered_complete:
  assumes d: "distinct (map d_ID steps)" "deps_closed steps" and L: "layered steps {} L"
  shows "set (concat L) = ids steps \<longleftrightarrow> acyclic (dep_rel steps)"
proof
  assume full: "set (concat L) = ids steps"
  define lev where "lev x = (LEAST i. i < length L \<and> x \<in> set (L ! i))" for x
  have lev: "lev x < length L \<and> x \<in> set (L ! lev x)" if "x \<in> ids steps" for x
  proof -
    have "\<exists>q \<in> set L. x \<in> set q" using that full by auto
    then have "\<exists>i. i < length L \<and> x \<in> set (L ! i)" by (metis in_set_conv_nth)
    then show ?thesis unfolding lev_def by (rule LeastI_ex)
  qed
  have "dep_rel steps \<subseteq> measure lev"
  proof (rule subrelI)
    fix u x assume "(u, x) \<in> dep_rel steps"
    then have x: "x \<in> ids steps" "u \<in> set (deps_of steps x)" by (auto simp: dep_rel_deps_of [OF d(1)])
    then have "u \<in> set (concat (take (lev x) L))"
      using layered_nth [OF L, of "lev x"] lev [OF x(1)] by (auto simp: ready_def)
    then obtain q where "q \<in> set (take (lev x) L)" "u \<in> set q" by auto
    moreover have "\<exists>j. j < lev x \<and> q = L ! j" "lev x < length L"
      using calculation(1) lev [OF x(1)] by (auto simp: in_set_conv_nth)
    ultimately obtain j where "j < lev x" "j < length L" "u \<in> set (L ! j)"
      by auto
    then have "lev u \<le> j" unfolding lev_def by (intro Least_le) auto
    with \<open>j < lev x\<close> show "(u, x) \<in> measure lev" by simp
  qed
  then show "acyclic (dep_rel steps)"
    by (meson wf_acyclic wf_measure wf_subset)
next
  assume "acyclic (dep_rel steps)"
  then have wf: "wf (dep_rel steps)" by (intro finite_acyclic_wf finite_dep_rel)
  have sub: "set (concat L) \<subseteq> ids steps" using layered_distinct [OF L] by auto
  show "set (concat L) = ids steps"
  proof (rule ccontr)
    assume "set (concat L) \<noteq> ids steps"
    then obtain y where "y \<in> ids steps - set (concat L)" using sub by blast
    then obtain z where z: "z \<in> ids steps - set (concat L)"
      "\<And>u. (u, z) \<in> dep_rel steps \<Longrightarrow> u \<notin> ids steps - set (concat L)"
      using wfE_min [OF wf] by metis
    then have "set (deps_of steps z) \<subseteq> set (concat L)"
      using deps_of_ids [OF d(2,1), of z] by (auto simp: dep_rel_deps_of [OF d(1)])
    with z have "z \<in> ready steps ({} \<union> set (concat L))" by (auto simp: ready_def)
    then show False using layered_end [OF L] by simp
  qed
qed

definition step_named :: "StepDefinition list \<Rightarrow> string \<Rightarrow> StepDefinition" where
  "step_named steps = step_of (map (\<lambda>s. (d_ID s, s)) steps)"

lemma step_named_id: "distinct (map d_ID steps) \<Longrightarrow> s \<in> set steps \<Longrightarrow> step_named steps (d_ID s) = s"
  by (simp add: step_named_def step_of_def map_of_steps find_id)

lemma step_named_in:
  "distinct (map d_ID steps) \<Longrightarrow> x \<in> ids steps \<Longrightarrow>
   step_named steps x \<in> set steps \<and> d_ID (step_named steps x) = x"
  by (auto simp: ids_def step_named_id)

text \<open>The whole function on inputs that pass the first two loops.\<close>

lemma BuildExecutionPlan_layered:
  assumes ro: "range_order ro" and st: "steps \<noteq> []" "distinct (map d_ID steps)" "deps_closed steps"
  shows "\<exists>L. layered steps {} L \<and> BuildExecutionPlan ro steps =
    (if acyclic (dep_rel steps) then Inr (map (map (step_named steps)) L) else Inl cycle_error)"
proof -
  have reg: "register_steps steps empty_graph = Inr (registered steps)"
    using register_steps_prefix [of "[]" steps] st(2) by (simp add: empty_registered)
  obtain g where g: "link_steps steps (registered steps) = Inr g" "linked steps g"
    using link_registered st(2,3) by blast
  let ?q = "filter (\<lambda>i. sm_int (inDegree g) i = 0) (ro (map fst (inDegree g)))"
  have keys: "set (map fst (inDegree g)) = ids steps" "distinct (map fst (inDegree g))"
    using g(2) st(2) by (simp_all add: linked_def ids_def)
  have deg: "sm_int (inDegree g) x = int (length (deps_of steps x))" for x
    using g(2) by (simp add: linked_def)
  have inv: "peel_inv steps {} (inDegree g) ?q"
    using keys ro by (auto simp: peel_inv_def ready_def deg)
  obtain L where L: "layered steps {} L"
    "peel_layers g (inDegree g) ?q [] 0 = (map (map (step_named steps)) L, length (concat L))"
    using peel_layers_layered [OF inv g(2), of "[]" 0] g(2)
    by (auto simp: linked_def step_named_def)
  have "length (concat L) = card (set (concat L))"
    using layered_distinct [OF L(1)] distinct_card [of "concat L"] by argo
  moreover have "length steps = card (ids steps)"
    using st(2) by (metis distinct_card ids_def length_map)
  moreover have "finite (ids steps)" by (simp add: ids_def)
  ultimately have "length (concat L) = length steps \<longleftrightarrow> set (concat L) = ids steps"
    using layered_distinct [OF L(1)] by (metis Diff_empty card_subset_eq)
  then have "length (concat L) = length steps \<longleftrightarrow> acyclic (dep_rel steps)"
    using layered_complete [OF st(2,3) L(1)] by simp
  then show ?thesis
    using L st(1) g(1) by (intro exI [of _ L]) (simp add: BuildExecutionPlan_def reg)
qed

lemma BuildExecutionPlan_rejects:
  assumes "\<not> (steps \<noteq> [] \<and> distinct (map d_ID steps) \<and> deps_closed steps)"
  shows "steps = [] \<and> BuildExecutionPlan ro steps = Inl empty_workflow_error
    \<or> \<not> distinct (map d_ID steps) \<and>
        (\<exists>i \<in> ids steps. BuildExecutionPlan ro steps = Inl (duplicate_error i))
    \<or> distinct (map d_ID steps) \<and> (\<exists>s \<in> set steps. \<exists>dep \<in> set (d_DependsOn s). dep \<notin> ids steps \<and>
        BuildExecutionPlan ro steps = Inl (missing_dep_error (d_ID s) dep))"
proof -
  consider "steps = []" | "steps \<noteq> []" "\<not> distinct (map d_ID steps)"
    | "steps \<noteq> []" "distinct (map d_ID steps)" "\<not> deps_closed steps"
    using assms by blast
  then show ?thesis
  proof cases
    case 1
    then show ?thesis by (simp add: BuildExecutionPlan_def)
  next
    case 2
    then show ?thesis
      using register_steps_dup [of "[]" steps] by (auto simp: BuildExecutionPlan_def empty_registered)
  next
    case 3
    have "register_steps steps empty_graph = Inr (registered steps)"
      using register_steps_prefix [of "[]" steps] 3(2) by (simp add: empty_registered)
    moreover obtain s dep where "s \<in> set steps" "dep \<in> set (d_DependsOn s)" "dep \<notin> ids steps"
        "link_steps steps (registered steps) = Inl (missing_dep_error (d_ID s) dep)"
      using link_steps_missing [of steps "registered steps"] 3(3)
      unfolding dom_registered keys_registered by (auto simp: deps_closed_def ids_def)
    ultimately have "BuildExecutionPlan ro steps = Inl (missing_dep_error (d_ID s) dep)"
      using 3(1) by (simp add: BuildExecutionPlan_def)
    with 3(2) \<open>s \<in> set steps\<close> \<open>dep \<in> set (d_DependsOn s)\<close> \<open>dep \<notin> ids steps\<close> show ?thesis by blast
  qed
qed

lemma BuildExecutionPlan_early:
  assumes "\<not> (steps \<noteq> [] \<and> distinct (map d_ID steps) \<and> deps_closed steps)"
  shows "BuildExecutionPlan ro steps = BuildExecutionPlan ro' steps"
proof -
  consider "steps = []" | "\<not> distinct (map d_ID steps)"
    | "distinct (map d_ID steps)" "\<not> deps_closed steps"
    using assms by blast
  then show ?thesis
  proof cases
    case 1
    then show ?thesis by (simp add: BuildExecutionPlan_def)
  next
    case 2
    then obtain e where "register_steps steps empty_graph = Inl e"
      using register_steps_dup [of "[]" steps] by (auto simp: empty_registered)
    then show ?thesis by (simp add: BuildExecutionPlan_def)
  next
    case 3
    have "register_steps steps empty_graph = Inr (registered steps)"
      using register_steps_prefix [of "[]" steps] 3(1) by (simp add: empty_registered)
    moreover obtain e where "link_steps steps (registered steps) = Inl e"
      using link_steps_missing [of steps "registered steps"] 3(2)
      unfolding dom_registered keys_registered by (auto simp: deps_closed_def ids_def)
    ultimately show ?thesis by (simp add: BuildExecutionPlan_def)
  qed
qed

lemma BuildExecutionPlan_Inr:
  assumes "range_order ro" "BuildExecutionPlan ro steps = Inr P"
  shows "valid_dag steps \<and> (\<exists>L. layered steps {} L \<and> P = map (map (step_named steps)) L \<and>
    set (concat L) = ids steps)"
proof -
  have st: "steps \<noteq> []" "distinct (map d_ID steps)" "deps_closed steps"
    using BuildExecutionPlan_rejects [of steps ro] assms(2) by auto
  then obtain L where L: "layered steps {} L" "BuildExecutionPlan ro steps =
    (if acyclic (dep_rel steps) then Inr (map (map (step_named steps)) L) else Inl cycle_error)"
    using BuildExecutionPlan_layered [OF assms(1)] by blast
  with st assms(2) layered_complete [OF st(2,3) L(1)] show ?thesis
    by (auto simp: valid_dag_def split: if_splits)
qed

text \<open>The rows of a plan in terms of steps.\<close>

lemma plan_layers:
  assumes "range_order ro" "BuildExecutionPlan ro steps = Inr P"
  obtains L where "layered steps {} L" "P = map (map (step_named steps)) L" "set (concat L) = ids steps"
    "distinct (map d_ID steps)"
  using BuildExecutionPlan_Inr [OF assms] by (auto simp: valid_dag_def)

lemma named_layer:
  assumes "distinct (map d_ID steps)" "set q \<subseteq> ids steps" "s \<in> set (map (step_named steps) q)"
  shows "s \<in> set steps \<and> d_ID s \<in> set q"
  using assms step_named_in by fastforce

lemma named_member:
  "distinct (map d_ID steps) \<Longrightarrow> set q \<subseteq> ids steps \<Longrightarrow> x \<in> set q \<Longrightarrow>
   \<exists>t \<in> set (map (step_named steps) q). d_ID t = x"
  using step_named_in by fastforce

subsection \<open>Properties\<close>

text \<open>C6: \<open>BuildExecutionPlan\<close> succeeds exactly on the non-empty step lists with pairwise distinct ids, whose
  dependencies all name steps of the list and whose dependency relation is acyclic, whatever order
  the Go map is iterated in. In particular the loop returns on every input.\<close>

theorem plan_accepts_iff:
  assumes "range_order ro"
  shows "(\<exists>P. BuildExecutionPlan ro steps = Inr P) \<longleftrightarrow> valid_dag steps"
proof
  assume "\<exists>P. BuildExecutionPlan ro steps = Inr P"
  then show "valid_dag steps" using BuildExecutionPlan_Inr [OF assms] by blast
next
  assume "valid_dag steps"
  then show "\<exists>P. BuildExecutionPlan ro steps = Inr P"
    using BuildExecutionPlan_layered [OF assms, of steps] by (auto simp: valid_dag_def)
qed

definition diamond :: "StepDefinition list" where
  "diamond =
     [zero_step\<lparr>d_ID := ''D'', d_DependsOn := [''B'', ''C'', ''B'']\<rparr>, zero_step\<lparr>d_ID := ''A''\<rparr>,
      zero_step\<lparr>d_ID := ''B'', d_DependsOn := [''A'']\<rparr>,
      zero_step\<lparr>d_ID := ''C'', d_DependsOn := [''A'']\<rparr>]"

lemma diamond_plan:
  "BuildExecutionPlan rev diamond =
     Inr [[zero_step\<lparr>d_ID := ''A''\<rparr>],
       [zero_step\<lparr>d_ID := ''B'', d_DependsOn := [''A'']\<rparr>, zero_step\<lparr>d_ID := ''C'', d_DependsOn := [''A'']\<rparr>],
       [zero_step\<lparr>d_ID := ''D'', d_DependsOn := [''B'', ''C'', ''B'']\<rparr>]]"
  by code_simp

theorem plan_accepts_iff_witness:
  "range_order (rev :: string list \<Rightarrow> string list) \<and> valid_dag diamond"
proof -
  have "range_order (rev :: string list \<Rightarrow> string list)" by simp
  with plan_accepts_iff [OF this, of diamond] diamond_plan show ?thesis by auto
qed

text \<open>C19: A plan is a partition of the workflow: every step occurs in exactly one layer, exactly once, and no
  layer is empty.\<close>

theorem plan_partition:
  assumes "range_order ro" "BuildExecutionPlan ro steps = Inr P"
  shows "mset (concat P) = mset steps \<and> [] \<notin> set P"
proof -
  obtain L where L: "layered steps {} L" "P = map (map (step_named steps)) L"
    "set (concat L) = ids steps" "distinct (map d_ID steps)" using plan_layers [OF assms] .
  have "mset (concat L) = mset (map d_ID steps)"
    using layered_distinct [OF L(1)] L(3,4) by (intro mset_eq_setI) (auto simp: ids_def)
  then have "mset (map (step_named steps) (concat L)) = mset (map (step_named steps) (map d_ID steps))"
    by (simp only: mset_map)
  also have "map (step_named steps) (map d_ID steps) = steps"
    using step_named_id [OF L(4)] by (simp add: map_idI)
  finally have "mset (concat P) = mset steps" by (simp add: L(2) map_concat)
  moreover have "[] \<notin> set P"
    using layered_nth [OF L(1)] unfolding L(2) by (auto simp: in_set_conv_nth)
  ultimately show ?thesis ..
qed

theorem plan_partition_witness:
  "mset (concat (projr (BuildExecutionPlan rev diamond))) = mset diamond"
  using plan_partition [OF _ diamond_plan] by (simp add: diamond_plan)

text \<open>C18: Dependencies run first: every dependency of a step in layer \<open>i\<close> is the id of a step in an earlier
  layer, so when the engine runs layer after layer, all dependencies of a step have ended.\<close>

theorem plan_dependencies_first:
  assumes "range_order ro" "BuildExecutionPlan ro steps = Inr P"
    and "i < length P" "s \<in> set (P ! i)" "dep \<in> set (d_DependsOn s)"
  shows "\<exists>j < i. \<exists>t \<in> set (P ! j). d_ID t = dep"
proof -
  obtain L where L: "layered steps {} L" "P = map (map (step_named steps)) L"
    "set (concat L) = ids steps" "distinct (map d_ID steps)" using plan_layers [OF assms(1,2)] .
  have sub: "set (L ! j) \<subseteq> ids steps" if "j < length L" for j
    using layered_nth [OF L(1) that] by (auto simp: ready_def)
  have i: "i < length L" using assms(3) L(2) by simp
  then have s: "s \<in> set steps" "d_ID s \<in> set (L ! i)"
    using named_layer [OF L(4) sub [OF i]] assms(4) L(2) by auto
  then have "dep \<in> set (concat (take i L))"
    using layered_nth [OF L(1) i] assms(5) deps_of_step [OF L(4) s(1)] by (auto simp: ready_def)
  then obtain q where "q \<in> set (take i L)" "dep \<in> set q" by auto
  moreover have "\<exists>j. j < i \<and> q = L ! j" using calculation(1) i by (auto simp: in_set_conv_nth)
  ultimately obtain j where "j < i" "dep \<in> set (L ! j)" by auto
  moreover obtain t where "t \<in> set (map (step_named steps) (L ! j))" "d_ID t = dep"
    using named_member [OF L(4) sub, of j dep] calculation i by auto
  moreover have "P ! j = map (step_named steps) (L ! j)" using L(2) i calculation(1) by simp
  ultimately show ?thesis by metis
qed

theorem plan_dependencies_first_witness:
  "\<exists>j < 2. \<exists>t \<in> set (projr (BuildExecutionPlan rev diamond) ! j). d_ID t = ''C''"
  using plan_dependencies_first [OF _ diamond_plan, of 2
      "zero_step\<lparr>d_ID := ''D'', d_DependsOn := [''B'', ''C'', ''B'']\<rparr>" "''C''"]
  by (simp add: diamond_plan)

text \<open>C26: The iteration order of the Go map is not observable beyond the order inside a layer: for any two
  orders the function fails with the same error or gives the same layers up to reordering each.\<close>

theorem plan_order_independent:
  assumes "range_order ro" "range_order ro'"
  shows "rel_sum (=) (list_all2 (\<lambda>a b. mset a = mset b))
    (BuildExecutionPlan ro steps) (BuildExecutionPlan ro' steps)"
proof (cases "steps \<noteq> [] \<and> distinct (map d_ID steps) \<and> deps_closed steps")
  case True
  then obtain L L' where "layered steps {} L" "layered steps {} L'"
    and "BuildExecutionPlan ro steps =
      (if acyclic (dep_rel steps) then Inr (map (map (step_named steps)) L) else Inl cycle_error)"
    and "BuildExecutionPlan ro' steps =
      (if acyclic (dep_rel steps) then Inr (map (map (step_named steps)) L') else Inl cycle_error)"
    using BuildExecutionPlan_layered assms by meson
  moreover have "list_all2 (\<lambda>a b. mset a = mset b)
      (map (map (step_named steps)) L) (map (map (step_named steps)) L')"
    using layered_unique [OF calculation(1,2)]
    by (auto simp: list_all2_map1 list_all2_map2 elim!: list_all2_mono)
  ultimately show ?thesis by simp
next
  case False
  then show ?thesis using BuildExecutionPlan_early [OF False, of ro ro']
    BuildExecutionPlan_rejects [OF False, of ro] by auto
qed

theorem plan_order_independent_witness:
  "rel_sum (=) (list_all2 (\<lambda>a b. mset a = mset b))
    (BuildExecutionPlan rev diamond) (BuildExecutionPlan id diamond)"
  by (rule plan_order_independent) simp_all

text \<open>Every rejection names its reason (an empty workflow, a repeated id, a dependency outside the
  workflow, or a cycle when there is neither), and reaches an HTTP client as status 500 rather than as
  the 422 of a validation error, because \<open>NewError\<close> leaves the type of a validation error unset.\<close>

lemma plan_rejection:
  assumes "range_order ro" "BuildExecutionPlan ro steps = Inl e"
  shows "http_status e = 500 \<and>
    (steps = [] \<and> e = empty_workflow_error
     \<or> \<not> distinct (map d_ID steps) \<and> (\<exists>i \<in> ids steps. e = duplicate_error i)
     \<or> distinct (map d_ID steps) \<and> \<not> deps_closed steps \<and>
         (\<exists>s \<in> set steps. \<exists>dep \<in> set (d_DependsOn s). dep \<notin> ids steps \<and> e = missing_dep_error (d_ID s) dep)
     \<or> distinct (map d_ID steps) \<and> deps_closed steps \<and> \<not> acyclic (dep_rel steps) \<and> e = cycle_error)"
proof -
  have st: "http_status empty_workflow_error = 500" "http_status (duplicate_error i) = 500"
    "http_status (missing_dep_error i d) = 500" "http_status cycle_error = 500" for i d
    by (simp_all add: http_status_NewError empty_workflow_error_def duplicate_error_def
        missing_dep_error_def cycle_error_def)
  show ?thesis
  proof (cases "steps \<noteq> [] \<and> distinct (map d_ID steps) \<and> deps_closed steps")
    case True
    then show ?thesis
      using BuildExecutionPlan_layered [OF assms(1), of steps] assms(2) st
      by (auto split: if_splits)
  next
    case False
    then show ?thesis
      using BuildExecutionPlan_rejects [OF False, of ro] assms(2) st
      by (fastforce simp: deps_closed_def)
  qed
qed

end
