(* ===== verification/Database.thy ===== *)
theory Database imports Model begin

text \<open>
  The SQL statements the repositories build and the PostgreSQL behaviour they rely on:
  the five tables, \<open>SELECT\<close>, \<open>INSERT\<close> and \<open>UPDATE\<close> on them, constraint violations, and the
  transactions of \<open>pkg/postgres/unit_of_work.go\<close>.

  A table is the list of its rows. Column values are typed (\<open>sqlval\<close>), a \<open>map[string]any\<close> of filters or
  assignments is the association list of its entries. The columns and the \<open>CHECK\<close> lists of the two
  execution tables are read from a \<open>schema\<close>: \<open>migrated_schema\<close> is the one of \<open>migrations/\<close>,
  \<open>struct_schema\<close> the one the Go structs and status constants ask for.

  A statement can fail for reasons outside the program (network, cancelled context, full disk): the
  store carries the list of such outcomes, one consumed per statement, and a failed statement has no
  effect. In an open transaction any failed statement aborts the transaction.
\<close>

datatype sqlval =
    TextV string
  | NumV int
  | FlagV bool
  | TimeV "time option"
  | NowE
  | JsonV "any option"

type_synonym colmap = "(string \<times> sqlval) list"

record database =
  executions :: "Execution list"
  step_executions :: "StepExecution list"
  workflows :: "Workflow list"
  tenants :: "Tenant list"
  users :: "User list"

text \<open>\<open>sc_nil_json\<close> is what a nil Go map becomes in a \<open>JSONB\<close> parameter: SQL \<open>NULL\<close> (\<open>None\<close>) or JSON
  \<open>null\<close>; the driver decides.\<close>

record schema =
  sc_execution_cols :: "string list"
  sc_step_cols :: "string list"
  sc_execution_statuses :: "string list"
  sc_step_statuses :: "string list"
  sc_nil_json :: "any option"

definition migrated_schema :: schema where
  "migrated_schema =
     \<lparr>sc_execution_cols = [''id'', ''tenant_id'', ''workflow_id'', ''status'', ''trigger_type'', ''version'',
        ''started_at'', ''completed_at'', ''created_at''],
      sc_step_cols = [''id'', ''tenant_id'', ''execution_id'', ''step_id'', ''action'', ''status'',
        ''retry_count'', ''error_log'', ''started_at'', ''completed_at''],
      sc_execution_statuses = [''PENDING'', ''RUNNING'', ''SUCCESS'', ''FAILED'', ''TIMEOUT''],
      sc_step_statuses = [''PENDING'', ''RUNNING'', ''SUCCESS'', ''FAILED''],
      sc_nil_json = None\<rparr>"

definition struct_schema :: schema where
  "struct_schema =
     \<lparr>sc_execution_cols = execution_columns,
      sc_step_cols = step_execution_columns @ [''updated_at''],
      sc_execution_statuses = execution_statuses,
      sc_step_statuses = execution_statuses,
      sc_nil_json = None\<rparr>"

text \<open>
  What one session sees: the tables, the tables at the start of its open transaction, whether that
  transaction has been aborted by an error, the ids of rows locked by other sessions, the outcomes of
  the coming statements, the clock (also Go's \<open>time.Now()\<close>) and the supply of fresh UUIDs.
\<close>

record store =
  db :: database
  snap :: "database option"
  aborted :: bool
  locked :: "string list"
  faults :: "err option list"
  clock :: time
  uuids :: "string list"
  sch :: schema

subsection \<open>Tables\<close>

text \<open>How one table is described: its columns, reading and assigning a column of a row (at clock time
  \<open>now\<close>), the \<open>CHECK\<close> and length constraints of a row, and the uniqueness constraints.\<close>

record 'r tab =
  tb_cols :: "string list"
  tb_get :: "string \<Rightarrow> 'r \<Rightarrow> sqlval option"
  tb_put :: "time \<Rightarrow> string \<Rightarrow> sqlval \<Rightarrow> 'r \<Rightarrow> err + 'r"
  tb_check :: "'r \<Rightarrow> err option"
  tb_clash :: "'r \<Rightarrow> 'r \<Rightarrow> bool"

definition undefined_column :: "string \<Rightarrow> err" where
  "undefined_column c = PgError ''42703'' (''column '' @ c @ '' does not exist'')"

definition type_mismatch :: "string \<Rightarrow> err" where
  "type_mismatch c = PgError ''42804'' (''column '' @ c @ '' is of another type'')"

definition out_of_range :: "string \<Rightarrow> err" where
  "out_of_range c = PgError ''22003'' ''integer out of range''"

definition check_violation :: "string \<Rightarrow> err" where
  "check_violation c = PgError ''23514'' (''violates check constraint on '' @ c)"

definition too_long :: "string \<Rightarrow> err" where
  "too_long c = PgError ''22001'' ''value too long for type character varying''"

definition unique_violation :: err where
  "unique_violation = PgError ''23505'' ''duplicate key value violates unique constraint''"

definition foreign_key_violation :: "string \<Rightarrow> err" where
  "foreign_key_violation c = PgError ''23503'' (''violates foreign key constraint on '' @ c)"

definition missing_column :: "'r tab \<Rightarrow> string list \<Rightarrow> string option" where
  "missing_column t cols = List.find (\<lambda>c. c \<notin> set (tb_cols t)) cols"

text \<open>A row satisfies \<open>squirrel.Eq\<close> conditions when every named column has the given value.\<close>

definition row_eq :: "'r tab \<Rightarrow> colmap \<Rightarrow> 'r \<Rightarrow> bool" where
  "row_eq t conds r = (\<forall>(c, v) \<in> set conds. tb_get t c r = Some v)"

definition select_rows ::
    "'r tab \<Rightarrow> string list \<Rightarrow> string list \<Rightarrow> ('r \<Rightarrow> bool) \<Rightarrow> 'r list \<Rightarrow> err + 'r list" where
  "select_rows t cols condcols p rows =
     (case missing_column t (cols @ condcols) of
        Some c \<Rightarrow> Inl (undefined_column c)
      | None \<Rightarrow> Inr (filter p rows))"

fun put_cols :: "'r tab \<Rightarrow> time \<Rightarrow> colmap \<Rightarrow> 'r \<Rightarrow> err + 'r" where
  "put_cols t now [] r = Inr r"
| "put_cols t now ((c, v) # cvs) r =
     (case tb_put t now c v r of Inl e \<Rightarrow> Inl e | Inr r' \<Rightarrow> put_cols t now cvs r')"

definition put_row :: "'r tab \<Rightarrow> time \<Rightarrow> colmap \<Rightarrow> 'r \<Rightarrow> err + 'r" where
  "put_row t now cvs r =
     (case put_cols t now cvs r of
        Inl e \<Rightarrow> Inl e
      | Inr r' \<Rightarrow> (case tb_check t r' of Some e \<Rightarrow> Inl e | None \<Rightarrow> Inr r'))"

fun put_rows :: "'r tab \<Rightarrow> time \<Rightarrow> colmap \<Rightarrow> ('r \<Rightarrow> bool) \<Rightarrow> 'r list \<Rightarrow> err + 'r list" where
  "put_rows t now cvs p [] = Inr []"
| "put_rows t now cvs p (r # rs) =
     (case (if p r then put_row t now cvs r else Inr r) of
        Inl e \<Rightarrow> Inl e
      | Inr r' \<Rightarrow> (case put_rows t now cvs p rs of Inl e \<Rightarrow> Inl e | Inr rs' \<Rightarrow> Inr (r' # rs')))"

fun has_clash :: "('r \<Rightarrow> 'r \<Rightarrow> bool) \<Rightarrow> 'r list \<Rightarrow> bool" where
  "has_clash clash [] = False"
| "has_clash clash (r # rs) = (list_ex (clash r) rs \<or> has_clash clash rs)"

text \<open>\<open>UPDATE\<close> gives the number of rows it matched and the new table.\<close>

definition update_rows ::
    "'r tab \<Rightarrow> time \<Rightarrow> colmap \<Rightarrow> string list \<Rightarrow> ('r \<Rightarrow> bool) \<Rightarrow> 'r list \<Rightarrow> err + nat \<times> 'r list" where
  "update_rows t now cvs condcols p rows =
     (case missing_column t (map fst cvs @ condcols) of
        Some c \<Rightarrow> Inl (undefined_column c)
      | None \<Rightarrow>
          (case put_rows t now cvs p rows of
             Inl e \<Rightarrow> Inl e
           | Inr rows' \<Rightarrow>
               (if count_rows p rows \<noteq> 0 \<and> has_clash (tb_clash t) rows' then Inl unique_violation
                else Inr (count_rows p rows, rows'))))"

text \<open>\<open>INSERT\<close> of one row; \<open>fk\<close> is the result of the foreign-key checks.\<close>

definition insert_row ::
    "'r tab \<Rightarrow> string list \<Rightarrow> err option \<Rightarrow> 'r \<Rightarrow> 'r list \<Rightarrow> err + nat \<times> 'r list" where
  "insert_row t cols fk r rows =
     (case missing_column t cols of
        Some c \<Rightarrow> Inl (undefined_column c)
      | None \<Rightarrow>
          (case tb_check t r of
             Some e \<Rightarrow> Inl e
           | None \<Rightarrow>
               (if list_ex (\<lambda>x. tb_clash t x r) rows then Inl unique_violation
                else case fk of Some e \<Rightarrow> Inl e | None \<Rightarrow> Inr (1, rows @ [r]))))"

text \<open>\<open>ORDER BY key DESC LIMIT limit OFFSET offset\<close>; rows with equal keys stay in storage order.\<close>

definition page_rows :: "('r \<Rightarrow> int) \<Rightarrow> nat \<Rightarrow> nat \<Rightarrow> 'r list \<Rightarrow> 'r list" where
  "page_rows key limit offset rows = take limit (drop offset (sort_key key rows))"

text \<open>\<open>ILIKE\<close>: \<open>%\<close> matches any text, \<open>_\<close> one character, a backslash quotes, and letter case is ignored.\<close>

fun like_match :: "string \<Rightarrow> string \<Rightarrow> bool" where
  "like_match [] s = (s = [])"
| "like_match (p # ps) [] = (p = CHR ''%'' \<and> like_match ps [])"
| "like_match (p # ps) (c # s) =
     (if p = CHR ''%'' then like_match ps (c # s) \<or> like_match (p # ps) s
      else if p = CHR ''_'' then like_match ps s
      else if p = CHR 0x5C \<and> ps \<noteq> [] then hd ps = c \<and> like_match (tl ps) s
      else p = c \<and> like_match ps s)"

definition ilike :: "string \<Rightarrow> string \<Rightarrow> bool" where
  "ilike pattern s = like_match (map lower_char pattern) (map lower_char s)"

text \<open>The conditions of the \<open>List\<close> methods: \<open>squirrel.Eq\<close> for the named keys, \<open>ILIKE %v%\<close> for the others
  (\<open>v\<close> is always a string in the callers).\<close>

definition list_cond :: "'r tab \<Rightarrow> string list \<Rightarrow> string \<times> sqlval \<Rightarrow> 'r \<Rightarrow> bool" where
  "list_cond t eqs cv r =
     (if fst cv \<in> set eqs then tb_get t (fst cv) r = Some (snd cv)
      else case (snd cv, tb_get t (fst cv) r) of
             (TextV v, Some (TextV x)) \<Rightarrow> ilike (CHR ''%'' # v @ ''%'') x
           | _ \<Rightarrow> False)"

subsection \<open>The table descriptions\<close>

definition int4 :: "int \<Rightarrow> bool" where
  "int4 n \<longleftrightarrow> - (2 ^ 31) \<le> n \<and> n < 2 ^ 31"

definition time_of :: "time \<Rightarrow> sqlval \<Rightarrow> time option option" where
  "time_of now v = (case v of TimeV t \<Rightarrow> Some t | NowE \<Rightarrow> Some (Some now) | _ \<Rightarrow> None)"

definition put_text :: "string \<Rightarrow> sqlval \<Rightarrow> (string \<Rightarrow> 'r) \<Rightarrow> err + 'r" where
  "put_text c v k = (case v of TextV s \<Rightarrow> Inr (k s) | _ \<Rightarrow> Inl (type_mismatch c))"

definition put_flag :: "string \<Rightarrow> sqlval \<Rightarrow> (bool \<Rightarrow> 'r) \<Rightarrow> err + 'r" where
  "put_flag c v k = (case v of FlagV b \<Rightarrow> Inr (k b) | _ \<Rightarrow> Inl (type_mismatch c))"

definition put_int :: "string \<Rightarrow> sqlval \<Rightarrow> (int \<Rightarrow> 'r) \<Rightarrow> err + 'r" where
  "put_int c v k =
     (case v of NumV n \<Rightarrow> (if int4 n then Inr (k n) else Inl (out_of_range c))
      | _ \<Rightarrow> Inl (type_mismatch c))"

definition put_time :: "time \<Rightarrow> string \<Rightarrow> sqlval \<Rightarrow> (time option \<Rightarrow> 'r) \<Rightarrow> err + 'r" where
  "put_time now c v k = (case time_of now v of Some t \<Rightarrow> Inr (k t) | None \<Rightarrow> Inl (type_mismatch c))"

definition put_moment :: "time \<Rightarrow> string \<Rightarrow> sqlval \<Rightarrow> (time \<Rightarrow> 'r) \<Rightarrow> err + 'r" where
  "put_moment now c v k =
     (case time_of now v of Some (Some t) \<Rightarrow> Inr (k t)
      | Some None \<Rightarrow> Inl (PgError ''23502'' ''null value violates not-null constraint'')
      | None \<Rightarrow> Inl (type_mismatch c))"

definition execution_get :: "string \<Rightarrow> Execution \<Rightarrow> sqlval option" where
  "execution_get c r =
     (if c = ''id'' then Some (TextV (e_ID r))
      else if c = ''tenant_id'' then Some (TextV (e_TenantID r))
      else if c = ''workflow_id'' then Some (TextV (e_WorkflowID r))
      else if c = ''status'' then Some (TextV (e_Status r))
      else if c = ''trigger_type'' then Some (TextV (e_TriggerType r))
      else if c = ''version'' then Some (NumV (e_Version r))
      else None)"

text \<open>A column that the database may have and the Go struct does not (\<open>error_message\<close> here) takes any
  value; nothing in the program reads it. No caller assigns the columns that are refused.\<close>

definition execution_put :: "time \<Rightarrow> string \<Rightarrow> sqlval \<Rightarrow> Execution \<Rightarrow> err + Execution" where
  "execution_put now c v r =
     (if c = ''status'' then put_text c v (\<lambda>s. r\<lparr>e_Status := s\<rparr>)
      else if c = ''version'' then put_int c v (\<lambda>n. r\<lparr>e_Version := n\<rparr>)
      else if c = ''started_at'' then put_time now c v (\<lambda>t. r\<lparr>e_StartedAt := t\<rparr>)
      else if c = ''completed_at'' then put_time now c v (\<lambda>t. r\<lparr>e_CompletedAt := t\<rparr>)
      else if c = ''updated_at'' then put_moment now c v (\<lambda>t. r\<lparr>e_UpdatedAt := t\<rparr>)
      else if c \<in> {''id'', ''tenant_id'', ''workflow_id'', ''trigger_type'', ''created_at''}
        then Inl (type_mismatch c)
      else Inr r)"

definition execution_table :: "schema \<Rightarrow> Execution tab" where
  "execution_table sc =
     \<lparr>tb_cols = sc_execution_cols sc, tb_get = execution_get, tb_put = execution_put,
      tb_check = (\<lambda>r.
        if e_Status r \<notin> set (sc_execution_statuses sc) then Some (check_violation ''status'')
        else if e_TriggerType r \<notin> {''MANUAL'', ''CRON'', ''WEBHOOK''} then Some (check_violation ''trigger_type'')
        else if \<not> int4 (e_Version r) then Some (out_of_range ''version'')
        else None),
      tb_clash = (\<lambda>a b. e_ID a = e_ID b)\<rparr>"

definition step_get :: "string \<Rightarrow> StepExecution \<Rightarrow> sqlval option" where
  "step_get c r =
     (if c = ''id'' then Some (TextV (s_ID r))
      else if c = ''tenant_id'' then Some (TextV (s_TenantID r))
      else if c = ''execution_id'' then Some (TextV (s_ExecutionID r))
      else if c = ''step_id'' then Some (TextV (s_StepID r))
      else if c = ''action'' then Some (TextV (s_Action r))
      else if c = ''status'' then Some (TextV (s_Status r))
      else if c = ''version'' then Some (NumV (s_Version r))
      else if c = ''retry_count'' then Some (NumV (s_RetryCount r))
      else None)"

definition step_put :: "time \<Rightarrow> string \<Rightarrow> sqlval \<Rightarrow> StepExecution \<Rightarrow> err + StepExecution" where
  "step_put now c v r =
     (if c = ''status'' then put_text c v (\<lambda>s. r\<lparr>s_Status := s\<rparr>)
      else if c = ''version'' then put_int c v (\<lambda>n. r\<lparr>s_Version := n\<rparr>)
      else if c = ''retry_count'' then put_int c v (\<lambda>n. r\<lparr>s_RetryCount := n\<rparr>)
      else if c = ''error_log'' then put_text c v (\<lambda>s. r\<lparr>s_ErrorLog := s\<rparr>)
      else if c = ''output'' then
        (case v of JsonV j \<Rightarrow> Inr (r\<lparr>s_Output := j\<rparr>) | _ \<Rightarrow> Inl (type_mismatch c))
      else if c = ''started_at'' then put_time now c v (\<lambda>t. r\<lparr>s_StartedAt := t\<rparr>)
      else if c = ''completed_at'' then put_time now c v (\<lambda>t. r\<lparr>s_CompletedAt := t\<rparr>)
      else if c \<in> {''id'', ''tenant_id'', ''execution_id'', ''step_id'', ''action''}
        then Inl (type_mismatch c)
      else Inr r)"

definition step_table :: "schema \<Rightarrow> StepExecution tab" where
  "step_table sc =
     \<lparr>tb_cols = sc_step_cols sc, tb_get = step_get, tb_put = step_put,
      tb_check = (\<lambda>r.
        if s_Status r \<notin> set (sc_step_statuses sc) then Some (check_violation ''status'')
        else if 100 < length (s_StepID r) then Some (too_long ''step_id'')
        else if 50 < length (s_Action r) then Some (too_long ''action'')
        else if \<not> int4 (s_Version r) then Some (out_of_range ''version'')
        else if \<not> int4 (s_RetryCount r) then Some (out_of_range ''retry_count'')
        else None),
      tb_clash = (\<lambda>a b. s_ID a = s_ID b)\<rparr>"
definition workflow_columns :: "string list" where
  "workflow_columns =
     [''id'', ''tenant_id'', ''name'', ''description'', ''dag_definition'', ''version'',
      ''is_current'', ''is_active'', ''created_at'', ''updated_at'']"

definition workflow_get :: "string \<Rightarrow> Workflow \<Rightarrow> sqlval option" where
  "workflow_get c r =
     (if c = ''id'' then Some (TextV (w_ID r))
      else if c = ''tenant_id'' then Some (TextV (w_TenantID r))
      else if c = ''name'' then Some (TextV (w_Name r))
      else if c = ''description'' then Some (TextV (w_Description r))
      else if c = ''version'' then Some (NumV (w_Version r))
      else if c = ''is_current'' then Some (FlagV (w_IsCurrent r))
      else if c = ''is_active'' then Some (FlagV (w_IsActive r))
      else None)"

definition workflow_put :: "time \<Rightarrow> string \<Rightarrow> sqlval \<Rightarrow> Workflow \<Rightarrow> err + Workflow" where
  "workflow_put now c v r =
     (if c = ''name'' then put_text c v (\<lambda>s. r\<lparr>w_Name := s\<rparr>)
      else if c = ''description'' then put_text c v (\<lambda>s. r\<lparr>w_Description := s\<rparr>)
      else if c = ''dag_definition'' then
        (case v of JsonV (Some j) \<Rightarrow> Inr (r\<lparr>w_DAGDefinition := Some j\<rparr>) | _ \<Rightarrow> Inl (type_mismatch c))
      else if c = ''version'' then put_int c v (\<lambda>n. r\<lparr>w_Version := n\<rparr>)
      else if c = ''is_current'' then put_flag c v (\<lambda>b. r\<lparr>w_IsCurrent := b\<rparr>)
      else if c = ''is_active'' then put_flag c v (\<lambda>b. r\<lparr>w_IsActive := b\<rparr>)
      else if c = ''updated_at'' then put_time now c v (\<lambda>t. r\<lparr>w_UpdatedAt := t\<rparr>)
      else Inl (type_mismatch c))"

text \<open>Two rows of \<open>workflows\<close> may not share an id, a (tenant, name, version) or, by the partial unique
  index \<open>idx_workflows_one_current\<close>, a (tenant, name) while both are current.\<close>

definition workflow_clash :: "Workflow \<Rightarrow> Workflow \<Rightarrow> bool" where
  "workflow_clash a b \<longleftrightarrow>
     w_ID a = w_ID b
     \<or> w_TenantID a = w_TenantID b \<and> w_Name a = w_Name b
         \<and> (w_Version a = w_Version b \<or> w_IsCurrent a \<and> w_IsCurrent b)"

definition workflow_table :: "Workflow tab" where
  "workflow_table =
     \<lparr>tb_cols = workflow_columns, tb_get = workflow_get, tb_put = workflow_put,
      tb_check = (\<lambda>r.
        if 255 < length (w_Name r) then Some (too_long ''name'')
        else if \<not> int4 (w_Version r) then Some (out_of_range ''version'')
        else if w_DAGDefinition r = None then Some (PgError ''22P02'' ''invalid input syntax for type json'')
        else None),
      tb_clash = workflow_clash\<rparr>"

subsection \<open>Statements\<close>

text \<open>A read gives a value, a write the number of affected rows and the new tables. \<open>getDB\<close> of every repository
  sends a statement to the open transaction if its context carries one; here both act on the session.\<close>

definition run_stmt :: "(schema \<Rightarrow> time \<Rightarrow> database \<Rightarrow> err + 'a \<times> database) \<Rightarrow> store \<Rightarrow> (err + 'a) \<times> store" where
  "run_stmt f \<sigma> =
     (let \<sigma>' = \<sigma>\<lparr>faults := tl (faults \<sigma>)\<rparr>;
          abort = aborted \<sigma> \<or> snap \<sigma> \<noteq> None in
      case faults \<sigma> of
        Some e # fs \<Rightarrow> (Inl e, \<sigma>'\<lparr>aborted := abort\<rparr>)
      | _ \<Rightarrow>
          (if aborted \<sigma> then (Inl (PgError ''25P02'' ''current transaction is aborted''), \<sigma>')
           else case f (sch \<sigma>) (clock \<sigma>) (db \<sigma>) of
                  Inl e \<Rightarrow> (Inl e, \<sigma>'\<lparr>aborted := abort\<rparr>)
                | Inr (x, d) \<Rightarrow> (Inr x, \<sigma>'\<lparr>db := d\<rparr>)))"

definition query :: "(schema \<Rightarrow> database \<Rightarrow> err + 'a) \<Rightarrow> store \<Rightarrow> (err + 'a) \<times> store" where
  "query f = run_stmt (\<lambda>sc now d. case f sc d of Inl e \<Rightarrow> Inl e | Inr x \<Rightarrow> Inr (x, d))"

text \<open>How a row count or a query result is turned into the error a repository method returns, and
  \<open>pgx.CollectOneRow\<close>, which reads the first row and ignores the rest.\<close>

definition db_result :: "(err + 'a) \<times> store \<Rightarrow> (err + 'a) \<times> store" where
  "db_result r = (case r of (Inl e, \<sigma>) \<Rightarrow> (Inl (DbError e), \<sigma>) | (Inr x, \<sigma>) \<Rightarrow> (Inr x, \<sigma>))"

definition affected :: "err \<Rightarrow> (err + nat) \<times> store \<Rightarrow> err option \<times> store" where
  "affected none r =
     (case r of
        (Inl e, \<sigma>) \<Rightarrow> (Some (DbError e), \<sigma>)
      | (Inr n, \<sigma>) \<Rightarrow> (if n = 0 then (Some none, \<sigma>) else (None, \<sigma>)))"

definition collect_one :: "(err + 'a list) \<times> store \<Rightarrow> (err + 'a) \<times> store" where
  "collect_one r =
     (case r of
        (Inl e, \<sigma>) \<Rightarrow> (Inl e, \<sigma>)
      | (Inr [], \<sigma>) \<Rightarrow> (Inl ErrNoRows, \<sigma>)
      | (Inr (x # xs), \<sigma>) \<Rightarrow> (Inr x, \<sigma>))"

subsection \<open>Transactions (\<open>unit_of_work.go\<close>)\<close>

text \<open>
  \<open>has_tx\<close> says whether the method's context carries a transaction. \<open>Begin\<close> sends \<open>BEGIN\<close> and, with a
  tenant in the context, \<open>set_config\<close>; if the second fails the transaction is rolled back.
\<close>

definition no_tx_error :: err where
  "no_tx_error = NewError ErrTypeInternal ''failed to fetch data''
     (Some (ErrorString ''no transaction found in context''))"

definition Begin :: "string \<Rightarrow> store \<Rightarrow> err option \<times> store" where
  "Begin tenantID \<sigma> =
     (case run_stmt (\<lambda>sc now d. Inr ((), d)) \<sigma> of
        (Inl e, \<sigma>1) \<Rightarrow> (Some (DbError e), \<sigma>1)
      | (Inr _, \<sigma>1) \<Rightarrow>
          (let \<sigma>2 = \<sigma>1\<lparr>snap := Some (db \<sigma>1), aborted := False\<rparr> in
           if tenantID = '''' then (None, \<sigma>2)
           else case run_stmt (\<lambda>sc now d. Inr ((), d)) \<sigma>2 of
                  (Inr _, \<sigma>3) \<Rightarrow> (None, \<sigma>3)
                | (Inl e, \<sigma>3) \<Rightarrow> (Some (DbError e), \<sigma>3\<lparr>snap := None, aborted := False\<rparr>)))"

text \<open>\<open>COMMIT\<close> of an aborted transaction, or one that fails, leaves the tables of the transaction's start.\<close>

definition Commit :: "bool \<Rightarrow> store \<Rightarrow> err option \<times> store" where
  "Commit has_tx \<sigma> =
     (if \<not> has_tx then (Some no_tx_error, \<sigma>)
      else case snap \<sigma> of
        None \<Rightarrow> (Some (DbError ErrTxClosed), \<sigma>)
      | Some d \<Rightarrow>
          (let \<sigma>' = \<sigma>\<lparr>faults := tl (faults \<sigma>), snap := None, aborted := False\<rparr> in
           case faults \<sigma> of
             Some e # fs \<Rightarrow> (Some (DbError e), \<sigma>'\<lparr>db := d\<rparr>)
           | _ \<Rightarrow>
               (if aborted \<sigma>
                then (Some (DbError (ErrorString ''commit unexpectedly resulted in rollback'')), \<sigma>'\<lparr>db := d\<rparr>)
                else (None, \<sigma>'))))"

definition Rollback :: "bool \<Rightarrow> store \<Rightarrow> err option \<times> store" where
  "Rollback has_tx \<sigma> =
     (if \<not> has_tx then (Some no_tx_error, \<sigma>)
      else case snap \<sigma> of
        None \<Rightarrow> (None, \<sigma>)
      | Some d \<Rightarrow>
          (let \<sigma>' = \<sigma>\<lparr>faults := tl (faults \<sigma>), db := d, snap := None, aborted := False\<rparr> in
           case faults \<sigma> of
             Some e # fs \<Rightarrow> (Some (DbError e), \<sigma>')
           | _ \<Rightarrow> (None, \<sigma>')))"

text \<open>\<open>defer trx.Rollback(txCtx)\<close>: the result is dropped.\<close>

definition deferred_rollback :: "'a \<times> store \<Rightarrow> 'a \<times> store" where
  "deferred_rollback r = (case r of (x, \<sigma>) \<Rightarrow> (x, snd (Rollback True \<sigma>)))"


subsection \<open>Facts about statements\<close>

text \<open>What a statement leaves alone: everything but the tables, the fault list and the abort flag.\<close>

definition same_session :: "store \<Rightarrow> store \<Rightarrow> bool" where
  "same_session \<sigma> \<sigma>' \<longleftrightarrow> snap \<sigma>' = snap \<sigma> \<and> locked \<sigma>' = locked \<sigma> \<and> clock \<sigma>' = clock \<sigma>
     \<and> uuids \<sigma>' = uuids \<sigma> \<and> sch \<sigma>' = sch \<sigma>"

text \<open>No statement to come fails for outside reasons.\<close>

definition healthy :: "store \<Rightarrow> bool" where
  "healthy \<sigma> \<longleftrightarrow> \<not> aborted \<sigma> \<and> set (faults \<sigma>) \<subseteq> {None}"

lemma same_session_refl [simp]: "same_session \<sigma> \<sigma>"
  by (simp add: same_session_def)

lemma same_session_trans: "same_session a b \<Longrightarrow> same_session b c \<Longrightarrow> same_session a c"
  by (simp add: same_session_def)

lemma run_stmt_result:
  assumes "run_stmt f \<sigma> = (r, \<sigma>')"
  shows "same_session \<sigma> \<sigma>' \<and>
    (case r of Inl e \<Rightarrow> db \<sigma>' = db \<sigma>
     | Inr x \<Rightarrow> f (sch \<sigma>) (clock \<sigma>) (db \<sigma>) = Inr (x, db \<sigma>') \<and> aborted \<sigma>' = aborted \<sigma> \<and> \<not> aborted \<sigma>)"
  using assms
  by (auto simp: run_stmt_def Let_def same_session_def split: list.splits option.splits sum.splits if_splits)

lemma run_stmt_healthy:
  assumes "healthy \<sigma>"
  shows "run_stmt f \<sigma> =
    (case f (sch \<sigma>) (clock \<sigma>) (db \<sigma>) of
       Inl e \<Rightarrow> (Inl e, \<sigma>\<lparr>faults := tl (faults \<sigma>), aborted := snap \<sigma> \<noteq> None\<rparr>)
     | Inr (x, d) \<Rightarrow> (Inr x, \<sigma>\<lparr>faults := tl (faults \<sigma>), db := d\<rparr>))"
  using assms
  by (auto simp: run_stmt_def healthy_def Let_def split: list.splits option.splits sum.splits)

lemma healthy_tl: "healthy \<sigma> \<Longrightarrow> healthy (\<sigma>\<lparr>faults := tl (faults \<sigma>)\<rparr>)"
  unfolding healthy_def by (cases "faults \<sigma>") auto

lemma healthy_tl_db [simp]:
  "healthy \<sigma> \<Longrightarrow> healthy (\<sigma>\<lparr>faults := tl (faults \<sigma>), db := d\<rparr>)"
  unfolding healthy_def by (cases "faults \<sigma>") auto

lemma query_result:
  assumes "query f \<sigma> = (r, \<sigma>')"
  shows "same_session \<sigma> \<sigma>' \<and> db \<sigma>' = db \<sigma> \<and> (\<forall>x. r = Inr x \<longrightarrow> f (sch \<sigma>) (db \<sigma>) = Inr x)"
  using run_stmt_result [OF assms [unfolded query_def]]
  by (auto split: sum.splits)

lemma query_healthy:
  "healthy \<sigma> \<Longrightarrow> query f \<sigma> =
    (case f (sch \<sigma>) (db \<sigma>) of
       Inl e \<Rightarrow> (Inl e, \<sigma>\<lparr>faults := tl (faults \<sigma>), aborted := snap \<sigma> \<noteq> None\<rparr>)
     | Inr x \<Rightarrow> (Inr x, \<sigma>\<lparr>faults := tl (faults \<sigma>), db := db \<sigma>\<rparr>))"
  by (simp add: query_def run_stmt_healthy split: sum.splits)

lemma db_result_db [simp]: "snd (db_result r) = snd r"
  by (auto simp: db_result_def split: sum.splits prod.splits)

lemma collect_one_db [simp]: "snd (collect_one r) = snd r"
  by (auto simp: collect_one_def split: sum.splits prod.splits list.splits)

lemma db_result_Inr: "db_result r = (Inr x, \<sigma>) \<longleftrightarrow> r = (Inr x, \<sigma>)"
  by (auto simp: db_result_def split: sum.splits prod.splits)

lemma collect_one_Inr: "collect_one r = (Inr x, \<sigma>) \<longleftrightarrow> (\<exists>xs. r = (Inr (x # xs), \<sigma>))"
  by (cases r; cases "fst r") (auto simp: collect_one_def split: list.splits)

lemma affected_None: "affected none r = (None, \<sigma>) \<longleftrightarrow> (\<exists>n. r = (Inr n, \<sigma>) \<and> n \<noteq> 0)"
  by (auto simp: affected_def split: sum.splits prod.splits if_splits)

lemma affected_Some:
  "affected none r = (Some e, \<sigma>) \<longleftrightarrow>
   (\<exists>e'. r = (Inl e', \<sigma>) \<and> e = DbError e') \<or> r = (Inr 0, \<sigma>) \<and> e = none"
  by (auto simp: affected_def split: sum.splits prod.splits if_splits)

subsection \<open>Facts about updates\<close>

lemma put_rows_list_all2:
  "put_rows t now cvs p rows = Inr rows' \<longleftrightarrow>
   list_all2 (\<lambda>r r'. if p r then put_row t now cvs r = Inr r' else r' = r) rows rows'"
proof (induction rows arbitrary: rows')
  case Nil
  show ?case by auto
next
  case (Cons r rows)
  show ?case
    by (cases "p r"; cases "put_row t now cvs r"; cases "put_rows t now cvs p rows"; cases rows')
      (auto simp: Cons.IH [symmetric])
qed

lemma put_rows_none:
  "(\<And>r. r \<in> set rows \<Longrightarrow> \<not> p r) \<Longrightarrow> put_rows t now cvs p rows = Inr rows"
  by (induction rows) auto

lemma update_rows_Inr:
  "update_rows t now cvs cc p rows = Inr (n, rows') \<longleftrightarrow>
   missing_column t (map fst cvs @ cc) = None \<and> n = count_rows p rows \<and>
   put_rows t now cvs p rows = Inr rows' \<and> (n \<noteq> 0 \<longrightarrow> \<not> has_clash (tb_clash t) rows')"
  by (auto simp: update_rows_def split: option.splits sum.splits if_splits)

lemma distinct_no_clash: "distinct (map k rows) \<Longrightarrow> \<not> has_clash (\<lambda>a b. k a = k b) rows"
  by (induction rows) (auto simp: list_ex_iff)

text \<open>An update of the one row with a given id and version.\<close>

lemma put_rows_key:
  assumes "put_rows t now cvs p rows = Inr rows'"
    and "\<And>r r'. put_row t now cvs r = Inr r' \<Longrightarrow> key r' = key r"
  shows "map key rows' = map key rows"
  using assms(1) unfolding put_rows_list_all2
  by (induction rows rows' rule: list_all2_induct) (auto split: if_splits dest: assms(2))

lemma put_rows_find:
  assumes "put_rows t now cvs p rows = Inr rows'"
    and key: "\<And>r r'. put_row t now cvs r = Inr r' \<Longrightarrow> key r' = key r"
  shows "case List.find (\<lambda>r. key r = i) rows of
      None \<Rightarrow> List.find (\<lambda>r. key r = i) rows' = None
    | Some r \<Rightarrow> (\<exists>r'. List.find (\<lambda>r. key r = i) rows' = Some r' \<and>
        (if p r then put_row t now cvs r = Inr r' else r' = r))"
  using assms(1) unfolding put_rows_list_all2
  by (induction rows rows' rule: list_all2_induct) (auto split: if_splits option.splits dest: key)

lemma count_key_version:
  assumes "distinct (map key rows)"
  shows "count_rows (\<lambda>r. key r = i \<and> ver r = v) rows =
    (case List.find (\<lambda>r. key r = i) rows of Some r \<Rightarrow> if ver r = v then 1 else 0 | None \<Rightarrow> 0)"
  using assms
proof (induction rows)
  case (Cons r rows)
  show ?case
  proof (cases "key r = i")
    case True
    from Cons.prems have "key r \<notin> key ` set rows" by simp
    with True have "\<forall>x \<in> set rows. key x \<noteq> i" by (metis imageI)
    then have "count_rows (\<lambda>r. key r = i \<and> ver r = v) rows = 0"
      by (simp add: count_rows_0)
    with True show ?thesis by simp
  next
    case False
    with Cons show ?thesis by simp
  qed
qed simp

lemma update_by_version:
  assumes up: "update_rows t now cvs cc (\<lambda>r. key r = i \<and> ver r = v) rows = Inr (n, rows')"
    and k: "\<forall>r r'. put_row t now cvs r = Inr r' \<longrightarrow> key r' = key r"
    and dist: "distinct (map key rows)"
  shows "map key rows' = map key rows"
    and "n = 0 \<Longrightarrow> rows' = rows \<and> (\<forall>r. List.find (\<lambda>r. key r = i) rows = Some r \<longrightarrow> ver r \<noteq> v)"
    and "n \<noteq> 0 \<Longrightarrow> \<exists>r r'. List.find (\<lambda>r. key r = i) rows = Some r \<and> ver r = v
      \<and> put_row t now cvs r = Inr r' \<and> List.find (\<lambda>r. key r = i) rows' = Some r'"
    and "j \<noteq> i \<Longrightarrow> List.find (\<lambda>r. key r = j) rows' = List.find (\<lambda>r. key r = j) rows"
proof -
  let ?p = "\<lambda>r. key r = i \<and> ver r = v"
  have key: "put_row t now cvs r = Inr r' \<Longrightarrow> key r' = key r" for r r' using k by blast
  have n: "n = count_rows ?p rows" and put: "put_rows t now cvs ?p rows = Inr rows'"
    using up by (auto simp: update_rows_Inr)
  show "map key rows' = map key rows" using put_rows_key [OF put] key by blast
  show "n = 0 \<Longrightarrow> rows' = rows \<and> (\<forall>r. List.find (\<lambda>r. key r = i) rows = Some r \<longrightarrow> ver r \<noteq> v)"
    using n put put_rows_none [of rows ?p] by (simp add: count_rows_0) (metis (mono_tags, lifting) find_SomeD)
  show "\<exists>r r'. List.find (\<lambda>r. key r = i) rows = Some r \<and> ver r = v
      \<and> put_row t now cvs r = Inr r' \<and> List.find (\<lambda>r. key r = i) rows' = Some r'" if nz: "n \<noteq> 0"
  proof -
    obtain r where r: "List.find (\<lambda>r. key r = i) rows = Some r" "ver r = v"
      using nz n count_key_version [OF dist, of i ver v] by (auto split: option.splits if_splits)
    with put_rows_find [where key = key and i = i, OF put key] find_SomeD [OF r(1)] show ?thesis by auto
  qed
  show "List.find (\<lambda>r. key r = j) rows' = List.find (\<lambda>r. key r = j) rows" if "j \<noteq> i"
  proof (cases "List.find (\<lambda>r. key r = j) rows")
    case None
    with put_rows_find [where key = key and i = j, OF put key] show ?thesis by simp
  next
    case (Some r)
    with put_rows_find [where key = key and i = j, OF put key] find_SomeD [OF Some] that show ?thesis by auto
  qed
qed

lemma put_row_Inr:
  "put_row t now cvs r = Inr r' \<longleftrightarrow> put_cols t now cvs r = Inr r' \<and> tb_check t r' = None"
  by (auto simp: put_row_def split: sum.splits option.splits)

lemma put_cols_keep:
  assumes "\<And>now c v r r'. tb_put t now c v r = Inr r' \<Longrightarrow> k r' = k r"
  shows "put_cols t now cvs r = Inr r' \<Longrightarrow> k r' = k r"
  by (induction cvs arbitrary: r) (auto split: sum.splits dest: assms)

text \<open>Assigning columns of which one, set once, determines an observation of the row.\<close>

lemma put_cols_append:
  "put_cols t now (xs @ ys) r = (case put_cols t now xs r of Inl e \<Rightarrow> Inl e | Inr r' \<Rightarrow> put_cols t now ys r')"
  by (induction xs arbitrary: r) (auto split: sum.splits)

lemma put_cols_set:
  assumes put: "put_cols t now cvs r = Inr r'"
    and col: "(c, v) \<in> set cvs" "distinct (map fst cvs)"
    and set: "\<And>r r'. tb_put t now c v r = Inr r' \<Longrightarrow> P r'"
    and keep: "\<And>d w r r'. d \<noteq> c \<Longrightarrow> tb_put t now d w r = Inr r' \<Longrightarrow> P r \<Longrightarrow> P r'"
  shows "P r'"
proof -
  obtain xs ys where cvs: "cvs = xs @ (c, v) # ys" using col(1) by (meson split_list)
  then obtain r1 r2 where r: "tb_put t now c v r1 = Inr r2" "put_cols t now ys r2 = Inr r'"
    using put by (auto simp: put_cols_append split: sum.splits)
  have "put_cols t now ys a = Inr b \<Longrightarrow> c \<notin> fst ` set ys \<Longrightarrow> P a \<Longrightarrow> P b" for a b
  proof (induction ys arbitrary: a)
    case (Cons dw ys)
    obtain d w where dw: "dw = (d, w)" by (cases dw)
    with Cons.prems obtain a' where "tb_put t now d w a = Inr a'" "put_cols t now ys a' = Inr b" "d \<noteq> c"
      by (auto split: sum.splits)
    with Cons keep show ?case by auto
  qed simp
  moreover have "c \<notin> fst ` set ys" using col(2) cvs by simp
  ultimately show ?thesis using r(2) set [OF r(1)] by blast
qed

end
