(* ===== verification/Exec_Repo.thy ===== *)
theory Exec_Repo imports Database begin

text \<open>
  The repositories of executions and step executions, \<open>internal/repository/execution.go\<close> and
  \<open>step_execution.go\<close>, with the optimistic locking both use: an \<open>UPDATE\<close> names the version the caller read,
  writes the next one, and reports a conflict when no row matched. The interface \<open>occ_store\<close> states what
  the engine and the poller rely on; it is proved once and interpreted on both repositories.
\<close>

subsection \<open>Execution repository\<close>

definition write_executions ::
    "(schema \<Rightarrow> time \<Rightarrow> database \<Rightarrow> err + nat \<times> Execution list) \<Rightarrow> store \<Rightarrow> (err + nat) \<times> store" where
  "write_executions f = run_stmt (\<lambda>sc now d.
     case f sc now d of Inl e \<Rightarrow> Inl e | Inr (n, rows) \<Rightarrow> Inr (n, d\<lparr>executions := rows\<rparr>))"

definition read_executions ::
    "string list \<Rightarrow> (schema \<Rightarrow> Execution \<Rightarrow> bool) \<Rightarrow> store \<Rightarrow> (err + Execution list) \<times> store" where
  "read_executions condcols p = query (\<lambda>sc d.
     select_rows (execution_table sc) execution_columns condcols (p sc) (executions d))"

definition execution_fk :: "database \<Rightarrow> Execution \<Rightarrow> err option" where
  "execution_fk d r =
     (if \<not> list_ex (\<lambda>t. t_ID t = e_TenantID r) (tenants d) then Some (foreign_key_violation ''tenant_id'')
      else if \<not> list_ex (\<lambda>w. w_ID w = e_WorkflowID r) (workflows d)
        then Some (foreign_key_violation ''workflow_id'')
      else None)"

definition exec_Create :: "Execution \<Rightarrow> store \<Rightarrow> err option \<times> store" where
  "exec_Create execution \<sigma> =
     affected (NewError ErrTypeInternal ''failed to insert execution: no rows affected'' None)
       (write_executions (\<lambda>sc now d.
          insert_row (execution_table sc) execution_columns (execution_fk d execution) execution (executions d)) \<sigma>)"

definition exec_Get :: "colmap \<Rightarrow> store \<Rightarrow> (err + Execution) \<times> store" where
  "exec_Get filters \<sigma> =
     db_result (collect_one
       (read_executions (map fst filters) (\<lambda>sc. row_eq (execution_table sc) filters) \<sigma>))"

text \<open>\<open>List\<close> sends the page query and then the count query with the same conditions.\<close>

definition exec_List :: "nat \<Rightarrow> nat \<Rightarrow> colmap \<Rightarrow> store \<Rightarrow> (err + Execution list \<times> nat) \<times> store" where
  "exec_List limit offset filters \<sigma> =
     (let p = (\<lambda>sc r. \<forall>cv \<in> set filters.
         list_cond (execution_table sc) [''id'', ''tenant_id'', ''workflow_id'', ''status''] cv r) in
      case db_result (read_executions (map fst filters @ [''created_at'']) p \<sigma>) of
        (Inl e, \<sigma>1) \<Rightarrow> (Inl e, \<sigma>1)
      | (Inr rows, \<sigma>1) \<Rightarrow>
          (case db_result (read_executions (map fst filters) p \<sigma>1) of
             (Inl e, \<sigma>2) \<Rightarrow> (Inl e, \<sigma>2)
           | (Inr all, \<sigma>2) \<Rightarrow>
               (Inr (page_rows (\<lambda>r. - e_CreatedAt r) limit offset rows, length all), \<sigma>2)))"

text \<open>\<open>Update\<close> writes into the caller's map first, so its own \<open>version\<close> and \<open>updated_at\<close> win.\<close>

definition versioned :: "int \<Rightarrow> colmap \<Rightarrow> colmap" where
  "versioned currentVersion data =
     gm_set ''updated_at'' NowE (gm_set ''version'' (NumV (wrap64 (currentVersion + 1))) data)"

definition exec_Update :: "string \<Rightarrow> int \<Rightarrow> colmap \<Rightarrow> store \<Rightarrow> err option \<times> store" where
  "exec_Update i currentVersion data \<sigma> =
     affected (NewError ErrTypeConflict
         ''execution was modified by another request, please re-fetch and retry'' None)
       (write_executions (\<lambda>sc now d.
          update_rows (execution_table sc) now (versioned currentVersion data) [''id'', ''version'']
            (\<lambda>r. e_ID r = i \<and> e_Version r = currentVersion) (executions d)) \<sigma>)"

text \<open>\<open>FOR UPDATE SKIP LOCKED\<close> leaves out the rows another session has locked, before \<open>LIMIT\<close> counts.\<close>

definition exec_AcquireForWorker :: "nat \<Rightarrow> store \<Rightarrow> (err + Execution list) \<times> store" where
  "exec_AcquireForWorker limit \<sigma> =
     (case db_result (read_executions [''status'', ''created_at'']
         (\<lambda>sc r. e_Status r = StatusExecutionPending \<and> e_ID r \<notin> set (locked \<sigma>)) \<sigma>) of
        (Inl e, \<sigma>') \<Rightarrow> (Inl e, \<sigma>')
      | (Inr rows, \<sigma>') \<Rightarrow> (Inr (page_rows e_CreatedAt limit 0 rows), \<sigma>'))"

definition exec_AcquireByIDForWorker :: "string \<Rightarrow> store \<Rightarrow> (err + Execution) \<times> store" where
  "exec_AcquireByIDForWorker i \<sigma> =
     db_result (collect_one (read_executions [''id'', ''status'']
       (\<lambda>sc r. e_ID r = i \<and> e_Status r = StatusExecutionPending \<and> e_ID r \<notin> set (locked \<sigma>)) \<sigma>))"

text \<open>\<open>timeout\<close> is a \<open>time.Duration\<close> in nanoseconds, converted to whole seconds.\<close>

definition exec_RecoverStuckJobs :: "int \<Rightarrow> store \<Rightarrow> (err + nat) \<times> store" where
  "exec_RecoverStuckJobs timeout \<sigma> =
     db_result (write_executions (\<lambda>sc now d.
        update_rows (execution_table sc) now [(''status'', TextV StatusExecutionPending), (''updated_at'', NowE)]
          [''status'', ''updated_at'']
          (\<lambda>r. e_Status r = StatusExecutionRunning
             \<and> e_UpdatedAt r < now - sgn timeout * (\<bar>timeout\<bar> div 10 ^ 9))
          (executions d)) \<sigma>)"

subsection \<open>Step execution repository\<close>

definition write_steps ::
    "(schema \<Rightarrow> time \<Rightarrow> database \<Rightarrow> err + nat \<times> StepExecution list) \<Rightarrow> store \<Rightarrow> (err + nat) \<times> store" where
  "write_steps f = run_stmt (\<lambda>sc now d.
     case f sc now d of Inl e \<Rightarrow> Inl e | Inr (n, rows) \<Rightarrow> Inr (n, d\<lparr>step_executions := rows\<rparr>))"

definition read_steps ::
    "string list \<Rightarrow> (schema \<Rightarrow> StepExecution \<Rightarrow> bool) \<Rightarrow> store \<Rightarrow> (err + StepExecution list) \<times> store" where
  "read_steps condcols p = query (\<lambda>sc d.
     select_rows (step_table sc) step_execution_columns condcols (p sc) (step_executions d))"

definition step_fk :: "database \<Rightarrow> StepExecution \<Rightarrow> err option" where
  "step_fk d r =
     (if \<not> list_ex (\<lambda>t. t_ID t = s_TenantID r) (tenants d) then Some (foreign_key_violation ''tenant_id'')
      else if \<not> list_ex (\<lambda>e. e_ID e = s_ExecutionID r) (executions d)
        then Some (foreign_key_violation ''execution_id'')
      else None)"

definition step_Create :: "StepExecution \<Rightarrow> store \<Rightarrow> err option \<times> store" where
  "step_Create step \<sigma> =
     affected (NewError ErrTypeInternal ''failed to insert workflow: no rows affected'' None)
       (write_steps (\<lambda>sc now d.
          insert_row (step_table sc) step_execution_columns (step_fk d step) step (step_executions d)) \<sigma>)"

definition step_Get :: "colmap \<Rightarrow> store \<Rightarrow> (err + StepExecution) \<times> store" where
  "step_Get filters \<sigma> =
     db_result (collect_one
       (read_steps (map fst filters) (\<lambda>sc. row_eq (step_table sc) filters) \<sigma>))"

text \<open>\<open>ORDER BY started_at ASC NULLS LAST\<close>.\<close>

definition by_started :: "StepExecution list \<Rightarrow> StepExecution list" where
  "by_started rows =
     sort_key (\<lambda>r. case s_StartedAt r of None \<Rightarrow> 0 | Some t \<Rightarrow> t) (filter (\<lambda>r. s_StartedAt r \<noteq> None) rows)
     @ filter (\<lambda>r. s_StartedAt r = None) rows"

definition step_ListByExecution :: "string \<Rightarrow> store \<Rightarrow> (err + StepExecution list) \<times> store" where
  "step_ListByExecution executionID \<sigma> =
     (case db_result (read_steps [''execution_id'', ''started_at'']
         (\<lambda>sc r. s_ExecutionID r = executionID) \<sigma>) of
        (Inl e, \<sigma>') \<Rightarrow> (Inl e, \<sigma>')
      | (Inr rows, \<sigma>') \<Rightarrow> (Inr (by_started rows), \<sigma>'))"

definition step_List :: "string \<Rightarrow> nat \<Rightarrow> nat \<Rightarrow> store \<Rightarrow> (err + StepExecution list \<times> nat) \<times> store" where
  "step_List executionID limit offset \<sigma> =
     (case db_result (read_steps [''execution_id''] (\<lambda>sc r. s_ExecutionID r = executionID) \<sigma>) of
        (Inl e, \<sigma>1) \<Rightarrow> (Inl e, \<sigma>1)
      | (Inr all, \<sigma>1) \<Rightarrow>
          (case db_result (read_steps [''execution_id'', ''started_at'']
              (\<lambda>sc r. s_ExecutionID r = executionID) \<sigma>1) of
             (Inl e, \<sigma>2) \<Rightarrow> (Inl e, \<sigma>2)
           | (Inr rows, \<sigma>2) \<Rightarrow> (Inr (take limit (drop offset (by_started rows)), length all), \<sigma>2)))"

definition step_Update :: "string \<Rightarrow> int \<Rightarrow> colmap \<Rightarrow> store \<Rightarrow> err option \<times> store" where
  "step_Update i currentVersion data \<sigma> =
     affected (NewError ErrTypeConflict
         ''step execution was modified by another request, please re-fetch and retry'' None)
       (write_steps (\<lambda>sc now d.
          update_rows (step_table sc) now (versioned currentVersion data) [''id'', ''version'']
            (\<lambda>r. s_ID r = i \<and> s_Version r = currentVersion) (step_executions d)) \<sigma>)"

definition step_GetByExecutionAndStep :: "string \<Rightarrow> string \<Rightarrow> store \<Rightarrow> (err + StepExecution) \<times> store" where
  "step_GetByExecutionAndStep execID stepID \<sigma> =
     db_result (collect_one (read_steps [''execution_id'', ''step_id'']
       (\<lambda>sc r. s_ExecutionID r = execID \<and> s_StepID r = stepID) \<sigma>))"

subsection \<open>Optimistic locking as an interface\<close>

text \<open>
  \<open>row s i\<close> is the row with id \<open>i\<close>, \<open>ver\<close> its version, \<open>upd i v x s\<close> an update that expects version \<open>v\<close>.
  The laws: a successful update found version \<open>v\<close> and left \<open>v + 1\<close>; other rows never change; a refused
  update changes no row.
\<close>

fun run_updates :: "('i \<Rightarrow> int \<Rightarrow> 'x \<Rightarrow> 's \<Rightarrow> err option \<times> 's) \<Rightarrow> ('i \<times> int \<times> 'x) list \<Rightarrow> 's \<Rightarrow>
    (err option) list \<times> 's" where
  "run_updates upd [] s = ([], s)"
| "run_updates upd ((i, v, x) # us) s =
     (case upd i v x s of (r, s') \<Rightarrow> (case run_updates upd us s' of (rs, s'') \<Rightarrow> (r # rs, s'')))"

text \<open>The versions with which updates of \<open>i\<close> succeeded, in order.\<close>

definition accepted :: "'i \<Rightarrow> ('i \<times> int \<times> 'x) list \<Rightarrow> (err option) list \<Rightarrow> int list" where
  "accepted i us rs = map (\<lambda>(u, r). fst (snd u)) (filter (\<lambda>(u, r). fst u = i \<and> r = None) (zip us rs))"

locale occ_store =
  fixes inv :: "'s \<Rightarrow> bool"
    and row :: "'s \<Rightarrow> 'i \<Rightarrow> 'r option"
    and ver :: "'r \<Rightarrow> int"
    and valid :: "'x \<Rightarrow> bool"
    and upd :: "'i \<Rightarrow> int \<Rightarrow> 'x \<Rightarrow> 's \<Rightarrow> err option \<times> 's"
  assumes upd_inv: "inv s \<Longrightarrow> valid x \<Longrightarrow> upd i v x s = (r, s') \<Longrightarrow> inv s'"
    and upd_ok: "inv s \<Longrightarrow> valid x \<Longrightarrow> upd i v x s = (None, s') \<Longrightarrow>
      \<exists>a b. row s i = Some a \<and> ver a = v \<and> row s' i = Some b \<and> ver b = v + 1"
    and upd_other: "inv s \<Longrightarrow> valid x \<Longrightarrow> upd i v x s = (r, s') \<Longrightarrow> j \<noteq> i \<Longrightarrow> row s' j = row s j"
    and upd_refused: "inv s \<Longrightarrow> valid x \<Longrightarrow> upd i v x s = (Some e, s') \<Longrightarrow> row s' j = row s j"
begin

lemma upd_version:
  assumes "inv s" "valid x" "upd i v x s = (r, s')"
  shows "map_option ver (row s' j) =
    (if j = i \<and> r = None then Some (v + 1) else map_option ver (row s j))"
proof (cases r)
  case None
  with upd_ok assms upd_other [OF assms, of j] show ?thesis by (cases "j = i") fastforce+
next
  case (Some e)
  with upd_refused assms show ?thesis by simp
qed

lemma upd_ok_version:
  "inv s \<Longrightarrow> valid x \<Longrightarrow> upd i v x s = (None, s') \<Longrightarrow> map_option ver (row s i) = Some v"
  using upd_ok by fastforce

text \<open>A caller with an outdated version is refused and changes nothing.\<close>

lemma stale_refused:
  assumes "inv s" "valid x" "upd i v x s = (r, s')" "map_option ver (row s i) \<noteq> Some v"
  shows "r \<noteq> None \<and> row s' = row s"
proof -
  have "r \<noteq> None"
  proof
    assume "r = None"
    with upd_ok_version [OF assms(1,2), of i v s'] assms(3,4) show False by simp
  qed
  then show ?thesis using upd_refused [OF assms(1,2)] assms(3) by auto
qed

text \<open>However many callers race, the updates of a row that succeed carry consecutive versions, starting
  from the version the row had and ending one below the version it gets.\<close>

lemma accepted_consecutive:
  assumes "inv s" "\<forall>u \<in> set us. valid (snd (snd u))" "run_updates upd us s = (rs, s')" "row s i = Some a"
  shows "accepted i us rs = map (\<lambda>k. ver a + int k) [0..<length (accepted i us rs)] \<and>
    map_option ver (row s' i) = Some (ver a + int (length (accepted i us rs)))"
  using assms
proof (induction us arbitrary: s rs a)
  case Nil
  then show ?case by (auto simp: accepted_def)
next
  case (Cons u us)
  obtain j v x where u: "u = (j, v, x)" by (cases u)
  obtain r s1 rs1 where r: "upd j v x s = (r, s1)" "run_updates upd us s1 = (rs1, s')" "rs = r # rs1"
    using Cons.prems(3) u by (auto split: prod.splits)
  have x: "valid x" "\<forall>u \<in> set us. valid (snd (snd u))" using Cons.prems(2) u by auto
  have inv1: "inv s1" using upd_inv [OF Cons.prems(1) x(1) r(1)] .
  obtain b where b: "row s1 i = Some b" "ver b = (if i = j \<and> r = None then v + 1 else ver a)"
    using upd_version [OF Cons.prems(1) x(1) r(1), of i] Cons.prems(4) by (auto split: if_splits)
  note IH = Cons.IH [OF inv1 x(2) r(2) b(1)]
  show ?case
  proof (cases "i = j \<and> r = None")
    case True
    then have "ver a = v"
      using upd_ok_version [OF Cons.prems(1) x(1), of j v s1] r(1) Cons.prems(4) by simp
    have acc: "accepted i (u # us) rs = v # accepted i us rs1"
      using True u r(3) by (simp add: accepted_def)
    let ?n = "length (accepted i us rs1)"
    have "map (\<lambda>k. v + int k) [0..<Suc ?n] = v # map (\<lambda>k. v + 1 + int k) [0..<?n]"
      by (subst upt_conv_Cons, simp, subst map_Suc_upt [symmetric]) (simp add: algebra_simps)
    then show ?thesis using IH b(2) True acc \<open>ver a = v\<close> by auto
  next
    case False
    then have "accepted i (u # us) rs = accepted i us rs1"
      using u r(3) by (auto simp: accepted_def)
    with IH b(2) False show ?thesis by auto
  qed
qed

lemma accepted_absent:
  assumes "inv s" "\<forall>u \<in> set us. valid (snd (snd u))" "run_updates upd us s = (rs, s')" "row s i = None"
  shows "accepted i us rs = []"
  using assms
proof (induction us arbitrary: s rs)
  case (Cons u us)
  obtain j v x where u: "u = (j, v, x)" by (cases u)
  obtain r s1 rs1 where r: "upd j v x s = (r, s1)" "run_updates upd us s1 = (rs1, s')" "rs = r # rs1"
    using Cons.prems(3) u by (auto split: prod.splits)
  have x: "valid x" "\<forall>u \<in> set us. valid (snd (snd u))" using Cons.prems(2) u by auto
  have no: "\<not> (i = j \<and> r = None)"
  proof
    assume "i = j \<and> r = None"
    with upd_ok_version [OF Cons.prems(1) x(1), of j v s1] r(1) Cons.prems(4) show False by simp
  qed
  then have "map_option ver (row s1 i) = None"
    using upd_version [OF Cons.prems(1) x(1) r(1), of i] Cons.prems(4) by (simp only: if_False) simp
  then have "row s1 i = None" by simp
  from Cons.IH [OF upd_inv [OF Cons.prems(1) x(1) r(1)] x(2) r(2) this] no u r(3)
  show ?case by (auto simp: accepted_def)
qed (simp add: accepted_def)

text \<open>Hence no two updates that expected the same version both succeed: no update is lost.\<close>

lemma accepted_distinct:
  assumes "inv s" "\<forall>u \<in> set us. valid (snd (snd u))" "run_updates upd us s = (rs, s')"
  shows "distinct (accepted i us rs)"
proof (cases "row s i")
  case None
  with accepted_absent [OF assms] show ?thesis by simp
next
  case (Some a)
  have "distinct (map (\<lambda>k. ver a + int k) [0..<length (accepted i us rs)])"
    by (simp add: distinct_map inj_on_def)
  with accepted_consecutive [OF assms Some] show ?thesis by simp
qed

end

subsection \<open>The repositories provide the interface\<close>

definition execution_inv :: "store \<Rightarrow> bool" where
  "execution_inv \<sigma> \<longleftrightarrow> distinct (map e_ID (executions (db \<sigma>)))
     \<and> (\<forall>r \<in> set (executions (db \<sigma>)). int4 (e_Version r))"

definition execution_row :: "store \<Rightarrow> string \<Rightarrow> Execution option" where
  "execution_row \<sigma> i = List.find (\<lambda>r. e_ID r = i) (executions (db \<sigma>))"

definition step_inv :: "store \<Rightarrow> bool" where
  "step_inv \<sigma> \<longleftrightarrow> distinct (map s_ID (step_executions (db \<sigma>)))
     \<and> (\<forall>r \<in> set (step_executions (db \<sigma>)). int4 (s_Version r))"

definition step_row :: "store \<Rightarrow> string \<Rightarrow> StepExecution option" where
  "step_row \<sigma> i = List.find (\<lambda>r. s_ID r = i) (step_executions (db \<sigma>))"

lemmas put_defs = put_text_def put_int_def put_time_def put_moment_def put_flag_def time_of_def

lemma versioned_version:
  "distinct (map fst data) \<Longrightarrow>
   (''version'', NumV (wrap64 (v + 1))) \<in> set (versioned v data) \<and> distinct (map fst (versioned v data))"
proof -
  assume d: "distinct (map fst data)"
  have "map_of (versioned v data) ''version'' = Some (NumV (wrap64 (v + 1)))"
    by (simp add: versioned_def)
  from map_of_SomeD [OF this] d show ?thesis by (simp add: versioned_def distinct_gm_set)
qed

lemma execution_put_id: "execution_put now c v r = Inr r' \<Longrightarrow> e_ID r' = e_ID r"
  by (auto simp: execution_put_def put_defs split: if_splits sqlval.splits option.splits)

lemma execution_put_version:
  "execution_put now ''version'' (NumV n) r = Inr r' \<Longrightarrow> e_Version r' = n"
  by (auto simp: execution_put_def put_defs split: if_splits)

lemma execution_put_other:
  "c \<noteq> ''version'' \<Longrightarrow> execution_put now c v r = Inr r' \<Longrightarrow> e_Version r' = e_Version r"
  by (auto simp: execution_put_def put_defs split: if_splits sqlval.splits option.splits)

lemma step_put_id: "step_put now c v r = Inr r' \<Longrightarrow> s_ID r' = s_ID r"
  by (auto simp: step_put_def put_defs split: if_splits sqlval.splits option.splits)

lemma step_put_version:
  "step_put now ''version'' (NumV n) r = Inr r' \<Longrightarrow> s_Version r' = n"
  by (auto simp: step_put_def put_defs split: if_splits)

lemma step_put_other:
  "c \<noteq> ''version'' \<Longrightarrow> step_put now c v r = Inr r' \<Longrightarrow> s_Version r' = s_Version r"
  by (auto simp: step_put_def put_defs split: if_splits sqlval.splits option.splits)

lemma execution_put_row:
  assumes "put_row (execution_table sc) now (versioned v data) r = Inr r'" "distinct (map fst data)"
  shows "e_ID r' = e_ID r \<and> e_Version r' = wrap64 (v + 1) \<and> int4 (e_Version r')"
proof -
  have put: "put_cols (execution_table sc) now (versioned v data) r = Inr r'"
    and chk: "tb_check (execution_table sc) r' = None" using assms(1) by (auto simp: put_row_Inr)
  have "e_ID r' = e_ID r"
    by (rule put_cols_keep [OF _ put]) (auto simp: execution_table_def dest: execution_put_id)
  moreover have "e_Version r' = wrap64 (v + 1)"
  proof (rule put_cols_set [OF put versioned_version [OF assms(2), THEN conjunct1]
        versioned_version [OF assms(2), THEN conjunct2], where P = "\<lambda>r. e_Version r = wrap64 (v + 1)"])
    show "tb_put (execution_table sc) now ''version'' (NumV (wrap64 (v + 1))) a = Inr b \<Longrightarrow> e_Version b = wrap64 (v + 1)"
      for a b by (simp add: execution_table_def execution_put_version)
    show "d \<noteq> ''version'' \<Longrightarrow> tb_put (execution_table sc) now d w a = Inr b \<Longrightarrow> e_Version a = wrap64 (v + 1) \<Longrightarrow>
        e_Version b = wrap64 (v + 1)" for d w a b
      using execution_put_other [of d now w a b] by (simp add: execution_table_def)
  qed
  moreover have "int4 (e_Version r')" using chk by (auto simp: execution_table_def split: if_splits)
  ultimately show ?thesis by blast
qed

lemma step_put_row:
  assumes "put_row (step_table sc) now (versioned v data) r = Inr r'" "distinct (map fst data)"
  shows "s_ID r' = s_ID r \<and> s_Version r' = wrap64 (v + 1) \<and> int4 (s_Version r')"
proof -
  have put: "put_cols (step_table sc) now (versioned v data) r = Inr r'"
    and chk: "tb_check (step_table sc) r' = None" using assms(1) by (auto simp: put_row_Inr)
  have "s_ID r' = s_ID r"
    by (rule put_cols_keep [OF _ put]) (auto simp: step_table_def dest: step_put_id)
  moreover have "s_Version r' = wrap64 (v + 1)"
  proof (rule put_cols_set [OF put versioned_version [OF assms(2), THEN conjunct1]
        versioned_version [OF assms(2), THEN conjunct2], where P = "\<lambda>r. s_Version r = wrap64 (v + 1)"])
    show "tb_put (step_table sc) now ''version'' (NumV (wrap64 (v + 1))) a = Inr b \<Longrightarrow> s_Version b = wrap64 (v + 1)"
      for a b by (simp add: step_table_def step_put_version)
    show "d \<noteq> ''version'' \<Longrightarrow> tb_put (step_table sc) now d w a = Inr b \<Longrightarrow> s_Version a = wrap64 (v + 1) \<Longrightarrow>
        s_Version b = wrap64 (v + 1)" for d w a b
      using step_put_other [of d now w a b] by (simp add: step_table_def)
  qed
  moreover have "int4 (s_Version r')" using chk by (auto simp: step_table_def split: if_splits)
  ultimately show ?thesis by blast
qed

text \<open>What an update does: nothing unless it reports success, and then the assignments to the matching row.\<close>

lemma write_executions_result:
  assumes "write_executions f \<sigma> = (r, \<sigma>')"
  shows "same_session \<sigma> \<sigma>' \<and> (case r of Inl e \<Rightarrow> db \<sigma>' = db \<sigma>
    | Inr n \<Rightarrow> \<exists>rows. f (sch \<sigma>) (clock \<sigma>) (db \<sigma>) = Inr (n, rows) \<and> db \<sigma>' = db \<sigma>\<lparr>executions := rows\<rparr>)"
  using run_stmt_result [OF assms [unfolded write_executions_def]]
  by (auto split: sum.splits)

lemma write_steps_result:
  assumes "write_steps f \<sigma> = (r, \<sigma>')"
  shows "same_session \<sigma> \<sigma>' \<and> (case r of Inl e \<Rightarrow> db \<sigma>' = db \<sigma>
    | Inr n \<Rightarrow> \<exists>rows. f (sch \<sigma>) (clock \<sigma>) (db \<sigma>) = Inr (n, rows) \<and> db \<sigma>' = db \<sigma>\<lparr>step_executions := rows\<rparr>)"
  using run_stmt_result [OF assms [unfolded write_steps_def]]
  by (auto split: sum.splits)

lemma update_rows_zero: "update_rows t now cvs cc p rows = Inr (0, rows') \<Longrightarrow> rows' = rows"
  using put_rows_none [of rows p t now cvs] by (auto simp: update_rows_Inr count_rows_0)

lemma exec_Update_result:
  assumes "exec_Update i v data \<sigma> = (r, \<sigma>')"
  shows "same_session \<sigma> \<sigma>' \<and> (r \<noteq> None \<longrightarrow> db \<sigma>' = db \<sigma>) \<and>
    (r = None \<longrightarrow> (\<exists>n rows. n \<noteq> 0 \<and> db \<sigma>' = db \<sigma>\<lparr>executions := rows\<rparr> \<and>
      update_rows (execution_table (sch \<sigma>)) (clock \<sigma>) (versioned v data) [''id'', ''version'']
        (\<lambda>r. e_ID r = i \<and> e_Version r = v) (executions (db \<sigma>)) = Inr (n, rows)))"
proof -
  obtain w where w: "write_executions (\<lambda>sc now d.
      update_rows (execution_table sc) now (versioned v data) [''id'', ''version'']
        (\<lambda>r. e_ID r = i \<and> e_Version r = v) (executions d)) \<sigma> = (w, \<sigma>')"
    using assms by (auto simp: exec_Update_def affected_def split: prod.splits sum.splits if_splits)
  note wr = write_executions_result [OF w]
  show ?thesis
  proof (cases w)
    case (Inl e)
    with assms w wr show ?thesis by (auto simp: exec_Update_def affected_def)
  next
    case (Inr n)
    then obtain rows where rows: "update_rows (execution_table (sch \<sigma>)) (clock \<sigma>) (versioned v data)
        [''id'', ''version''] (\<lambda>r. e_ID r = i \<and> e_Version r = v) (executions (db \<sigma>)) = Inr (n, rows)"
      "db \<sigma>' = db \<sigma>\<lparr>executions := rows\<rparr>" using wr by auto
    have "r = None \<longleftrightarrow> n \<noteq> 0" using assms w Inr by (auto simp: exec_Update_def affected_def split: if_splits)
    moreover have "db \<sigma>' = db \<sigma>" if "n = 0"
      using rows(2) update_rows_zero [OF rows(1) [unfolded that]] by simp
    ultimately show ?thesis using wr rows by blast
  qed
qed

lemma step_Update_result:
  assumes "step_Update i v data \<sigma> = (r, \<sigma>')"
  shows "same_session \<sigma> \<sigma>' \<and> (r \<noteq> None \<longrightarrow> db \<sigma>' = db \<sigma>) \<and>
    (r = None \<longrightarrow> (\<exists>n rows. n \<noteq> 0 \<and> db \<sigma>' = db \<sigma>\<lparr>step_executions := rows\<rparr> \<and>
      update_rows (step_table (sch \<sigma>)) (clock \<sigma>) (versioned v data) [''id'', ''version'']
        (\<lambda>r. s_ID r = i \<and> s_Version r = v) (step_executions (db \<sigma>)) = Inr (n, rows)))"
proof -
  obtain w where w: "write_steps (\<lambda>sc now d.
      update_rows (step_table sc) now (versioned v data) [''id'', ''version'']
        (\<lambda>r. s_ID r = i \<and> s_Version r = v) (step_executions d)) \<sigma> = (w, \<sigma>')"
    using assms by (auto simp: step_Update_def affected_def split: prod.splits sum.splits if_splits)
  note wr = write_steps_result [OF w]
  show ?thesis
  proof (cases w)
    case (Inl e)
    with assms w wr show ?thesis by (auto simp: step_Update_def affected_def)
  next
    case (Inr n)
    then obtain rows where rows: "update_rows (step_table (sch \<sigma>)) (clock \<sigma>) (versioned v data)
        [''id'', ''version''] (\<lambda>r. s_ID r = i \<and> s_Version r = v) (step_executions (db \<sigma>)) = Inr (n, rows)"
      "db \<sigma>' = db \<sigma>\<lparr>step_executions := rows\<rparr>" using wr by auto
    have "r = None \<longleftrightarrow> n \<noteq> 0" using assms w Inr by (auto simp: step_Update_def affected_def split: if_splits)
    moreover have "db \<sigma>' = db \<sigma>" if "n = 0"
      using rows(2) update_rows_zero [OF rows(1) [unfolded that]] by simp
    ultimately show ?thesis using wr rows by blast
  qed
qed

text \<open>The row view of an update that succeeded, for both tables.\<close>

lemma put_rows_range:
  assumes "put_rows t now cvs p rows = Inr rows'" "\<forall>r \<in> set rows. P r"
    and "\<And>r r'. put_row t now cvs r = Inr r' \<Longrightarrow> P r'"
  shows "\<forall>r \<in> set rows'. P r"
  using assms(1,2) unfolding put_rows_list_all2
  by (induction rows rows' rule: list_all2_induct) (auto split: if_splits dest: assms(3))

lemma int4_wrap: "int4 v \<Longrightarrow> wrap64 (v + 1) = v + 1"
  by (simp add: int4_def)

lemma exec_Update_row:
  assumes inv: "execution_inv \<sigma>" and d: "distinct (map fst data)"
    and up: "exec_Update i v data \<sigma> = (None, \<sigma>')"
  shows "execution_inv \<sigma>' \<and>
    (\<exists>r r'. execution_row \<sigma> i = Some r \<and> e_Version r = v \<and> execution_row \<sigma>' i = Some r' \<and>
       put_row (execution_table (sch \<sigma>)) (clock \<sigma>) (versioned v data) r = Inr r' \<and> e_Version r' = v + 1) \<and>
    (\<forall>j. j \<noteq> i \<longrightarrow> execution_row \<sigma>' j = execution_row \<sigma> j)"
proof -
  obtain n rows where n: "n \<noteq> 0" "db \<sigma>' = db \<sigma>\<lparr>executions := rows\<rparr>"
    and u: "update_rows (execution_table (sch \<sigma>)) (clock \<sigma>) (versioned v data) [''id'', ''version'']
        (\<lambda>r. e_ID r = i \<and> e_Version r = v) (executions (db \<sigma>)) = Inr (n, rows)"
    using exec_Update_result [OF up] by auto
  have key: "\<forall>r r'. put_row (execution_table (sch \<sigma>)) (clock \<sigma>) (versioned v data) r = Inr r' \<longrightarrow> e_ID r' = e_ID r"
    using execution_put_row [OF _ d] by blast
  have dist: "distinct (map e_ID (executions (db \<sigma>)))" using inv by (simp add: execution_inv_def)
  note U = update_by_version [OF u key dist]
  obtain r r' where r: "execution_row \<sigma> i = Some r" "e_Version r = v" "execution_row \<sigma>' i = Some r'"
      "put_row (execution_table (sch \<sigma>)) (clock \<sigma>) (versioned v data) r = Inr r'"
    using U(3) [OF n(1)] n(2) by (auto simp: execution_row_def)
  have "int4 v" using inv r(1,2) by (auto simp: execution_inv_def execution_row_def dest: find_SomeD)
  then have "e_Version r' = v + 1" using execution_put_row [OF r(4) d] int4_wrap by simp
  moreover have "\<forall>r \<in> set rows. int4 (e_Version r)"
  proof (rule put_rows_range)
    show "put_rows (execution_table (sch \<sigma>)) (clock \<sigma>) (versioned v data)
        (\<lambda>r. e_ID r = i \<and> e_Version r = v) (executions (db \<sigma>)) = Inr rows"
      using u by (simp add: update_rows_Inr)
  qed (use inv execution_put_row [OF _ d] in \<open>blast | simp add: execution_inv_def\<close>)+
  ultimately show ?thesis using U(1,4) n(2) dist r by (auto simp: execution_inv_def execution_row_def)
qed

lemma step_Update_row:
  assumes inv: "step_inv \<sigma>" and d: "distinct (map fst data)"
    and up: "step_Update i v data \<sigma> = (None, \<sigma>')"
  shows "step_inv \<sigma>' \<and>
    (\<exists>r r'. step_row \<sigma> i = Some r \<and> s_Version r = v \<and> step_row \<sigma>' i = Some r' \<and>
       put_row (step_table (sch \<sigma>)) (clock \<sigma>) (versioned v data) r = Inr r' \<and> s_Version r' = v + 1) \<and>
    (\<forall>j. j \<noteq> i \<longrightarrow> step_row \<sigma>' j = step_row \<sigma> j)"
proof -
  obtain n rows where n: "n \<noteq> 0" "db \<sigma>' = db \<sigma>\<lparr>step_executions := rows\<rparr>"
    and u: "update_rows (step_table (sch \<sigma>)) (clock \<sigma>) (versioned v data) [''id'', ''version'']
        (\<lambda>r. s_ID r = i \<and> s_Version r = v) (step_executions (db \<sigma>)) = Inr (n, rows)"
    using step_Update_result [OF up] by auto
  have key: "\<forall>r r'. put_row (step_table (sch \<sigma>)) (clock \<sigma>) (versioned v data) r = Inr r' \<longrightarrow> s_ID r' = s_ID r"
    using step_put_row [OF _ d] by blast
  have dist: "distinct (map s_ID (step_executions (db \<sigma>)))" using inv by (simp add: step_inv_def)
  note U = update_by_version [OF u key dist]
  obtain r r' where r: "step_row \<sigma> i = Some r" "s_Version r = v" "step_row \<sigma>' i = Some r'"
      "put_row (step_table (sch \<sigma>)) (clock \<sigma>) (versioned v data) r = Inr r'"
    using U(3) [OF n(1)] n(2) by (auto simp: step_row_def)
  have "int4 v" using inv r(1,2) by (auto simp: step_inv_def step_row_def dest: find_SomeD)
  then have "s_Version r' = v + 1" using step_put_row [OF r(4) d] int4_wrap by simp
  moreover have "\<forall>r \<in> set rows. int4 (s_Version r)"
  proof (rule put_rows_range)
    show "put_rows (step_table (sch \<sigma>)) (clock \<sigma>) (versioned v data)
        (\<lambda>r. s_ID r = i \<and> s_Version r = v) (step_executions (db \<sigma>)) = Inr rows"
      using u by (simp add: update_rows_Inr)
  qed (use inv step_put_row [OF _ d] in \<open>blast | simp add: step_inv_def\<close>)+
  ultimately show ?thesis using U(1,4) n(2) dist r by (auto simp: step_inv_def step_row_def)
qed

definition proper :: "colmap \<Rightarrow> bool" where
  "proper data = distinct (map fst data)"

interpretation execs: occ_store execution_inv execution_row e_Version proper exec_Update
proof unfold_locales
  fix s s' :: store and x r i v
  assume a: "execution_inv s" "proper x" "exec_Update i v x s = (r, s')"
  show "execution_inv s'"
  proof (cases r)
    case None
    with a exec_Update_row show ?thesis by (simp add: proper_def)
  next
    case (Some e)
    with a exec_Update_result [OF a(3)] show ?thesis by (simp add: execution_inv_def)
  qed
  show "j \<noteq> i \<Longrightarrow> execution_row s' j = execution_row s j" for j
  proof (cases r)
    case None
    then show "j \<noteq> i \<Longrightarrow> execution_row s' j = execution_row s j"
      using a exec_Update_row by (simp add: proper_def)
  next
    case (Some e)
    with a exec_Update_result [OF a(3)] show ?thesis by (simp add: execution_row_def)
  qed
next
  fix s s' :: store and x i v
  assume a: "execution_inv s" "proper x" "exec_Update i v x s = (None, s')"
  then show "\<exists>a b. execution_row s i = Some a \<and> e_Version a = v \<and> execution_row s' i = Some b \<and> e_Version b = v + 1"
    using exec_Update_row [OF a(1) _ a(3)] by (auto simp: proper_def)
next
  fix s s' :: store and x i v e j
  assume "exec_Update i v x s = (Some e, s')"
  from exec_Update_result [OF this] show "execution_row s' j = execution_row s j"
    by (simp add: execution_row_def)
qed

interpretation stepexecs: occ_store step_inv step_row s_Version proper step_Update
proof unfold_locales
  fix s s' :: store and x r i v
  assume a: "step_inv s" "proper x" "step_Update i v x s = (r, s')"
  show "step_inv s'"
  proof (cases r)
    case None
    with a step_Update_row show ?thesis by (simp add: proper_def)
  next
    case (Some e)
    with a step_Update_result [OF a(3)] show ?thesis by (simp add: step_inv_def)
  qed
  show "j \<noteq> i \<Longrightarrow> step_row s' j = step_row s j" for j
  proof (cases r)
    case None
    then show "j \<noteq> i \<Longrightarrow> step_row s' j = step_row s j"
      using a step_Update_row by (simp add: proper_def)
  next
    case (Some e)
    with a step_Update_result [OF a(3)] show ?thesis by (simp add: step_row_def)
  qed
next
  fix s s' :: store and x i v
  assume a: "step_inv s" "proper x" "step_Update i v x s = (None, s')"
  then show "\<exists>a b. step_row s i = Some a \<and> s_Version a = v \<and> step_row s' i = Some b \<and> s_Version b = v + 1"
    using step_Update_row [OF a(1) _ a(3)] by (auto simp: proper_def)
next
  fix s s' :: store and x i v e j
  assume "step_Update i v x s = (Some e, s')"
  from step_Update_result [OF this] show "step_row s' j = step_row s j"
    by (simp add: step_row_def)
qed


text \<open>The columns an update assigns, in the row it leaves.\<close>

lemma versioned_assigned:
  "proper data \<Longrightarrow> map_of data c = Some v \<Longrightarrow> c \<notin> {''version'', ''updated_at''} \<Longrightarrow>
   (c, v) \<in> set (versioned n data) \<and> distinct (map fst (versioned n data))"
  by (auto simp: versioned_def proper_def distinct_gm_set intro!: map_of_SomeD)

lemma step_assigned:
  assumes "put_row (step_table sc) now (versioned n data) a = Inr b" "proper data" "map_of data c = Some v"
    and "c \<notin> {''version'', ''updated_at''}"
    and "\<And>r r'. step_put now c v r = Inr r' \<Longrightarrow> P r'"
    and "\<And>d w r r'. d \<noteq> c \<Longrightarrow> step_put now d w r = Inr r' \<Longrightarrow> P r \<Longrightarrow> P r'"
  shows "P b"
proof (rule put_cols_set [where P = P and c = c and v = v and t = "step_table sc" and now = now
    and cvs = "versioned n data" and r = a and r' = b])
  show "put_cols (step_table sc) now (versioned n data) a = Inr b" using assms(1) by (simp add: put_row_Inr)
  show "(c, v) \<in> set (versioned n data)" "distinct (map fst (versioned n data))"
    using versioned_assigned [OF assms(2-4)] by auto
  show "tb_put (step_table sc) now c v r = Inr r' \<Longrightarrow> P r'" for r r'
    using assms(5) by (simp add: step_table_def)
  show "d \<noteq> c \<Longrightarrow> tb_put (step_table sc) now d w r = Inr r' \<Longrightarrow> P r \<Longrightarrow> P r'" for d w r r'
    using assms(6) by (simp add: step_table_def)
qed

lemma execution_assigned:
  assumes "put_row (execution_table sc) now (versioned n data) a = Inr b" "proper data" "map_of data c = Some v"
    and "c \<notin> {''version'', ''updated_at''}"
    and "\<And>r r'. execution_put now c v r = Inr r' \<Longrightarrow> P r'"
    and "\<And>d w r r'. d \<noteq> c \<Longrightarrow> execution_put now d w r = Inr r' \<Longrightarrow> P r \<Longrightarrow> P r'"
  shows "P b"
proof (rule put_cols_set [where P = P and c = c and v = v and t = "execution_table sc" and now = now
    and cvs = "versioned n data" and r = a and r' = b])
  show "put_cols (execution_table sc) now (versioned n data) a = Inr b" using assms(1) by (simp add: put_row_Inr)
  show "(c, v) \<in> set (versioned n data)" "distinct (map fst (versioned n data))"
    using versioned_assigned [OF assms(2-4)] by auto
  show "tb_put (execution_table sc) now c v r = Inr r' \<Longrightarrow> P r'" for r r'
    using assms(5) by (simp add: execution_table_def)
  show "d \<noteq> c \<Longrightarrow> tb_put (execution_table sc) now d w r = Inr r' \<Longrightarrow> P r \<Longrightarrow> P r'" for d w r r'
    using assms(6) by (simp add: execution_table_def)
qed

lemma step_assigned_status:
  assumes "put_row (step_table sc) now (versioned n data) a = Inr b" "proper data"
    and "map_of data ''status'' = Some (TextV s)"
  shows "s_Status b = s"
proof (rule step_assigned [where P = "\<lambda>r. s_Status r = s", OF assms])
  show "step_put now ''status'' (TextV s) r = Inr r' \<Longrightarrow> s_Status r' = s" for r r'
    by (auto simp: step_put_def put_defs)
  show "d \<noteq> ''status'' \<Longrightarrow> step_put now d w r = Inr r' \<Longrightarrow> s_Status r = s \<Longrightarrow> s_Status r' = s" for d w r r'
    by (auto simp: step_put_def put_defs split: if_splits sqlval.splits option.splits)
qed simp

lemma step_assigned_output:
  assumes "put_row (step_table sc) now (versioned n data) a = Inr b" "proper data"
    and "map_of data ''output'' = Some (JsonV j)"
  shows "s_Output b = j"
proof (rule step_assigned [where P = "\<lambda>r. s_Output r = j", OF assms])
  show "step_put now ''output'' (JsonV j) r = Inr r' \<Longrightarrow> s_Output r' = j" for r r'
    by (auto simp: step_put_def put_defs)
  show "d \<noteq> ''output'' \<Longrightarrow> step_put now d w r = Inr r' \<Longrightarrow> s_Output r = j \<Longrightarrow> s_Output r' = j" for d w r r'
    by (auto simp: step_put_def put_defs split: if_splits sqlval.splits option.splits)
qed simp

lemma execution_assigned_status:
  assumes "put_row (execution_table sc) now (versioned n data) a = Inr b" "proper data"
    and "map_of data ''status'' = Some (TextV s)"
  shows "e_Status b = s"
proof (rule execution_assigned [where P = "\<lambda>r. e_Status r = s", OF assms])
  show "execution_put now ''status'' (TextV s) r = Inr r' \<Longrightarrow> e_Status r' = s" for r r'
    by (auto simp: execution_put_def put_defs)
  show "d \<noteq> ''status'' \<Longrightarrow> execution_put now d w r = Inr r' \<Longrightarrow> e_Status r = s \<Longrightarrow> e_Status r' = s" for d w r r'
    by (auto simp: execution_put_def put_defs split: if_splits sqlval.splits option.splits)
qed simp

subsection \<open>Properties\<close>

definition demo_execution :: Execution where
  "demo_execution = \<lparr>e_ID = ''x1'', e_TenantID = ''t1'', e_WorkflowID = ''w1'', e_Status = StatusExecutionRunning,
     e_TriggerType = ''MANUAL'', e_Version = 2, e_StartedAt = None, e_CompletedAt = None, e_CreatedAt = 10,
     e_UpdatedAt = 20\<rparr>"

definition demo_step :: "string \<Rightarrow> string \<Rightarrow> string \<Rightarrow> StepExecution" where
  "demo_step i action status = \<lparr>s_ID = ''s'' @ i, s_TenantID = ''t1'', s_ExecutionID = ''x1'', s_StepID = i,
     s_Action = action, s_Status = status, s_Version = 1, s_RetryCount = 0, s_ErrorLog = '''', s_Output = None,
     s_StartedAt = None, s_CompletedAt = None\<rparr>"

definition demo_store :: "Execution list \<Rightarrow> StepExecution list \<Rightarrow> store" where
  "demo_store es ss = \<lparr>db = \<lparr>executions = es, step_executions = ss, workflows = [], tenants = [], users = []\<rparr>,
     snap = None, aborted = False, locked = [], faults = [], clock = 2000, uuids = [], sch = struct_schema\<rparr>"

text \<open>C4: Optimistic locking of executions: whatever updates are sent and in whatever order they reach the
  database, with whatever failures, the updates of a row that report success carry consecutive versions, from
  the version the row had up to the one it ends with; so of several callers that read the same version at
  most one succeeds and no change is overwritten unseen.\<close>

theorem execution_updates_serialized:
  assumes "execution_inv \<sigma>" "\<forall>u \<in> set us. proper (snd (snd u))"
    and "run_updates exec_Update us \<sigma> = (rs, \<sigma>')" "execution_row \<sigma> i = Some a"
  shows "accepted i us rs = map (\<lambda>k. e_Version a + int k) [0..<length (accepted i us rs)] \<and>
    map_option e_Version (execution_row \<sigma>' i) = Some (e_Version a + int (length (accepted i us rs)))"
  using assms by (rule execs.accepted_consecutive)

theorem execution_updates_serialized_witness:
  "accepted ''x1''
     [(''x1'', 2, [(''status'', TextV ''SUCCESS'')]), (''x1'', 2, [(''status'', TextV ''FAILED'')]),
      (''x1'', 3, [(''status'', TextV ''PENDING'')])]
     (fst (run_updates exec_Update
       [(''x1'', 2, [(''status'', TextV ''SUCCESS'')]), (''x1'', 2, [(''status'', TextV ''FAILED'')]),
        (''x1'', 3, [(''status'', TextV ''PENDING'')])] (demo_store [demo_execution] []))) = [2, 3]"
proof -
  define us where "us =
     [(''x1'', 2, [(''status'', TextV ''SUCCESS'')]), (''x1'', 2, [(''status'', TextV ''FAILED'')]),
      (''x1'', 3 :: int, [(''status'', TextV ''PENDING'')])]"
  have n: "length (accepted ''x1'' us (fst (run_updates exec_Update us (demo_store [demo_execution] [])))) = 2"
    unfolding us_def by code_simp
  have h: "execution_inv (demo_store [demo_execution] [])" "\<forall>u \<in> set us. proper (snd (snd u))"
    "execution_row (demo_store [demo_execution] []) ''x1'' = Some demo_execution"
    unfolding us_def by (simp_all add: execution_inv_def execution_row_def demo_store_def demo_execution_def
        int4_def proper_def)
  have "accepted ''x1'' us (fst (run_updates exec_Update us (demo_store [demo_execution] []))) =
      map (\<lambda>k. e_Version demo_execution + int k) [0..<2]"
    using execution_updates_serialized [OF h(1,2) surjective_pairing h(3)] unfolding n by blast
  also have "\<dots> = [2, 3]" by (simp add: demo_execution_def upt_rec)
  finally show ?thesis unfolding us_def .
qed

end
