(* ===== verification/Template.thy ===== *)
theory Template imports Model begin

text \<open>
  The results of the finished steps and the templates that refer to them,
  \<open>internal/worker/service/state.go\<close>. A \<open>State\<close> is the map from step ids to results; \<open>Resolve\<close> replaces every
  \<open>{{step.field...}}\<close> in the string parameters of a step. The lemmas show that the scan is a parse (it
  prints back to the text), that every placeholder is found wherever it stands, and that inserted values are
  not scanned again.
\<close>

type_synonym State = gomap

definition newState :: State where
  "newState = []"

definition State_Set :: "State \<Rightarrow> string \<Rightarrow> any \<Rightarrow> State" where
  "State_Set s stepID result = gm_set stepID result s"

definition State_Get :: "State \<Rightarrow> string \<Rightarrow> any option" where
  "State_Get s stepID = map_of s stepID"

text \<open>\<open>Copy\<close> makes a new map with the same entries; later changes of one are not seen in the other, which is
  how values behave here.\<close>

definition State_Copy :: "State \<Rightarrow> State" where
  "State_Copy s = s"

fun navigatePath :: "any \<Rightarrow> string list \<Rightarrow> any" where
  "navigatePath current [] = current"
| "navigatePath current (p # path) =
     (case as_obj current of
        Some m \<Rightarrow> navigatePath (gm_get m p) path
      | None \<Rightarrow> NilV)"

text \<open>The callback of \<open>ReplaceAllStringFunc\<close> on a match \<open>{{name}}\<close>; \<open>strings.Trim(str, "{}")\<close> gives the name.\<close>

definition placeholder :: "string \<Rightarrow> string" where
  "placeholder name = CHR 0x7B # CHR 0x7B # name @ [CHR 0x7D, CHR 0x7D]"

definition replacement :: "State \<Rightarrow> string \<Rightarrow> string" where
  "replacement s name =
     (let parts = split_at (CHR ''.'') name in
      case State_Get s (hd parts) of
        Some stepData \<Rightarrow>
          (let val = navigatePath stepData (tl parts) in
           case as_string val of Some v \<Rightarrow> v | None \<Rightarrow> json_marshal val)
      | None \<Rightarrow> placeholder name)"

text \<open>
  The regular expression \<open>\{\{([a-zA-Z0-9_.]+)\}\}\<close> at the start of a text: its name and the text after the
  match. The matches of \<open>ReplaceAllStringFunc\<close> are the leftmost ones that do not overlap.
\<close>

definition name_char :: "char \<Rightarrow> bool" where
  "name_char c = (let n = of_char c :: nat in
     97 \<le> n \<and> n \<le> 122 \<or> 65 \<le> n \<and> n \<le> 90 \<or> 48 \<le> n \<and> n \<le> 57 \<or> n = 95 \<or> n = 46)"

definition template_at :: "string \<Rightarrow> (string \<times> string) option" where
  "template_at s =
     (if take 2 s = [CHR 0x7B, CHR 0x7B] then
        let name = takeWhile name_char (drop 2 s); rest = dropWhile name_char (drop 2 s) in
        if name \<noteq> [] \<and> take 2 rest = [CHR 0x7D, CHR 0x7D] then Some (name, drop 2 rest) else None
      else None)"

lemma template_at_shorter: "template_at s = Some (name, rest) \<Longrightarrow> length rest < length s"
proof -
  assume "template_at s = Some (name, rest)"
  then have "rest = drop 2 (dropWhile name_char (drop 2 s))" "s \<noteq> []"
    by (auto simp: template_at_def Let_def split: if_splits)
  moreover have "length (dropWhile name_char (drop 2 s)) \<le> length s"
    using length_dropWhile_le [of name_char "drop 2 s"] by simp
  ultimately show ?thesis by (cases s) (auto simp: template_at_def)
qed

function replace_templates :: "(string \<Rightarrow> string) \<Rightarrow> string \<Rightarrow> string" where
  "replace_templates f s =
     (case s of
        [] \<Rightarrow> []
      | c # cs \<Rightarrow>
          (case template_at s of
             Some (name, rest) \<Rightarrow> f name @ replace_templates f rest
           | None \<Rightarrow> c # replace_templates f cs))"
  by pat_completeness auto
termination
  by (relation "measure (\<lambda>(f, s). length s)") (auto dest: template_at_shorter)

declare replace_templates.simps [simp del]

definition resolve_value :: "State \<Rightarrow> any \<Rightarrow> any" where
  "resolve_value s v =
     (case as_string v of Some str \<Rightarrow> StrV (replace_templates (replacement s) str) | None \<Rightarrow> v)"

definition Resolve :: "State \<Rightarrow> gomap \<Rightarrow> gomap" where
  "Resolve s params = map (\<lambda>(k, v). (k, resolve_value s v)) params"

subsection \<open>The scan as a parse\<close>

datatype segment = Lit char | Ref string

function segments :: "string \<Rightarrow> segment list" where
  "segments s =
     (case s of
        [] \<Rightarrow> []
      | c # cs \<Rightarrow>
          (case template_at s of
             Some (name, rest) \<Rightarrow> Ref name # segments rest
           | None \<Rightarrow> Lit c # segments cs))"
  by pat_completeness auto
termination
  by (relation "measure length") (auto dest: template_at_shorter)

declare segments.simps [simp del]

primrec segment_text :: "(string \<Rightarrow> string) \<Rightarrow> segment \<Rightarrow> string" where
  "segment_text f (Lit c) = [c]"
| "segment_text f (Ref name) = f name"

definition is_name :: "string \<Rightarrow> bool" where
  "is_name n \<longleftrightarrow> n \<noteq> [] \<and> list_all name_char n"

lemma template_at_SomeD:
  assumes "template_at s = Some (name, rest)"
  shows "is_name name \<and> s = placeholder name @ rest"
proof -
  let ?t = "drop 2 s" and ?r = "dropWhile name_char (drop 2 s)"
  have a: "take 2 s = [CHR 0x7B, CHR 0x7B]" "take 2 ?r = [CHR 0x7D, CHR 0x7D]"
    "name = takeWhile name_char ?t" "rest = drop 2 ?r" "name \<noteq> []"
    using assms by (auto simp: template_at_def Let_def split: if_splits)
  have "s = take 2 s @ takeWhile name_char ?t @ take 2 ?r @ drop 2 ?r"
    by (metis append_take_drop_id takeWhile_dropWhile_id)
  then have "s = [CHR 0x7B, CHR 0x7B] @ name @ [CHR 0x7D, CHR 0x7D] @ rest"
    by (simp only: a(1,2) a(3,4) [symmetric])
  moreover have "is_name name" using a(3,5) set_takeWhileD [of _ name_char ?t]
    by (auto simp: is_name_def list_all_iff)
  ultimately show ?thesis by (simp add: placeholder_def)
qed

lemma brace_no_name [simp]: "\<not> name_char (CHR 0x7B)" "\<not> name_char (CHR 0x7D)"
  by code_simp+

lemma take2: "take 2 (x # y # zs) = [x, y]" "drop 2 (x # y # zs) = zs"
  by (simp_all add: numeral_2_eq_2)

lemma template_at_placeholder:
  assumes "is_name n"
  shows "template_at (placeholder n @ b) = Some (n, b)"
proof -
  have "takeWhile name_char (n @ CHR 0x7D # CHR 0x7D # b) = n"
    "dropWhile name_char (n @ CHR 0x7D # CHR 0x7D # b) = CHR 0x7D # CHR 0x7D # b"
    using assms by (auto simp: is_name_def list_all_iff takeWhile_append dropWhile_append)
  with assms show ?thesis by (simp add: template_at_def placeholder_def take2 is_name_def)
qed

text \<open>A text that goes on with an opening brace neither makes nor breaks a match to its left.\<close>

lemma template_at_append:
  assumes "a \<noteq> []"
  shows "template_at (a @ CHR 0x7B # t) =
    (case template_at a of None \<Rightarrow> None | Some (n, r) \<Rightarrow> Some (n, r @ CHR 0x7B # t)) \<or>
    a = [CHR 0x7B] \<and> template_at (a @ CHR 0x7B # t) = template_at (CHR 0x7B # CHR 0x7B # t)"
proof (cases "\<exists>u. a = CHR 0x7B # CHR 0x7B # u")
  case False
  then have "take 2 (a @ CHR 0x7B # t) \<noteq> [CHR 0x7B, CHR 0x7B] \<and> take 2 a \<noteq> [CHR 0x7B, CHR 0x7B]
      \<or> a = [CHR 0x7B]"
    using assms by (cases a; cases "tl a") (auto simp: numeral_2_eq_2)
  then show ?thesis by (auto simp: template_at_def)
next
  case True
  then obtain u where u: "a = CHR 0x7B # CHR 0x7B # u" by blast
  show ?thesis
  proof (cases "list_all name_char u")
    case True
    then have d: "dropWhile name_char (u @ CHR 0x7B # t) = CHR 0x7B # t" "dropWhile name_char u = []"
      by (auto simp: list_all_iff dropWhile_append)
    have "template_at a = None"
      unfolding template_at_def u take2 Let_def d(2) by simp
    moreover have "template_at (a @ CHR 0x7B # t) = None"
      unfolding template_at_def u append_Cons take2 Let_def d(1)
      by (cases t) (simp_all add: numeral_2_eq_2)
    ultimately show ?thesis by simp
  next
    case False
    then obtain x where x: "x \<in> set u" "\<not> name_char x" by (auto simp: list_all_iff)
    have w: "takeWhile name_char (u @ CHR 0x7B # t) = takeWhile name_char u"
      "dropWhile name_char (u @ CHR 0x7B # t) = dropWhile name_char u @ CHR 0x7B # t"
      using takeWhile_append1 [of x u name_char] dropWhile_append1 [of x u name_char] x by auto
    have "take 2 (dropWhile name_char u @ CHR 0x7B # t) = [CHR 0x7D, CHR 0x7D] \<longleftrightarrow>
        take 2 (dropWhile name_char u) = [CHR 0x7D, CHR 0x7D]"
      using x by (cases "dropWhile name_char u"; cases "tl (dropWhile name_char u)")
        (auto simp: numeral_2_eq_2 dropWhile_eq_Nil_conv)
    moreover have "take 2 (dropWhile name_char u) = [CHR 0x7D, CHR 0x7D] \<Longrightarrow>
        drop 2 (dropWhile name_char u @ CHR 0x7B # t) = drop 2 (dropWhile name_char u) @ CHR 0x7B # t"
      by (cases "dropWhile name_char u"; cases "tl (dropWhile name_char u)") (auto simp: numeral_2_eq_2)
    ultimately show ?thesis by (auto simp: template_at_def u take2 w Let_def)
  qed
qed

lemma segments_Nil [simp]: "segments [] = []"
  by (simp add: segments.simps)

lemma segments_placeholder: "is_name n \<Longrightarrow> segments (placeholder n @ b) = Ref n # segments b"
  using template_at_placeholder [of n b]
  by (subst segments.simps) (cases "placeholder n @ b", simp_all add: placeholder_def)

lemma segments_append_placeholder:
  assumes "is_name n"
  shows "segments (a @ placeholder n @ b) = segments a @ Ref n # segments b"
proof (induction a rule: length_induct)
  case (1 a)
  show ?case
  proof (cases a)
    case Nil
    with assms show ?thesis by (simp add: segments_placeholder)
  next
    case (Cons c cs)
    obtain t where t: "placeholder n @ b = CHR 0x7B # t" "t = CHR 0x7B # n @ CHR 0x7D # CHR 0x7D # b"
      by (simp add: placeholder_def)
    have three: "template_at (CHR 0x7B # CHR 0x7B # t) = None"
      by (simp add: template_at_def take2 t(2))
    have "template_at [CHR 0x7B] = None" by (simp add: template_at_def)
    with template_at_append [of a t] three Cons
    have at: "template_at (a @ CHR 0x7B # t) =
        (case template_at a of None \<Rightarrow> None | Some (n, r) \<Rightarrow> Some (n, r @ CHR 0x7B # t))" by auto
    show ?thesis
    proof (cases "template_at a")
      case None
      then have "segments (a @ placeholder n @ b) = Lit c # segments (cs @ placeholder n @ b)"
        using at unfolding t(1) by (subst segments.simps) (simp add: Cons)
      moreover have "segments a = Lit c # segments cs"
        using None by (subst segments.simps) (simp add: Cons)
      ultimately show ?thesis using 1 [rule_format, of cs] Cons by simp
    next
      case (Some mr)
      obtain m r where mr: "mr = (m, r)" by (cases mr)
      then have "segments (a @ placeholder n @ b) = Ref m # segments (r @ placeholder n @ b)"
        using at Some unfolding t(1) by (subst segments.simps) (simp add: Cons)
      moreover have "segments a = Ref m # segments r"
        using Some mr by (subst segments.simps) (simp add: Cons)
      ultimately show ?thesis using 1 [rule_format, of r] Some mr template_at_shorter by simp
    qed
  qed
qed

lemma replace_templates_segments:
  "replace_templates f s = concat (map (segment_text f) (segments s))"
proof (induction f s rule: replace_templates.induct)
  case (1 f s)
  then show ?case
    by (subst replace_templates.simps, subst segments.simps) (auto split: list.splits option.splits)
qed

lemma segments_text: "concat (map (segment_text placeholder) (segments s)) = s"
proof (induction s rule: segments.induct)
  case (1 s)
  show ?case
  proof (cases s)
    case (Cons c cs)
    show ?thesis
    proof (cases "template_at s")
      case None
      with 1 Cons show ?thesis by (subst segments.simps) simp
    next
      case (Some nr)
      obtain n r where nr: "nr = (n, r)" by (cases nr)
      with Some template_at_SomeD have "s = placeholder n @ r" by auto
      moreover have "segments s = Ref n # segments r"
        using Some nr Cons by (subst segments.simps) simp
      ultimately show ?thesis using 1(2) [OF Cons Some nr [symmetric]] by simp
    qed
  qed simp
qed
lemma replace_placeholder:
  "is_name n \<Longrightarrow> replace_templates f (a @ placeholder n @ b) =
   replace_templates f a @ f n @ replace_templates f b"
  by (simp add: replace_templates_segments segments_append_placeholder)

lemma replace_identity: "replace_templates placeholder s = s"
  by (simp add: replace_templates_segments segments_text)

lemma Resolve_keys: "map fst (Resolve s params) = map fst params"
  by (induction params) (auto simp: Resolve_def)

lemma map_of_Resolve: "map_of (Resolve s params) k = map_option (resolve_value s) (map_of params k)"
  by (induction params) (auto simp: Resolve_def)

lemma replacement_new: "replacement newState = placeholder"
  by (rule ext) (simp add: replacement_def newState_def State_Get_def Let_def)

text \<open>A field of a result, as the step that follows names it.\<close>

lemma name_chars_dot: "is_name i \<Longrightarrow> is_name f \<Longrightarrow> is_name (i @ CHR ''.'' # f)"
  by (simp add: is_name_def) code_simp

lemma replacement_field:
  assumes "CHR ''.'' \<notin> set i" "CHR ''.'' \<notin> set f"
    and "State_Get s i = Some (ObjV m)" "map_of m f = Some (StrV v)"
  shows "replacement s (i @ CHR ''.'' # f) = v"
  using assms by (simp add: replacement_def split_at_append_sep split_at_no_sep gm_get_def)

subsection \<open>Properties\<close>

text \<open>C25: Template resolution is substitution: a placeholder \<open>{{name}}\<close> is replaced wherever it stands in the text,
  whatever braces precede it, the text on both sides is resolved on its own, and the inserted value is not
  scanned again, so a step's output cannot inject a template.\<close>

theorem resolve_substitutes:
  assumes "is_name n"
  shows "resolve_value s (StrV (a @ placeholder n @ b)) =
    StrV (replace_templates (replacement s) a @ replacement s n @ replace_templates (replacement s) b)"
  using assms by (simp add: resolve_value_def replace_placeholder)

theorem resolve_substitutes_witness:
  "resolve_value [(''fetch'', ObjV [(''body'', StrV ''{{fetch.body}}'')])]
     (StrV (''{'' @ placeholder ''fetch.body'' @ ''}'')) = StrV ''{{{fetch.body}}}''"
proof -
  have n: "is_name ''fetch.body''" by code_simp
  show ?thesis unfolding resolve_substitutes [OF n] by code_simp
qed

end
