(* ===== verification/Actions.thy ===== *)
theory Actions imports Template begin

text \<open>
  The step actions of \<open>internal/worker/service\<close>: \<open>condition.go\<close>, \<open>transform.go\<close>, \<open>wait_action.go\<close>,
  \<open>wait_for_event.go\<close>, \<open>http.go\<close>, and the \<open>Registry\<close> that finds them by name. \<open>script.go\<close> is in
  the theory \<open>Script\<close>; here it is an action the registry takes as a parameter.

  An action gets the resolved parameters and the outside world and gives a result map (\<open>None\<close> is Go's nil
  map) and an error; both can be present, as in \<open>WAIT_FOR_EVENT\<close>.
\<close>

text \<open>
  Library functions the actions call that are not modelled: \<open>strconv.ParseFloat\<close>, \<open>time.ParseDuration\<close>,
  \<open>sha256\<close> in hex, the request validation of \<open>http.NewRequestWithContext\<close>, the case and space tables for
  texts that are not ASCII, and the iteration order of a Go map. \<open>ParseFloat\<close> also reads names of infinities and
  of not-a-number; such texts are outside this model.
\<close>

record lib =
  parse_float :: "string \<Rightarrow> float64 option"
  parse_duration :: "string \<Rightarrow> err + int"
  sha256_hex :: "string \<Rightarrow> string"
  request_error :: "string \<Rightarrow> string \<Rightarrow> err option"
  unicode_upper :: "string \<Rightarrow> string"
  unicode_lower :: "string \<Rightarrow> string"
  unicode_trim :: "string \<Rightarrow> string"
  key_order :: "string list \<Rightarrow> string list"

text \<open>The outside world: the requests sent, the coming replies of HTTP servers (an error, or a status code
  and the body), and for each wait whether its context ends before its time is over.\<close>

record http_request =
  q_method :: string
  q_url :: string
  q_body :: "string option"
  q_headers :: "(string \<times> string) list"

record env =
  requests :: "http_request list"
  replies :: "(err + nat \<times> string) list"
  ctx_ends :: "err option list"

type_synonym action = "gomap \<Rightarrow> env \<Rightarrow> (gomap option \<times> err option) \<times> env"

subsection \<open>condition.go\<close>

text \<open>Comparison of finite doubles by value.\<close>

definition f64_scaled :: "int \<Rightarrow> float64 \<Rightarrow> int" where
  "f64_scaled e f = f64_mant f * 10 ^ nat (f64_exp f - e)"

definition f64_less :: "float64 \<Rightarrow> float64 \<Rightarrow> bool" where
  "f64_less a b = (let e = min (f64_exp a) (f64_exp b) in f64_scaled e a < f64_scaled e b)"

definition f64_eq :: "float64 \<Rightarrow> float64 \<Rightarrow> bool" where
  "f64_eq a b = (let e = min (f64_exp a) (f64_exp b) in f64_scaled e a = f64_scaled e b)"

text \<open>\<open>toFloat\<close>. An \<open>int\<close> in a parameter map is a loop index or an attempt number, far below \<open>2 ^ 53\<close>, so its
  conversion is exact.\<close>

fun toFloat :: "lib \<Rightarrow> any \<Rightarrow> float64 option" where
  "toFloat lb (FloatV f) = Some f"
| "toFloat lb (IntV i) = Some (norm_dec i 0)"
| "toFloat lb (StrV s) = parse_float lb s"
| "toFloat lb v = None"

text \<open>\<open>fmt.Sprintf("%v", v)\<close>. A double is printed with an exponent when the decimal point of its shortest form
  would lie more than 21 places to the right or the exponent is below -4.\<close>

definition show_exp2 :: "int \<Rightarrow> string" where
  "show_exp2 x = (let d = show_nat (nat \<bar>x\<bar>) in
     (if x < 0 then ''e-'' else ''e+'') @ (if length d < 2 then CHR ''0'' # d else d))"

definition sprint_float :: "float64 \<Rightarrow> string" where
  "sprint_float f =
     (let m = f64_mant f; ds = show_nat (nat \<bar>m\<bar>); n = int (length ds); p = n + f64_exp f;
          sign = (if m < 0 then ''-'' else '''')
      in if m = 0 then ''0''
         else if p - 1 < - 4 \<or> 21 \<le> p - 1 then
           sign @ [hd ds] @ (if n = 1 then '''' else CHR ''.'' # tl ds) @ show_exp2 (p - 1)
         else if p \<le> 0 then sign @ ''0.'' @ replicate (nat (- p)) (CHR ''0'') @ ds
         else if n \<le> p then sign @ ds @ replicate (nat (p - n)) (CHR ''0'')
         else sign @ take (nat p) ds @ ''.'' @ drop (nat p) ds)"

fun sprint_v :: "any \<Rightarrow> string" where
  "sprint_v NilV = ''<nil>''"
| "sprint_v (BoolV b) = (if b then ''true'' else ''false'')"
| "sprint_v (IntV i) = show_int i"
| "sprint_v (FloatV f) = sprint_float f"
| "sprint_v (StrV s) = s"
| "sprint_v (StrsV ss) = ''['' @ join_with '' '' ss @ '']''"
| "sprint_v (ListV xs) = ''['' @ join_with '' '' (map sprint_v xs) @ '']''"
| "sprint_v (ObjV m) =
     ''map['' @ join_with '' '' (map (\<lambda>(k, v). k @ '':'' @ v)
       (sort_key fst (map (\<lambda>kv. (fst kv, sprint_v (snd kv))) m))) @ '']''"

definition compare_values ::
    "lib \<Rightarrow> (float64 \<Rightarrow> float64 \<Rightarrow> bool) \<Rightarrow> (string \<Rightarrow> string \<Rightarrow> bool) \<Rightarrow> any \<Rightarrow> any \<Rightarrow> bool" where
  "compare_values lb on_floats on_strings v1 v2 =
     (case (toFloat lb v1, toFloat lb v2) of
        (Some f1, Some f2) \<Rightarrow> on_floats f1 f2
      | _ \<Rightarrow> on_strings (sprint_v v1) (sprint_v v2))"

definition condition_met :: "lib \<Rightarrow> gomap \<Rightarrow> bool" where
  "condition_met lb params =
     (let op = string_or_empty (gm_get params ''operator'');
          v1 = gm_get params ''value_1''; v2 = gm_get params ''value_2'' in
      if op = ''=='' then compare_values lb f64_eq (=) v1 v2
      else if op = ''!='' then compare_values lb (\<lambda>a b. \<not> f64_eq a b) (\<noteq>) v1 v2
      else if op = ''>'' then compare_values lb (\<lambda>a b. f64_less b a) (>) v1 v2
      else if op = ''>='' then compare_values lb (\<lambda>a b. f64_less b a \<or> f64_eq a b) (\<ge>) v1 v2
      else if op = ''<'' then compare_values lb f64_less (<) v1 v2
      else if op = ''<='' then compare_values lb (\<lambda>a b. f64_less a b \<or> f64_eq a b) (\<le>) v1 v2
      else if op = ''contains'' then str_contains (sprint_v v1) (sprint_v v2)
      else as_bool (gm_get params ''is_true'') = Some True)"

definition ConditionAction :: "lib \<Rightarrow> action" where
  "ConditionAction lb params en =
     ((Some [(''condition_met'', BoolV (condition_met lb params)), (''evaluated'', BoolV True)], None), en)"

subsection \<open>transform.go\<close>

definition is_ascii :: "string \<Rightarrow> bool" where
  "is_ascii s = list_all (\<lambda>c. (of_char c :: nat) < 128) s"

definition upper_char :: "char \<Rightarrow> char" where
  "upper_char c = (let n = of_char c :: nat in if 97 \<le> n \<and> n \<le> 122 then char_of (n - 32) else c)"

definition is_space :: "char \<Rightarrow> bool" where
  "is_space c = (let n = of_char c :: nat in n = 32 \<or> 9 \<le> n \<and> n \<le> 13)"

definition ToUpper :: "lib \<Rightarrow> string \<Rightarrow> string" where
  "ToUpper lb s = (if is_ascii s then map upper_char s else unicode_upper lb s)"

definition ToLower :: "lib \<Rightarrow> string \<Rightarrow> string" where
  "ToLower lb s = (if is_ascii s then map lower_char s else unicode_lower lb s)"

definition TrimSpace :: "lib \<Rightarrow> string \<Rightarrow> string" where
  "TrimSpace lb s =
     (if is_ascii s then rev (dropWhile is_space (rev (dropWhile is_space s))) else unicode_trim lb s)"

text \<open>\<open>strings.Split\<close> at a non-empty separator: non-overlapping occurrences from the left. \<open>part\<close> is the
  part read so far, reversed.\<close>

function split_by :: "string \<Rightarrow> string \<Rightarrow> string \<Rightarrow> string list" where
  "split_by sep part s =
     (case s of
        [] \<Rightarrow> [rev part]
      | c # cs \<Rightarrow>
          (if sep \<noteq> [] \<and> starts_with sep s then rev part # split_by sep [] (drop (length sep) s)
           else split_by sep (c # part) cs))"
  by pat_completeness auto
termination
proof (relation "measure (\<lambda>(sep, part, s). length s)", goal_cases)
  case (2 sep part s c cs)
  then show ?case by (cases sep) auto
qed auto

declare split_by.simps [simp del]

text \<open>
  \<open>emailRegex.FindString\<close> for \<open>[a-zA-Z0-9._%+-]+@[a-zA-Z0-9.-]+\.[a-zA-Z]{2,}\<close>: the leftmost match, greedy.
  The first class has no \<open>@\<close>, so the local part is the whole run up to it; of the run after it the longest
  prefix is taken that a dot and at least two letters follow, and all the letters that do.
\<close>

definition is_letter :: "char \<Rightarrow> bool" where
  "is_letter c = (let n = of_char c :: nat in 97 \<le> n \<and> n \<le> 122 \<or> 65 \<le> n \<and> n \<le> 90)"

definition is_digit :: "char \<Rightarrow> bool" where
  "is_digit c = (let n = of_char c :: nat in 48 \<le> n \<and> n \<le> 57)"

definition local_char :: "char \<Rightarrow> bool" where
  "local_char c = (is_letter c \<or> is_digit c \<or> c \<in> set ''._%+-'')"

definition domain_char :: "char \<Rightarrow> bool" where
  "domain_char c = (is_letter c \<or> is_digit c \<or> c \<in> set ''.-'')"

definition domain_end :: "string \<Rightarrow> nat \<Rightarrow> string option" where
  "domain_end s k =
     (let rest = drop k s; tld = takeWhile is_letter (tl rest) in
      if rest \<noteq> [] \<and> hd rest = CHR ''.'' \<and> 2 \<le> length tld then Some (take k s @ CHR ''.'' # tld) else None)"

definition domain_match :: "string \<Rightarrow> string option" where
  "domain_match s =
     (case List.find (\<lambda>k. domain_end s k \<noteq> None) (rev [1..<Suc (length (takeWhile domain_char s))]) of
        None \<Rightarrow> None | Some k \<Rightarrow> domain_end s k)"

fun email_find :: "string \<Rightarrow> string" where
  "email_find [] = ''''"
| "email_find (c # cs) =
     (let l = takeWhile local_char (c # cs); rest = dropWhile local_char (c # cs) in
      if l \<noteq> [] \<and> rest \<noteq> [] \<and> hd rest = CHR ''@'' then
        (case domain_match (tl rest) of Some d \<Rightarrow> l @ CHR ''@'' # d | None \<Rightarrow> email_find cs)
      else email_find cs)"

definition transform_output :: "lib \<Rightarrow> gomap \<Rightarrow> err + any" where
  "transform_output lb params =
     (let operation = string_or_empty (gm_get params ''operation'');
          input = string_or_empty (gm_get params ''input'') in
      if operation = ''UPPERCASE'' then Inr (StrV (ToUpper lb input))
      else if operation = ''LOWERCASE'' then Inr (StrV (ToLower lb input))
      else if operation = ''TRIM'' then Inr (StrV (TrimSpace lb input))
      else if operation = ''SPLIT'' then
        (let sep = string_or_empty (gm_get params ''separator'') in
         Inr (StrsV (split_by (if sep = '''' then '','' else sep) [] input)))
      else if operation = ''EXTRACT_EMAIL'' then Inr (StrV (email_find input))
      else Inl (ErrorString (''unknown transform operation: '' @ operation)))"

definition TransformAction :: "lib \<Rightarrow> action" where
  "TransformAction lb params en =
     (case transform_output lb params of
        Inl e \<Rightarrow> ((None, Some e), en)
      | Inr output \<Rightarrow> ((Some [(''output'', output)], None), en))"

subsection \<open>wait_action.go, wait_for_event.go\<close>

text \<open>\<open>WaitAction\<close>: the \<open>select\<close> returns when the time is over or the context ends first.\<close>

definition WaitAction :: "lib \<Rightarrow> action" where
  "WaitAction lb params en =
     (case as_string (gm_get params ''duration'') of
        None \<Rightarrow> ((None, Some (ErrorString ''missing 'duration' parameter'')), en)
      | Some durationStr \<Rightarrow>
          (case parse_duration lb durationStr of
             Inl e \<Rightarrow> ((None, Some (ErrorString (''invalid duration: '' @ error_string e))), en)
           | Inr duration \<Rightarrow>
               (case ctx_ends en of
                  Some e # es \<Rightarrow> ((None, Some e), en\<lparr>ctx_ends := es\<rparr>)
                | es \<Rightarrow> ((None, None), en\<lparr>ctx_ends := tl es\<rparr>))))"

definition WaitForEventAction :: action where
  "WaitForEventAction params en =
     (let eventName = string_or_empty (gm_get params ''event_name'');
          correlationKey = string_or_empty (gm_get params ''correlation_key'') in
      if eventName = '''' then
        ((None, Some (ErrorString ''event_name is required for WAIT_FOR_EVENT action'')), en)
      else ((Some [(''waiting_for_event'', StrV eventName), (''correlation_key'', StrV correlationKey)],
             Some ErrSuspendExecution), en))"

subsection \<open>http.go\<close>

text \<open>\<open>http.CanonicalHeaderKey\<close>: a key of token characters gets capitals at its start and after each hyphen
  and small letters elsewhere; any other key is kept.\<close>

definition token_char :: "char \<Rightarrow> bool" where
  "token_char c = (is_letter c \<or> is_digit c \<or> c \<in> set ''!#$%&*+-.^_`|~'' \<or> c = CHR 0x27)"

fun canonical_from :: "bool \<Rightarrow> string \<Rightarrow> string" where
  "canonical_from up [] = []"
| "canonical_from up (c # cs) =
     (if up then upper_char c else lower_char c) # canonical_from (c = CHR ''-'') cs"

definition canonical_key :: "string \<Rightarrow> string" where
  "canonical_key k = (if list_all token_char k then canonical_from True k else k)"

fun set_headers :: "string list \<Rightarrow> gomap \<Rightarrow> (string \<times> string) list \<Rightarrow> (string \<times> string) list" where
  "set_headers [] m hs = hs"
| "set_headers (k # ks) m hs =
     (case as_string (gm_get m k) of
        Some v \<Rightarrow> set_headers ks m (gm_set (canonical_key k) v hs)
      | None \<Rightarrow> set_headers ks m hs)"

definition idempotency_text :: "string \<Rightarrow> string \<Rightarrow> int \<Rightarrow> string" where
  "idempotency_text execID stepID attempt = execID @ '':'' @ stepID @ '':'' @ show_int attempt"

definition http_headers :: "lib \<Rightarrow> gomap \<Rightarrow> (string \<times> string) list" where
  "http_headers lb params =
     (let hs = (case as_obj (gm_get params ''headers'') of
                  Some m \<Rightarrow> set_headers (key_order lb (map fst m)) m [] | None \<Rightarrow> []);
          execID = string_or_empty (gm_get params ''_execution_id'');
          stepID = string_or_empty (gm_get params ''_step_id'');
          attempt = (case gm_get params ''_attempt'' of IntV a \<Rightarrow> a | _ \<Rightarrow> 0) in
      if execID \<noteq> '''' \<and> stepID \<noteq> '''' then
        gm_set ''Idempotency-Key'' (sha256_hex lb (idempotency_text execID stepID attempt)) hs
      else hs)"

text \<open>A missing reply means that the exchange never ends; the client's timeout makes that an error. Reading
  the body can fail as well; both failures are an \<open>Inl\<close> reply.\<close>

definition HTTPAction :: "lib \<Rightarrow> action" where
  "HTTPAction lb params en =
     (let m = string_or_empty (gm_get params ''method'');
          method = (if m = '''' then ''GET'' else m);
          url = string_or_empty (gm_get params ''url'');
          body = (case as_string (gm_get params ''body'') of
                    Some b \<Rightarrow> (if b = '''' then None else Some b) | None \<Rightarrow> None) in
      if url = '''' then ((None, Some (ErrorString ''missing 'url' parameter'')), en)
      else case request_error lb method url of
        Some e \<Rightarrow> ((None, Some e), en)
      | None \<Rightarrow>
          (let req = \<lparr>q_method = method, q_url = url, q_body = body, q_headers = http_headers lb params\<rparr>;
               en' = en\<lparr>requests := requests en @ [req], replies := tl (replies en)\<rparr> in
           case replies en of
             [] \<Rightarrow> ((None, Some (ContextError ''context deadline exceeded'')), en')
           | Inl e # rs \<Rightarrow> ((None, Some e), en')
           | Inr (code, text) # rs \<Rightarrow>
               ((Some [(''status_code'', FloatV (norm_dec (int code) 0)), (''body'', StrV text)], None), en')))"

subsection \<open>registry.go\<close>

type_synonym registry = "(string \<times> action) list"

definition Registry_Get :: "registry \<Rightarrow> string \<Rightarrow> err + action" where
  "Registry_Get r actionType =
     (case map_of r actionType of
        None \<Rightarrow> Inl (ErrorString (''action '' @ actionType @ '' is not registered''))
      | Some a \<Rightarrow> Inr a)"

text \<open>The registrations of \<open>NewExecutionEngine\<close>; \<open>script\<close> is absent when the Docker client cannot be made.\<close>

definition engine_registry :: "lib \<Rightarrow> action option \<Rightarrow> registry" where
  "engine_registry lb script =
     (let r = gm_set ''WAIT_FOR_EVENT'' WaitForEventAction
          (gm_set ''SWITCH'' (ConditionAction lb)
          (gm_set ''TRANSFORM'' (TransformAction lb)
          (gm_set ''WAIT'' (WaitAction lb) (gm_set ''HTTP'' (HTTPAction lb) [])))) in
      case script of Some a \<Rightarrow> gm_set ''SCRIPT'' a r | None \<Rightarrow> r)"
end
