(* ===== verification/Engine.thy ===== *)
theory Engine imports Dag Exec_Repo Actions begin

text \<open>
  The execution engine, \<open>internal/worker/service/engine.go\<close>: running the layers of a workflow, the attempts of
  a step, loops, compensation and the resumption of suspended steps.

  The world of the engine is the database session, the outside world of the actions, the engine's own
  \<open>version\<close> counter, the skip map of the current run, the events sent to the broadcaster and the backoff
  sleeps. The goroutines of a layer are run one at a time in an order the model takes as an argument
  (\<open>sched\<close>, a permutation of the layer); events are recorded when their goroutine is started. A context that
  ends shows up as a failing statement (\<open>faults\<close>) or action (\<open>ctx_ends\<close>, \<open>replies\<close>). The version counter
  starts at the version of a row and grows by one per attempt; it is not wrapped at \<open>2 ^ 63\<close>.
\<close>

record world =
  st :: store
  outer :: env
  version :: int
  skips :: "string list"
  events :: "(string \<times> gomap) list"
  slept :: "int list"

definition on_store :: "(store \<Rightarrow> 'a \<times> store) \<Rightarrow> world \<Rightarrow> 'a \<times> world" where
  "on_store f w = (case f (st w) of (x, \<sigma>) \<Rightarrow> (x, w\<lparr>st := \<sigma>\<rparr>))"

definition call_action :: "action \<Rightarrow> gomap \<Rightarrow> world \<Rightarrow> (gomap option \<times> err option) \<times> world" where
  "call_action a params w = (case a params (outer w) of (r, en) \<Rightarrow> (r, w\<lparr>outer := en\<rparr>))"

definition broadcast :: "string \<Rightarrow> gomap \<Rightarrow> world \<Rightarrow> world" where
  "broadcast tenantID event w = w\<lparr>events := events w @ [(tenantID, event)]\<rparr>"

definition nextVersion :: "world \<Rightarrow> int \<times> world" where
  "nextVersion w = (version w + 1, w\<lparr>version := version w + 1\<rparr>)"

text \<open>\<open>time.Now()\<close> as a column value, and a result map as a \<open>JSONB\<close> value and as \<open>any\<close>.\<close>

definition time_now :: "world \<Rightarrow> sqlval" where
  "time_now w = TimeV (Some (clock (st w)))"

definition json_col :: "schema \<Rightarrow> gomap option \<Rightarrow> sqlval" where
  "json_col sc r = JsonV (case r of None \<Rightarrow> sc_nil_json sc | Some m \<Rightarrow> Some (json_roundtrip (ObjV m)))"

definition map_any :: "gomap option \<Rightarrow> any" where
  "map_any r = (case r of None \<Rightarrow> NilV | Some m \<Rightarrow> ObjV m)"

definition result_field :: "gomap option \<Rightarrow> string \<Rightarrow> any" where
  "result_field r k = (case r of None \<Rightarrow> NilV | Some m \<Rightarrow> gm_get m k)"

definition step_event :: "string \<Rightarrow> string \<Rightarrow> string \<Rightarrow> gomap \<Rightarrow> gomap" where
  "step_event execID stepID status extra =
     [(''execution_id'', StrV execID), (''step_id'', StrV stepID), (''status'', StrV status)] @ extra"

definition broadcastStepStatus :: "string \<Rightarrow> string \<Rightarrow> string \<Rightarrow> gomap option \<Rightarrow> world \<Rightarrow> world" where
  "broadcastStepStatus tenantID stepID status output =
     broadcast tenantID (step_event '''' stepID status [(''output'', map_any output)])"

definition markExecutionFailed :: "Execution \<Rightarrow> err \<Rightarrow> world \<Rightarrow> world" where
  "markExecutionFailed execution e w =
     (case nextVersion w of (ver, w1) \<Rightarrow>
        snd (on_store (exec_Update (e_ID execution) ver
          [(''status'', TextV StatusExecutionFailed), (''error_message'', TextV (error_string e)),
           (''completed_at'', time_now w1)]) w1))"

subsection \<open>The attempts of a step (\<open>executeStepWithRetry\<close>)\<close>

text \<open>An attempt ends the method with an error value, or goes to the next round of the loop.\<close>

datatype flow = Return "err option" | Retry

text \<open>
  The iterations of a \<open>LOOP\<close> step: the sub-action runs on every item, with \<open>item\<close> and \<open>index\<close> in a copy of the
  state; the first error ends the loop.
\<close>

fun loop_items :: "action \<Rightarrow> string \<Rightarrow> string \<Rightarrow> State \<Rightarrow> gomap \<Rightarrow> any list \<Rightarrow> nat \<Rightarrow> world \<Rightarrow>
    (err option \<times> any list) \<times> world" where
  "loop_items sub execID stepID state subParams [] idx w = ((None, []), w)"
| "loop_items sub execID stepID state subParams (item # items) idx w =
     (let localState = State_Set (State_Set (State_Copy state) ''item'' item) ''index'' (IntV (int idx));
          localParams = gm_set ''_step_id'' (StrV (stepID @ ''_'' @ show_int (int idx)))
            (gm_set ''_execution_id'' (StrV execID) (Resolve localState subParams)) in
      case call_action sub localParams w of
        ((subResult, Some subErr), w1) \<Rightarrow>
          ((Some (WrapError (''loop iteration '' @ show_int (int idx) @ '' failed: '') subErr), []), w1)
      | ((subResult, None), w1) \<Rightarrow>
          (case loop_items sub execID stepID state subParams items (Suc idx) w1 of
             ((e, rs), w2) \<Rightarrow> ((e, map_any subResult # rs), w2)))"

text \<open>
  Running the action of a step gives either an error that ends the method at once (\<open>Inl\<close>) or the result and
  the error the rest of the attempt looks at. In the \<open>LOOP\<close> branch the sub-action is found by
  \<open>subAction, err := e.registry.Get(...)\<close>, which declares a second \<open>err\<close>: the error of an iteration is
  assigned to it, and the outer \<open>err\<close> stays nil.
\<close>

definition run_loop :: "registry \<Rightarrow> Execution \<Rightarrow> StepDefinition \<Rightarrow> State \<Rightarrow> gomap \<Rightarrow> world \<Rightarrow>
    (err + gomap option \<times> err option) \<times> world" where
  "run_loop reg execution def state params w =
     (let fail = (\<lambda>e. (Inl e, markExecutionFailed execution e w)) in
      case map_of params ''items'' of
        None \<Rightarrow> fail (ErrorString ''missing 'items' parameter for LOOP action'')
      | Some itemsRaw \<Rightarrow>
          (case as_list itemsRaw of
             None \<Rightarrow> fail (ErrorString '''items' parameter must be an array'')
           | Some items \<Rightarrow>
               (let subActionName = string_or_empty (gm_get (d_Parameters def) ''action'');
                    subActionParams = (case as_obj (gm_get (d_Parameters def) ''parameters'') of
                       None \<Rightarrow> [] | Some m \<Rightarrow> m) in
                case Registry_Get reg subActionName of
                  Inl e \<Rightarrow> fail e
                | Inr subAction \<Rightarrow>
                    (case loop_items subAction (e_ID execution) (d_ID def) state subActionParams items 0 w of
                       ((Some innerErr, results), w1) \<Rightarrow> (Inr (None, None), w1)
                     | ((None, results), w1) \<Rightarrow>
                         (Inr (Some [(''results'', if results = [] then NilV else ListV results)], None), w1)))))"

definition run_action :: "registry \<Rightarrow> Execution \<Rightarrow> StepDefinition \<Rightarrow> State \<Rightarrow> gomap \<Rightarrow> world \<Rightarrow>
    (err + gomap option \<times> err option) \<times> world" where
  "run_action reg execution def state params w =
     (if d_Action def = ''LOOP'' then run_loop reg execution def state params w
      else case Registry_Get reg (d_Action def) of
        Inl e \<Rightarrow> (Inl e, markExecutionFailed execution e w)
      | Inr action \<Rightarrow> (case call_action action params w of (r, w1) \<Rightarrow> (Inr r, w1)))"

text \<open>\<open>time.Duration(1<<uint(i)) * time.Second\<close>: both the shift and the product wrap at 64 bits.\<close>

definition backoff :: "nat \<Rightarrow> int" where
  "backoff i = wrap64 (wrap64 (2 ^ i) * 10 ^ 9)"

text \<open>The attempt's end after an action error: suspension, a retry, or the final failure.\<close>

definition suspend_step :: "Execution \<Rightarrow> StepDefinition \<Rightarrow> StepExecution \<Rightarrow> gomap option \<Rightarrow> world \<Rightarrow> world" where
  "suspend_step execution def stepExec result w =
     (let w1 = snd (on_store (step_Update (s_ID stepExec) (s_Version stepExec)
        [(''status'', TextV StatusExecutionSuspended), (''output'', json_col (sch (st w)) result)]) w) in
      broadcast (e_TenantID execution)
        (step_event (e_ID execution) (d_ID def) ''SUSPENDED'' [(''output'', map_any result)]) w1)"

definition fail_attempt :: "Execution \<Rightarrow> StepDefinition \<Rightarrow> StepExecution \<Rightarrow> nat \<Rightarrow> int \<Rightarrow> err \<Rightarrow> world \<Rightarrow>
    flow \<times> world" where
  "fail_attempt execution def stepExec i maxRetries e w =
     (let w1 = snd (on_store (step_Update (s_ID stepExec) (s_Version stepExec)
        [(''retry_count'', NumV (wrap64 (s_RetryCount stepExec + 1))),
         (''error_log'', TextV (error_string e))]) w) in
      if int i < maxRetries - 1 then (Retry, w1\<lparr>slept := slept w1 @ [backoff i]\<rparr>)
      else
        (let w2 = snd (on_store (step_Update (s_ID stepExec) (s_Version stepExec)
           [(''status'', TextV StatusExecutionFailed), (''completed_at'', time_now w1),
            (''error_log'', TextV (error_string e))]) w1) in
         (Return (Some (ErrorString (''step '' @ d_ID def @ '' failed after '' @ show_int maxRetries
             @ '' attempts: '' @ error_string e))),
          broadcast (e_TenantID execution)
            (step_event (e_ID execution) (d_ID def) ''FAILED'' [(''error'', StrV (error_string e))]) w2)))"

text \<open>The end of a successful attempt. \<open>state.Set(def.ID, result)\<close> changes the step's own copy of the
  state, which ends with the method.\<close>

definition finish_step :: "Execution \<Rightarrow> StepDefinition \<Rightarrow> StepExecution \<Rightarrow> gomap option \<Rightarrow> world \<Rightarrow>
    flow \<times> world" where
  "finish_step execution def stepExec result w =
     (let w1 = (case as_string (gm_get (d_Parameters def) ''condition'') of
            Some cond \<Rightarrow>
              (if cond \<noteq> '''' \<and> result_field result ''condition_met'' = BoolV False
               then w\<lparr>skips := d_ID def # skips w\<rparr> else w)
          | None \<Rightarrow> w) in
      case on_store (step_Update (s_ID stepExec) (s_Version stepExec)
          [(''status'', TextV StatusExecutionSuccess), (''completed_at'', time_now w1),
           (''output'', json_col (sch (st w1)) result)]) w1 of
        (e, w2) \<Rightarrow>
          (Return e, broadcast (e_TenantID execution)
             (step_event (e_ID execution) (d_ID def) ''SUCCESS'' [(''output'', map_any result)]) w2))"

definition attempt_params :: "Execution \<Rightarrow> StepDefinition \<Rightarrow> State \<Rightarrow> nat \<Rightarrow> gomap" where
  "attempt_params execution def state i =
     gm_set ''_attempt'' (IntV (int i)) (gm_set ''_step_id'' (StrV (d_ID def))
       (gm_set ''_execution_id'' (StrV (e_ID execution)) (Resolve state (d_Parameters def))))"

text \<open>One round of the loop: read the step's row, claim it (\<open>RUNNING\<close>), run the action, write the outcome.\<close>

definition step_attempt :: "registry \<Rightarrow> Execution \<Rightarrow> StepDefinition \<Rightarrow> State \<Rightarrow> int \<Rightarrow> nat \<Rightarrow> world \<Rightarrow>
    flow \<times> world" where
  "step_attempt reg execution def state maxRetries i w =
     (case on_store (step_GetByExecutionAndStep (e_ID execution) (d_ID def)) w of
        (Inl e, w1) \<Rightarrow>
          (Return (Some (WrapError ''failed to get step execution: '' e)), markExecutionFailed execution e w1)
      | (Inr stepExec, w1) \<Rightarrow>
          (if s_Status stepExec = StatusExecutionSuccess then (Return None, w1)
           else
             (let updateMap = (''status'', TextV StatusExecutionRunning)
                # (if i = 0 then [(''started_at'', time_now w1)] else []) in
              case on_store (step_Update (s_ID stepExec) (s_Version stepExec) updateMap) w1 of
                (Some e, w2) \<Rightarrow> (Return (Some e), w2)
              | (None, w2) \<Rightarrow>
                  (let w3 = broadcast (e_TenantID execution)
                         (step_event (e_ID execution) (d_ID def) ''RUNNING'' []) (snd (nextVersion w2)) in
                   case run_action reg execution def state (attempt_params execution def state i) w3 of
                     (Inl e, w4) \<Rightarrow> (Return (Some e), w4)
                   | (Inr (result, Some e), w4) \<Rightarrow>
                       (if is_suspend e
                        then (Return (Some e), suspend_step execution def stepExec result w4)
                        else fail_attempt execution def stepExec i maxRetries e w4)
                   | (Inr (result, None), w4) \<Rightarrow> finish_step execution def stepExec result w4))))"

definition max_attempts :: "StepDefinition \<Rightarrow> int" where
  "max_attempts def = (if d_MaxRetries def \<le> 0 then 1 else wrap64 (d_MaxRetries def + 1))"

text \<open>The loop \<open>for i := 0; i < maxRetries; i++\<close>, by the number of rounds left.\<close>

fun attempts :: "registry \<Rightarrow> Execution \<Rightarrow> StepDefinition \<Rightarrow> State \<Rightarrow> int \<Rightarrow> nat \<Rightarrow> nat \<Rightarrow> world \<Rightarrow>
    err option \<times> world" where
  "attempts reg execution def state maxRetries i 0 w = (None, w)"
| "attempts reg execution def state maxRetries i (Suc left) w =
     (case step_attempt reg execution def state maxRetries i w of
        (Return e, w1) \<Rightarrow> (e, w1)
      | (Retry, w1) \<Rightarrow> attempts reg execution def state maxRetries (Suc i) left w1)"

definition executeStepWithRetry :: "registry \<Rightarrow> Execution \<Rightarrow> StepDefinition \<Rightarrow> State \<Rightarrow> world \<Rightarrow>
    err option \<times> world" where
  "executeStepWithRetry reg execution def state w =
     attempts reg execution def state (max_attempts def) 0 (nat (max_attempts def)) w"

subsection \<open>Compensation (\<open>runCompensation\<close>)\<close>

definition compensation_params :: "Execution \<Rightarrow> StepDefinition \<Rightarrow> State \<Rightarrow> gomap" where
  "compensation_params execution def state =
     gm_set ''_step_id'' (StrV (d_ID def)) (gm_set ''_execution_id'' (StrV (e_ID execution))
       (case map_of (d_Parameters def) ''parameters'' of
          None \<Rightarrow> []
        | Some pRaw \<Rightarrow> (case as_obj pRaw of None \<Rightarrow> [] | Some pMap \<Rightarrow> Resolve state pMap)))"

text \<open>One compensation step whose target succeeded; every \<open>continue\<close> leaves the world as it is. Errors of the
  updates are only logged.\<close>

definition compensate_step :: "registry \<Rightarrow> Execution \<Rightarrow> StepDefinition \<Rightarrow> State \<Rightarrow> StepExecution list \<Rightarrow>
    world \<Rightarrow> world" where
  "compensate_step reg execution def state stepsDb w =
     (case List.find (\<lambda>s. s_StepID s = d_ID def) stepsDb of
        None \<Rightarrow> w
      | Some stepExec \<Rightarrow>
          (let w1 = snd (on_store (step_Update (s_ID stepExec) (s_Version stepExec)
                 [(''status'', TextV StatusExecutionRunning), (''started_at'', time_now w)]) w);
               w2 = broadcast (e_TenantID execution) (step_event (e_ID execution) (d_ID def) ''RUNNING'' []) w1;
               subActionName = string_or_empty (gm_get (d_Parameters def) ''action'') in
           if subActionName = '''' then w2
           else case Registry_Get reg subActionName of
             Inl e \<Rightarrow> w2
           | Inr subAction \<Rightarrow>
               (case call_action subAction (compensation_params execution def state) w2 of
                  ((result, Some subErr), w3) \<Rightarrow>
                    broadcast (e_TenantID execution)
                      (step_event (e_ID execution) (d_ID def) ''FAILED'' [(''error'', StrV (error_string subErr))])
                      (snd (on_store (step_Update (s_ID stepExec) (s_Version stepExec)
                        [(''status'', TextV StatusExecutionFailed), (''completed_at'', time_now w3),
                         (''error_log'', TextV (error_string subErr))]) w3))
                | ((result, None), w3) \<Rightarrow>
                    broadcast (e_TenantID execution)
                      (step_event (e_ID execution) (d_ID def) ''SUCCESS'' [(''output'', map_any result)])
                      (snd (on_store (step_Update (s_ID stepExec) (s_Version stepExec)
                        [(''status'', TextV StatusExecutionSuccess), (''completed_at'', time_now w3),
                         (''output'', json_col (sch (st w3)) result)]) w3)))))"

fun compensate_steps :: "registry \<Rightarrow> Execution \<Rightarrow> StepDefinition list \<Rightarrow> State \<Rightarrow> StepExecution list \<Rightarrow>
    world \<Rightarrow> world" where
  "compensate_steps reg execution [] state stepsDb w = w"
| "compensate_steps reg execution (def # defs) state stepsDb w =
     compensate_steps reg execution defs state stepsDb
       (if d_Action def = ''COMPENSATION''
          \<and> list_ex (\<lambda>s. s_Status s = StatusExecutionSuccess
               \<and> s_StepID s = string_or_empty (gm_get (d_Parameters def) ''compensates_for'')) stepsDb
        then compensate_step reg execution def state stepsDb w else w)"

definition runCompensation :: "registry \<Rightarrow> Execution \<Rightarrow> StepDefinition list \<Rightarrow> State \<Rightarrow> world \<Rightarrow> world" where
  "runCompensation reg execution steps state w =
     (case on_store (step_ListByExecution (e_ID execution)) w of
        (Inl e, w1) \<Rightarrow> w1
      | (Inr stepsDb, w1) \<Rightarrow>
          (case nextVersion w1 of (ver, w2) \<Rightarrow>
             compensate_steps reg execution steps state stepsDb
               (snd (on_store (exec_Update (e_ID execution) ver
                 [(''status'', TextV StatusExecutionCompensating), (''updated_at'', time_now w2)]) w2))))"

subsection \<open>A run (\<open>RunExecution\<close>)\<close>

text \<open>The goroutine of one step: skipped when a dependency was skipped, run otherwise.\<close>

definition run_step :: "registry \<Rightarrow> Execution \<Rightarrow> State \<Rightarrow> StepDefinition \<Rightarrow> world \<Rightarrow> err option \<times> world" where
  "run_step reg execution state def w =
     (if list_ex (\<lambda>dep. dep \<in> set (skips w)) (d_DependsOn def)
      then (None, broadcastStepStatus (e_TenantID execution) (d_ID def) ''SKIPPED'' None
                    (w\<lparr>skips := d_ID def # skips w\<rparr>))
      else executeStepWithRetry reg execution def (State_Copy state) w)"

text \<open>The steps of a layer and the errors they send to the channel, in that order.\<close>

fun run_layer :: "registry \<Rightarrow> Execution \<Rightarrow> State \<Rightarrow> StepDefinition list \<Rightarrow> world \<Rightarrow> err list \<times> world" where
  "run_layer reg execution state [] w = ([], w)"
| "run_layer reg execution state (def # defs) w =
     (case run_step reg execution state def w of
        (e, w1) \<Rightarrow>
          (case run_layer reg execution state defs w1 of
             (es, w2) \<Rightarrow> ((case e of None \<Rightarrow> es | Some e' \<Rightarrow> e' # es), w2)))"

datatype layer_end = Continue | Suspended | Stopped

fun handle_errors :: "registry \<Rightarrow> Execution \<Rightarrow> StepDefinition list \<Rightarrow> State \<Rightarrow> err list \<Rightarrow> bool \<Rightarrow> world \<Rightarrow>
    layer_end \<times> world" where
  "handle_errors reg execution steps state [] suspended w = ((if suspended then Suspended else Continue), w)"
| "handle_errors reg execution steps state (e # es) suspended w =
     (if is_suspend e then
        (case nextVersion w of (ver, w1) \<Rightarrow>
           handle_errors reg execution steps state es True
             (snd (on_store (exec_Update (e_ID execution) ver
               [(''status'', TextV StatusExecutionSuspended), (''updated_at'', time_now w1)]) w1)))
      else (Stopped, markExecutionFailed execution e (runCompensation reg execution steps state w)))"

fun run_layers :: "(StepDefinition list \<Rightarrow> StepDefinition list) \<Rightarrow> registry \<Rightarrow> Execution \<Rightarrow>
    StepDefinition list \<Rightarrow> State \<Rightarrow> StepDefinition list list \<Rightarrow> world \<Rightarrow> layer_end \<times> world" where
  "run_layers sched reg execution steps state [] w = (Continue, w)"
| "run_layers sched reg execution steps state (layer # layers) w =
     (case run_layer reg execution state (sched layer) w of
        (es, w1) \<Rightarrow>
          (case handle_errors reg execution steps state es False w1 of
             (Continue, w2) \<Rightarrow> run_layers sched reg execution steps state layers w2
           | (r, w2) \<Rightarrow> (r, w2)))"

text \<open>The outputs of the steps that have already succeeded, from the database; a JSON value that is not an
  object (or \<open>null\<close>, which gives a nil map) does not decode into \<open>map[string]any\<close>.\<close>

fun restore_state :: "StepExecution list \<Rightarrow> State \<Rightarrow> State" where
  "restore_state [] s = s"
| "restore_state (x # xs) s =
     restore_state xs
       (if s_Status x = StatusExecutionSuccess then
          (case s_Output x of
             Some (ObjV m) \<Rightarrow> State_Set s (s_StepID x) (ObjV m)
           | Some NilV \<Rightarrow> State_Set s (s_StepID x) NilV
           | _ \<Rightarrow> s)
        else s)"

definition complete_execution :: "Execution \<Rightarrow> world \<Rightarrow> world" where
  "complete_execution execution w =
     (case nextVersion w of (ver, w1) \<Rightarrow>
        snd (on_store (exec_Update (e_ID execution) ver
          [(''status'', TextV StatusExecutionSuccess), (''completed_at'', time_now w1)]) w1))"

definition RunExecution :: "(string list \<Rightarrow> string list) \<Rightarrow> (StepDefinition list \<Rightarrow> StepDefinition list) \<Rightarrow>
    registry \<Rightarrow> Execution \<Rightarrow> Workflow \<Rightarrow> world \<Rightarrow> world" where
  "RunExecution ro sched reg execution workflow w =
     (let w0 = w\<lparr>version := e_Version execution\<rparr> in
      case GetSteps workflow of
        Inl e \<Rightarrow> markExecutionFailed execution
          (ErrorString (''invalid workflow steps: '' @ error_string e)) w0
      | Inr steps \<Rightarrow>
          (case BuildExecutionPlan ro steps of
             Inl e \<Rightarrow> markExecutionFailed execution (ErrorString (''invalid DAG: '' @ error_string e)) w0
           | Inr execPlan \<Rightarrow>
               (case on_store (step_ListByExecution (e_ID execution)) (w0\<lparr>skips := []\<rparr>) of
                  (r, w1) \<Rightarrow>
                    (let state = (case r of Inl e \<Rightarrow> newState | Inr rows \<Rightarrow> restore_state rows newState) in
                     case run_layers sched reg execution steps state execPlan w1 of
                       (Continue, w2) \<Rightarrow> complete_execution execution w2
                     | (stopped, w2) \<Rightarrow> w2))))"

subsection \<open>Resuming a suspended step (\<open>ResumeExecution\<close>)\<close>

definition ResumeExecution :: "string \<Rightarrow> string \<Rightarrow> gomap option \<Rightarrow> world \<Rightarrow> err option \<times> world" where
  "ResumeExecution executionID stepID payload w =
     (case on_store (step_GetByExecutionAndStep executionID stepID) w of
        (Inl e, w1) \<Rightarrow> (Some e, w1)
      | (Inr stepExec, w1) \<Rightarrow>
          (if s_Status stepExec \<noteq> StatusExecutionSuspended
           then (Some (ErrorString ''step is not suspended''), w1)
           else case on_store (step_Update (s_ID stepExec) (s_Version stepExec)
               [(''status'', TextV StatusExecutionSuccess), (''output'', json_col (sch (st w1)) payload),
                (''completed_at'', time_now w1)]) w1 of
             (Some e, w2) \<Rightarrow> (Some e, w2)
           | (None, w2) \<Rightarrow>
               (case on_store (exec_Get [(''id'', TextV executionID)]) w2 of
                  (Inl e, w3) \<Rightarrow> (Some e, w3)
                | (Inr exe, w3) \<Rightarrow>
                    on_store (exec_Update (e_ID exe) (e_Version exe)
                      [(''status'', TextV StatusExecutionPending), (''updated_at'', time_now w3)]) w3)))"


subsection \<open>Facts about the pieces\<close>

lemma on_store_snd: "snd (on_store f w) = w\<lparr>st := snd (f (st w))\<rparr>"
  by (simp add: on_store_def split: prod.splits)

lemma on_store_fst [simp]: "fst (on_store f w) = fst (f (st w))"
  by (simp add: on_store_def split: prod.splits)

lemma read_steps_db: "db (snd (read_steps cs p \<sigma>)) = db \<sigma>"
  using query_result [of _ \<sigma> "fst (read_steps cs p \<sigma>)" "snd (read_steps cs p \<sigma>)"]
  by (simp add: read_steps_def)

lemma read_executions_db: "db (snd (read_executions cs p \<sigma>)) = db \<sigma>"
  using query_result [of _ \<sigma> "fst (read_executions cs p \<sigma>)" "snd (read_executions cs p \<sigma>)"]
  by (simp add: read_executions_def)

lemma snd_case_result:
  "snd (case r of (Inl e, s) \<Rightarrow> (Inl e, s) | (Inr x, s) \<Rightarrow> (Inr (f x), s)) = snd r"
  by (cases r; cases "fst r") auto

lemma step_reads_db:
  "db (snd (step_GetByExecutionAndStep e s \<sigma>)) = db \<sigma>"
  "db (snd (step_ListByExecution e \<sigma>)) = db \<sigma>"
  by (simp_all add: step_GetByExecutionAndStep_def step_ListByExecution_def read_steps_db snd_case_result)

lemma query_session: "same_session \<sigma> (snd (query f \<sigma>))"
  using query_result [of f \<sigma>, OF surjective_pairing] by blast

lemma step_reads_session:
  "same_session \<sigma> (snd (step_GetByExecutionAndStep e s \<sigma>))"
  "same_session \<sigma> (snd (step_ListByExecution e \<sigma>))"
  by (simp_all add: query_session step_GetByExecutionAndStep_def step_ListByExecution_def read_steps_def snd_case_result)

lemma pair_snd: "f = (a, b) \<Longrightarrow> P (snd f) \<Longrightarrow> P b"
  by simp

lemma snd_loop_result:
  "snd (case r of ((Some innerErr, results), w1) \<Rightarrow> (Inr (None, None), w1)
    | ((None, results), w1) \<Rightarrow> (Inr (f results, None), w1)) = snd r"
  by (cases r; cases "fst (fst r)") (auto split: prod.split)

text \<open>An attempt, case by case. \<open>attempt_cases\<close> is the shape every fact about \<open>step_attempt\<close> is proved by.\<close>

lemma attempt_cases [consumes 1, case_names missing already refused stopped failed suspended finished]:
  assumes "step_attempt reg execution def state m i w = (fl, w')"
  obtains
    (missing) e w1 where "on_store (step_GetByExecutionAndStep (e_ID execution) (d_ID def)) w = (Inl e, w1)"
      "fl = Return (Some (WrapError ''failed to get step execution: '' e))" "w' = markExecutionFailed execution e w1"
  | (already) x where "on_store (step_GetByExecutionAndStep (e_ID execution) (d_ID def)) w = (Inr x, w')"
      "s_Status x = StatusExecutionSuccess" "fl = Return None"
  | (refused) x w1 data e where "on_store (step_GetByExecutionAndStep (e_ID execution) (d_ID def)) w = (Inr x, w1)"
      "s_Status x \<noteq> StatusExecutionSuccess" "proper data"
      "on_store (step_Update (s_ID x) (s_Version x) data) w1 = (Some e, w')" "fl = Return (Some e)"
  | (stopped) x w1 data w2 w3 e where
      "on_store (step_GetByExecutionAndStep (e_ID execution) (d_ID def)) w = (Inr x, w1)"
      "s_Status x \<noteq> StatusExecutionSuccess" "proper data" "map_of data ''status'' = Some (TextV StatusExecutionRunning)"
      "on_store (step_Update (s_ID x) (s_Version x) data) w1 = (None, w2)"
      "w3 = broadcast (e_TenantID execution) (step_event (e_ID execution) (d_ID def) ''RUNNING'' []) (snd (nextVersion w2))"
      "run_action reg execution def state (attempt_params execution def state i) w3 = (Inl e, w')"
      "fl = Return (Some e)"
  | (failed) x w1 data w2 w3 result e w4 where
      "on_store (step_GetByExecutionAndStep (e_ID execution) (d_ID def)) w = (Inr x, w1)"
      "s_Status x \<noteq> StatusExecutionSuccess" "proper data" "map_of data ''status'' = Some (TextV StatusExecutionRunning)"
      "on_store (step_Update (s_ID x) (s_Version x) data) w1 = (None, w2)"
      "w3 = broadcast (e_TenantID execution) (step_event (e_ID execution) (d_ID def) ''RUNNING'' []) (snd (nextVersion w2))"
      "run_action reg execution def state (attempt_params execution def state i) w3 = (Inr (result, Some e), w4)"
      "\<not> is_suspend e" "fail_attempt execution def x i m e w4 = (fl, w')"
  | (suspended) x w1 data w2 w3 result e w4 where
      "on_store (step_GetByExecutionAndStep (e_ID execution) (d_ID def)) w = (Inr x, w1)"
      "s_Status x \<noteq> StatusExecutionSuccess" "proper data" "map_of data ''status'' = Some (TextV StatusExecutionRunning)"
      "on_store (step_Update (s_ID x) (s_Version x) data) w1 = (None, w2)"
      "w3 = broadcast (e_TenantID execution) (step_event (e_ID execution) (d_ID def) ''RUNNING'' []) (snd (nextVersion w2))"
      "run_action reg execution def state (attempt_params execution def state i) w3 = (Inr (result, Some e), w4)"
      "is_suspend e" "fl = Return (Some e)" "w' = suspend_step execution def x result w4"
  | (finished) x w1 data w2 w3 result w4 where
      "on_store (step_GetByExecutionAndStep (e_ID execution) (d_ID def)) w = (Inr x, w1)"
      "s_Status x \<noteq> StatusExecutionSuccess" "proper data" "map_of data ''status'' = Some (TextV StatusExecutionRunning)"
      "on_store (step_Update (s_ID x) (s_Version x) data) w1 = (None, w2)"
      "w3 = broadcast (e_TenantID execution) (step_event (e_ID execution) (d_ID def) ''RUNNING'' []) (snd (nextVersion w2))"
      "run_action reg execution def state (attempt_params execution def state i) w3 = (Inr (result, None), w4)"
      "finish_step execution def x result w4 = (fl, w')"
proof -
  obtain rx w1 where get: "on_store (step_GetByExecutionAndStep (e_ID execution) (d_ID def)) w = (rx, w1)"
    by fastforce
  show thesis
  proof (cases rx)
    case (Inl e)
    with assms get show ?thesis by (intro missing) (auto simp: step_attempt_def)
  next
    case (Inr x)
    define data where "data = (''status'', TextV StatusExecutionRunning)
      # (if i = 0 then [(''started_at'', time_now w1)] else [])"
    have data: "proper data" "map_of data ''status'' = Some (TextV StatusExecutionRunning)"
      by (simp_all add: data_def proper_def)
    obtain ru w2 where up: "on_store (step_Update (s_ID x) (s_Version x) data) w1 = (ru, w2)" by fastforce
    define w3 where "w3 = broadcast (e_TenantID execution)
      (step_event (e_ID execution) (d_ID def) ''RUNNING'' []) (snd (nextVersion w2))"
    obtain ra w4 where act: "run_action reg execution def state (attempt_params execution def state i) w3 = (ra, w4)"
      by fastforce
    note body = assms [unfolded step_attempt_def get Inr, simplified, folded data_def, unfolded up, simplified]
    consider "s_Status x = StatusExecutionSuccess" | e where "s_Status x \<noteq> StatusExecutionSuccess" "ru = Some e"
      | e where "s_Status x \<noteq> StatusExecutionSuccess" "ru = None" "ra = Inl e"
      | result e where "s_Status x \<noteq> StatusExecutionSuccess" "ru = None" "ra = Inr (result, Some e)" "is_suspend e"
      | result e where "s_Status x \<noteq> StatusExecutionSuccess" "ru = None" "ra = Inr (result, Some e)" "\<not> is_suspend e"
      | result where "s_Status x \<noteq> StatusExecutionSuccess" "ru = None" "ra = Inr (result, None)"
      by (metis option.exhaust sum.exhaust surj_pair)
    then show ?thesis
    proof cases
      case 1
      with body get Inr show ?thesis by (intro already) auto
    next
      case (2 e)
      with body get Inr data up show ?thesis by (intro refused) auto
    next
      case (3 e)
      with body up act have "fl = Return (Some e)" "w' = w4" by (simp_all add: w3_def [symmetric])
      with 3 get Inr data up act show ?thesis by (intro stopped [OF _ _ data _ w3_def]) auto
    next
      case (4 result e)
      with body up act have "fl = Return (Some e)" "w' = suspend_step execution def x result w4"
        by (simp_all add: w3_def [symmetric])
      with 4 get Inr data up act show ?thesis by (intro suspended [OF _ _ data _ w3_def]) auto
    next
      case (5 result e)
      with body up act have "fail_attempt execution def x i m e w4 = (fl, w')"
        by (simp add: w3_def [symmetric])
      with 5 get Inr data up act show ?thesis by (intro failed [OF _ _ data _ w3_def]) auto
    next
      case (6 result)
      with body up act have "finish_step execution def x result w4 = (fl, w')"
        by (simp add: w3_def [symmetric])
      with 6 get Inr data up act show ?thesis by (intro finished [OF _ _ data _ w3_def]) auto
    qed
  qed
qed

end
