(* ===== verification/Engine_Frame.thy ===== *)
theory Engine_Frame imports Engine begin

text \<open>
  What a run can do to the database, stated once. A run changes the tables through two statements only: \<open>Update\<close>
  of the step repository, and \<open>Update\<close> of the execution repository on its own execution with the next value of
  the engine's counter. A relation on worlds that is reflexive and transitive and that these two keep is kept
  by \<open>RunExecution\<close>, whatever the plan, the actions, the failures and the schedule. The locale \<open>run_frame\<close> proves that;
  its interpretations below give the facts the properties use.
\<close>

locale run_frame =
  fixes R :: "world \<Rightarrow> world \<Rightarrow> bool" and execution :: Execution
  assumes R_trans: "R a b \<Longrightarrow> R b c \<Longrightarrow> R a c"
    and R_idle: "same_session (st w) (st w') \<Longrightarrow> db (st w') = db (st w) \<Longrightarrow> version w \<le> version w' \<Longrightarrow> R w w'"
    and R_step_Update: "proper data \<Longrightarrow> R w (snd (on_store (step_Update i v data) w))"
    and R_next_Update: "nextVersion w = (ver, w1) \<Longrightarrow> proper data \<Longrightarrow>
      R w (snd (on_store (exec_Update (e_ID execution) ver data) w1))"
begin

lemma R_refl [simp]: "R w w"
  by (simp add: R_idle)

lemma R_fields [simp]:
  "R w (w\<lparr>skips := x\<rparr>)" "R w (w\<lparr>events := e\<rparr>)" "R w (w\<lparr>slept := l\<rparr>)" "R w (w\<lparr>outer := en\<rparr>)"
  "R w (broadcast t ev w)" "R w (snd (nextVersion w))"
  by (simp_all add: R_idle broadcast_def nextVersion_def)

lemma R_call_action: "R w (snd (call_action a params w))"
  by (auto simp: call_action_def split: prod.splits)

lemma R_step_reads:
  "R w (snd (on_store (step_GetByExecutionAndStep e s) w))"
  "R w (snd (on_store (step_ListByExecution e) w))"
  by (simp_all add: R_idle on_store_snd step_reads_db step_reads_session)

lemma R_markExecutionFailed: "R w (markExecutionFailed execution e w)"
  using R_next_Update [of w]
  by (simp add: markExecutionFailed_def proper_def split: prod.splits)

lemma R_loop_items: "R w (snd (loop_items sub x y s p items i w))"
proof (induction sub x y s p items i w rule: loop_items.induct)
  case (2 sub x y s p item items i w)
  define params where "params = gm_set ''_step_id'' (StrV (y @ ''_'' @ show_int (int i)))
    (gm_set ''_execution_id'' (StrV x)
      (Resolve (State_Set (State_Set (State_Copy s) ''item'' item) ''index'' (IntV (int i))) p))"
  obtain r e w1 where c: "call_action sub params w = ((r, e), w1)"
    by (cases "call_action sub params w"; cases "fst (call_action sub params w)") auto
  have k: "R w w1" using R_call_action [of w sub params] by (simp add: c)
  show ?case
  proof (cases e)
    case None
    with 2 [OF refl refl] c have "R w1 (snd (loop_items sub x y s p items (Suc i) w1))"
      by (simp add: params_def)
    with k c None show ?thesis
      by (auto simp: Let_def params_def split: prod.splits dest: R_trans)
  next
    case (Some e')
    with k c show ?thesis by (simp add: Let_def params_def)
  qed
qed simp

lemma R_run_loop: "R w (snd (run_loop reg execution def state params w))"
  unfolding run_loop_def Let_def
  by (simp add: R_markExecutionFailed snd_loop_result R_loop_items split: option.split sum.split)

lemma R_run_action: "R w (snd (run_action reg execution def state params w))"
proof (cases "d_Action def = ''LOOP''")
  case True
  then show ?thesis using R_run_loop by (simp add: run_action_def)
next
  case False
  then show ?thesis
    using R_markExecutionFailed R_call_action [of w]
    by (auto simp: run_action_def split: sum.split prod.split) (metis snd_conv)
qed

lemma R_suspend_step: "R w (suspend_step execution def stepExec result w)"
  unfolding suspend_step_def Let_def
  by (rule R_trans [OF R_step_Update R_fields(5)]) (simp add: proper_def)

lemma R_fail_attempt: "R w (snd (fail_attempt execution def stepExec i m e w))"
proof -
  let ?w1 = "snd (on_store (step_Update (s_ID stepExec) (s_Version stepExec)
        [(''retry_count'', NumV (wrap64 (s_RetryCount stepExec + 1))),
         (''error_log'', TextV (error_string e))]) w)"
  have k: "R w ?w1" by (rule R_step_Update) (simp add: proper_def)
  have up: "R w (broadcast t ev (snd (on_store (step_Update j v data) ?w1)))" if "proper data" for t ev j v data
    by (rule R_trans [OF R_trans [OF k R_step_Update [OF that]] R_fields(5)])
  show ?thesis
    unfolding fail_attempt_def Let_def
    using R_trans [OF k R_fields(3)] by (simp add: up proper_def)
qed

lemma R_finish_step: "R w (snd (finish_step execution def stepExec result w))"
proof -
  obtain w1 where w1: "R w w1" "snd (finish_step execution def stepExec result w) =
      broadcast (e_TenantID execution)
        (step_event (e_ID execution) (d_ID def) ''SUCCESS'' [(''output'', map_any result)])
        (snd (on_store (step_Update (s_ID stepExec) (s_Version stepExec)
          [(''status'', TextV StatusExecutionSuccess), (''completed_at'', time_now w1),
           (''output'', json_col (sch (st w1)) result)]) w1))"
    by (rule that [of "case as_string (gm_get (d_Parameters def) ''condition'') of
            Some cond \<Rightarrow>
              (if cond \<noteq> '''' \<and> result_field result ''condition_met'' = BoolV False
               then w\<lparr>skips := d_ID def # skips w\<rparr> else w)
          | None \<Rightarrow> w"]) (auto simp: finish_step_def Let_def split: option.split prod.split)
  have "R w (broadcast t ev (snd (on_store (step_Update i v
      [(''status'', a), (''completed_at'', b), (''output'', c)]) w1)))" for t ev i v a b c
    by (rule R_trans [OF w1(1) R_trans [OF R_step_Update R_fields(5)]]) (simp add: proper_def)
  then show ?thesis using w1(2) by simp
qed

lemma R_step_attempt:
  assumes s: "step_attempt reg execution def state m i w = (fl, w')"
  shows "R w w'"
proof -
  have get: "R w w1" if "on_store (step_GetByExecutionAndStep (e_ID execution) (d_ID def)) w = (r, w1)" for r w1
    using R_step_reads(1) [of w "e_ID execution" "d_ID def"] that by simp
  have claim: "R w w4" if "on_store (step_GetByExecutionAndStep (e_ID execution) (d_ID def)) w = (Inr x, w1)"
      "on_store (step_Update (s_ID x) (s_Version x) data) w1 = (None, w2)" "proper data"
      "w3 = broadcast (e_TenantID execution) ev (snd (nextVersion w2))"
      "run_action reg execution def state p w3 = (ra, w4)" for x w1 data w2 w3 ev p ra w4
  proof -
    have "R w w1" by (rule get [OF that(1)])
    moreover have "R w1 w2" using R_step_Update [OF that(3), of w1 "s_ID x" "s_Version x"] that(2) by simp
    moreover have "R w2 w3" unfolding that(4) by (rule R_trans [OF R_fields(6) R_fields(5)])
    moreover have "R w3 w4" using R_run_action [of w3 reg "def" state p] that(5) by simp
    ultimately show ?thesis by (blast intro: R_trans)
  qed
  from s show ?thesis
  proof (cases rule: attempt_cases)
    case (missing e w1)
    with get R_markExecutionFailed show ?thesis by (blast intro: R_trans)
  next
    case (already x)
    with get show ?thesis by blast
  next
    case (refused x w1 data e)
    have "R w1 w'" using R_step_Update [OF refused(3), of w1 "s_ID x" "s_Version x"] refused(4) by simp
    with get [OF refused(1)] show ?thesis by (rule R_trans)
  next
    case (stopped x w1 data w2 w3 e)
    from claim [OF stopped(1,5,3,6,7)] show ?thesis .
  next
    case (failed x w1 data w2 w3 result e w4)
    have "R w4 w'" using R_fail_attempt [of w4 "def" x i m e] failed(9) by simp
    with claim [OF failed(1,5,3,6,7)] show ?thesis by (rule R_trans)
  next
    case (suspended x w1 data w2 w3 result e w4)
    show ?thesis unfolding suspended(10)
      by (rule R_trans [OF claim [OF suspended(1,5,3,6,7)] R_suspend_step])
  next
    case (finished x w1 data w2 w3 result w4)
    have "R w4 w'" using R_finish_step [of w4 "def" x result] finished(8) by simp
    with claim [OF finished(1,5,3,6,7)] show ?thesis by (rule R_trans)
  qed
qed

lemma R_attempts: "R w (snd (attempts reg execution def state m i n w))"
proof (induction n arbitrary: i w)
  case (Suc n)
  obtain fl w1 where s: "step_attempt reg execution def state m i w = (fl, w1)" by fastforce
  note k = R_step_attempt [OF s]
  show ?case
  proof (cases fl)
    case (Return e)
    with s k show ?thesis by simp
  next
    case Retry
    with s R_trans [OF k Suc.IH] show ?thesis by simp
  qed
qed simp

lemma R_run_step: "R w (snd (run_step reg execution state def w))"
proof (cases "list_ex (\<lambda>dep. dep \<in> set (skips w)) (d_DependsOn def)")
  case True
  have "R w (broadcastStepStatus t i s out (w\<lparr>skips := x\<rparr>))" for t i s out x
    unfolding broadcastStepStatus_def by (rule R_trans [OF R_fields(1) R_fields(5)])
  with True show ?thesis by (simp add: run_step_def)
next
  case False
  then show ?thesis using R_attempts by (simp add: run_step_def executeStepWithRetry_def)
qed

lemma R_run_layer: "R w (snd (run_layer reg execution state defs w))"
proof (induction defs arbitrary: w)
  case (Cons d defs)
  obtain e w1 where r: "run_step reg execution state d w = (e, w1)" by fastforce
  have "R w w1" using R_run_step [of w reg state d] r by simp
  then have "R w (snd (run_layer reg execution state defs w1))" using Cons.IH by (rule R_trans)
  with r show ?case by (cases "run_layer reg execution state defs w1") simp
qed simp

lemma R_compensate_step: "R w (compensate_step reg execution def state stepsDb w)"
proof (cases "List.find (\<lambda>s. s_StepID s = d_ID def) stepsDb")
  case (Some x)
  have up: "R a (broadcast t ev (snd (on_store (step_Update i v data) a)))" if "proper data" for a t ev i v data
    by (rule R_trans [OF R_step_Update [OF that] R_fields(5)])
  define w2 where "w2 = broadcast (e_TenantID execution) (step_event (e_ID execution) (d_ID def) ''RUNNING'' [])
    (snd (on_store (step_Update (s_ID x) (s_Version x)
      [(''status'', TextV StatusExecutionRunning), (''started_at'', time_now w)]) w))"
  have k2: "R w w2" unfolding w2_def by (rule up) (simp add: proper_def)
  have out: "R w (broadcast t ev (snd (on_store (step_Update i v data) w3)))"
    if "call_action a p w2 = (r, w3)" "proper data" for t ev i v data a p r w3
    using R_trans [OF R_trans [OF k2 R_call_action [of w2 a p]] up [OF that(2)]] that(1) by simp
  show ?thesis using k2 Some
    unfolding compensate_step_def w2_def [symmetric] Let_def
    by (auto simp: w2_def [symmetric] proper_def intro!: out split: sum.split prod.split option.split)
qed (simp add: compensate_step_def)

lemma R_compensate_steps: "R w (compensate_steps reg execution defs state stepsDb w)"
proof (induction defs arbitrary: w)
  case (Cons d defs)
  show ?case
    using Cons [of w] R_trans [OF R_compensate_step Cons [of "compensate_step reg execution d state stepsDb w"]]
    by auto
qed simp

lemma R_runCompensation: "R w (runCompensation reg execution steps state w)"
proof -
  obtain r w1 where l: "on_store (step_ListByExecution (e_ID execution)) w = (r, w1)" by fastforce
  have k: "R w w1" using R_step_reads(2) [of w "e_ID execution"] l by simp
  obtain ver w2 where n: "nextVersion w1 = (ver, w2)" by fastforce
  have "R w (compensate_steps reg execution steps state rows
      (snd (on_store (exec_Update (e_ID execution) ver
        [(''status'', TextV StatusExecutionCompensating), (''updated_at'', time_now w2)]) w2)))" for rows
    by (rule R_trans [OF k R_trans [OF R_next_Update [OF n] R_compensate_steps]]) (simp add: proper_def)
  with k l n show ?thesis by (simp add: runCompensation_def split: sum.split)
qed

lemma R_handle_errors: "R w (snd (handle_errors reg execution steps state es suspended w))"
proof (induction es arbitrary: w suspended)
  case (Cons e es)
  show ?case
  proof (cases "is_suspend e")
    case True
    obtain ver w1 where n: "nextVersion w = (ver, w1)" by fastforce
    have k: "R w (snd (on_store (exec_Update (e_ID execution) ver
        [(''status'', TextV StatusExecutionSuspended), (''updated_at'', time_now w1)]) w1))"
      by (rule R_next_Update [OF n]) (simp add: proper_def)
    from R_trans [OF k Cons.IH] True n show ?thesis by simp
  next
    case False
    then show ?thesis using R_trans [OF R_runCompensation R_markExecutionFailed] by simp
  qed
qed simp

lemma R_run_layers: "R w (snd (run_layers sched reg execution steps state layers w))"
proof (induction layers arbitrary: w)
  case (Cons l layers)
  obtain es w1 where r: "run_layer reg execution state (sched l) w = (es, w1)" by fastforce
  obtain en w2 where h: "handle_errors reg execution steps state es False w1 = (en, w2)" by fastforce
  have k2: "R w w2"
    using R_trans [OF R_run_layer [of w reg state "sched l"] R_handle_errors [of _ reg steps state es False]] r h
    by (metis snd_conv)
  from R_trans [OF k2 Cons.IH] k2 r h show ?case by (simp split: layer_end.split)
qed simp

text \<open>The whole run, from the world in which the counter has been set.\<close>

lemma R_RunExecution:
  "R (w\<lparr>version := e_Version execution\<rparr>) (RunExecution ro sched reg execution workflow w)"
proof -
  let ?w0 = "w\<lparr>version := e_Version execution\<rparr>"
  obtain r w1 where l: "on_store (step_ListByExecution (e_ID execution)) (?w0\<lparr>skips := []\<rparr>) = (r, w1)" by fastforce
  have k1: "R ?w0 w1"
    by (rule pair_snd [OF l], rule R_trans [OF R_fields(1) R_step_reads(2)])
  have layers: "R ?w0 (case run_layers sched reg execution steps state p w1 of
      (Continue, w2) \<Rightarrow> complete_execution execution w2 | (stopped, w2) \<Rightarrow> w2)" for steps state p
  proof -
    obtain en w2 where r: "run_layers sched reg execution steps state p w1 = (en, w2)" by fastforce
    have k2: "R ?w0 w2" using R_trans [OF k1 R_run_layers [of w1 sched reg steps state p]] r by simp
    have "R w2 (complete_execution execution w2)"
      using R_next_Update [of w2] by (simp add: complete_execution_def proper_def split: prod.split)
    with k2 r show ?thesis using R_trans by (auto split: layer_end.split)
  qed
  show ?thesis
    using l layers R_markExecutionFailed [of ?w0]
    by (auto simp: RunExecution_def Let_def split: sum.split)
qed

end

subsection \<open>A run leaves the executions table alone\<close>

text \<open>\<open>ahead\<close>: the counter is at least the version of the execution's row, so the next value of the counter misses
  it and every status update of the run is refused.\<close>

definition ahead :: "Execution \<Rightarrow> world \<Rightarrow> bool" where
  "ahead execution w \<longleftrightarrow> execution_inv (st w) \<and>
     (\<forall>r. execution_row (st w) (e_ID execution) = Some r \<longrightarrow> e_Version r \<le> version w)"

definition freezes :: "Execution \<Rightarrow> world \<Rightarrow> world \<Rightarrow> bool" where
  "freezes execution w w' \<longleftrightarrow> (ahead execution w \<longrightarrow> ahead execution w' \<and>
     executions (db (st w')) = executions (db (st w)))"

lemma ahead_same:
  assumes "executions (db (st w')) = executions (db (st w))" "version w \<le> version w'" "ahead execution w"
  shows "ahead execution w'"
  using assms by (fastforce simp: ahead_def execution_inv_def execution_row_def)

lemma step_Update_executions: "executions (db (snd (step_Update i v data \<sigma>))) = executions (db \<sigma>)"
proof (cases "step_Update i v data \<sigma>")
  case (Pair r \<sigma>')
  from step_Update_result [OF this] Pair show ?thesis by (cases r) auto
qed

interpretation frozen: run_frame "freezes execution" execution for execution
proof
  show "freezes execution a b \<Longrightarrow> freezes execution b c \<Longrightarrow> freezes execution a c" for a b c
    by (auto simp: freezes_def)
  show "same_session (st w) (st w') \<Longrightarrow> db (st w') = db (st w) \<Longrightarrow> version w \<le> version w' \<Longrightarrow> freezes execution w w'" for w w'
    using ahead_same [of w' w] by (simp add: freezes_def)
  show "freezes execution w (snd (on_store (step_Update i v data) w))" for i v data w
    using ahead_same [of "snd (on_store (step_Update i v data) w)" w]
    by (simp add: freezes_def on_store_snd step_Update_executions)
  fix w ver w1 and data :: colmap
  assume n: "nextVersion w = (ver, w1)" and p: "proper data"
  obtain r \<sigma>' where u: "exec_Update (e_ID execution) ver data (st w) = (r, \<sigma>')" by fastforce
  have w1: "w1 = w\<lparr>version := ver\<rparr>" "ver = version w + 1" using n by (auto simp: nextVersion_def)
  show "freezes execution w (snd (on_store (exec_Update (e_ID execution) ver data) w1))"
  proof (unfold freezes_def, rule impI)
    assume a: "ahead execution w"
    then have "map_option e_Version (execution_row (st w) (e_ID execution)) \<noteq> Some ver"
      using w1(2) by (auto simp: ahead_def)
    from execs.stale_refused [OF _ p u this] a have "r \<noteq> None" by (simp add: ahead_def)
    with exec_Update_result [OF u]
    have "executions (db (st (snd (on_store (exec_Update (e_ID execution) ver data) w1)))) = executions (db (st w))"
      by (simp add: on_store_snd w1(1) u)
    with ahead_same [OF this _ a] w1 show "ahead execution (snd (on_store (exec_Update (e_ID execution) ver data) w1)) \<and>
        executions (db (st (snd (on_store (exec_Update (e_ID execution) ver data) w1)))) = executions (db (st w))"
      by (simp add: on_store_snd)
  qed
qed

lemma RunExecution_frozen:
  assumes inv: "execution_inv (st w)"
    and v: "\<forall>r. execution_row (st w) (e_ID execution) = Some r \<longrightarrow> e_Version r \<le> e_Version execution"
  shows "executions (db (st (RunExecution ro sched reg execution workflow w))) = executions (db (st w))"
  using frozen.R_RunExecution [of execution w ro sched reg workflow] assms
  by (simp add: freezes_def ahead_def)

subsection \<open>A run never takes an execution back to an earlier version\<close>

text \<open>Without that assumption on versions (a run that starts late, after its execution was recovered and claimed
  again) the table may change, but only forwards.\<close>

definition forwards :: "store \<Rightarrow> store \<Rightarrow> bool" where
  "forwards \<sigma> \<sigma>' \<longleftrightarrow> (execution_inv \<sigma> \<longrightarrow> execution_inv \<sigma>' \<and>
     (\<forall>i r. execution_row \<sigma> i = Some r \<longrightarrow> (\<exists>r'. execution_row \<sigma>' i = Some r' \<and> e_Version r \<le> e_Version r')))"

lemma forwards_same: "executions (db \<sigma>') = executions (db \<sigma>) \<Longrightarrow> forwards \<sigma> \<sigma>'"
  by (simp add: forwards_def execution_inv_def execution_row_def)

lemma forwards_trans: "forwards a b \<Longrightarrow> forwards b c \<Longrightarrow> forwards a c"
  unfolding forwards_def by (meson order_trans)

lemma forwards_exec_Update:
  assumes "proper data"
  shows "forwards \<sigma> (snd (exec_Update i v data \<sigma>))"
proof (unfold forwards_def, intro impI conjI allI)
  assume inv: "execution_inv \<sigma>"
  obtain q \<sigma>' where u: "exec_Update i v data \<sigma> = (q, \<sigma>')" by fastforce
  show "execution_inv (snd (exec_Update i v data \<sigma>))" using execs.upd_inv [OF inv assms u] by (simp add: u)
  fix j r
  assume "execution_row \<sigma> j = Some r"
  moreover have "map_option e_Version (execution_row \<sigma>' j) =
      (if j = i \<and> q = None then Some (v + 1) else map_option e_Version (execution_row \<sigma> j))"
    by (rule execs.upd_version [OF inv assms u])
  moreover have "q = None \<Longrightarrow> map_option e_Version (execution_row \<sigma> i) = Some v"
    using execs.upd_ok_version [OF inv assms, of i v \<sigma>'] u by simp
  ultimately show "\<exists>r'. execution_row (snd (exec_Update i v data \<sigma>)) j = Some r' \<and> e_Version r \<le> e_Version r'"
    unfolding u by (cases "execution_row \<sigma>' j") (auto split: if_splits)
qed

interpretation onward: run_frame "\<lambda>w w'. forwards (st w) (st w')" execution for execution
proof
  show "forwards (st a) (st b) \<Longrightarrow> forwards (st b) (st c) \<Longrightarrow> forwards (st a) (st c)" for a b c
    by (rule forwards_trans)
  show "same_session (st w) (st w') \<Longrightarrow> db (st w') = db (st w) \<Longrightarrow> forwards (st w) (st w')" for w w'
    by (rule forwards_same) simp
  show "forwards (st w) (st (snd (on_store (step_Update i v data) w)))" for w i v data
    by (rule forwards_same) (simp add: on_store_snd step_Update_executions)
  show "nextVersion w = (ver, w1) \<Longrightarrow> proper data \<Longrightarrow>
      forwards (st w) (st (snd (on_store (exec_Update (e_ID execution) ver data) w1)))" for w ver w1 data
    using forwards_exec_Update [of data "st w"] by (auto simp: nextVersion_def on_store_snd)
qed

lemma RunExecution_forwards: "forwards (st w) (st (RunExecution ro sched reg execution workflow w))"
  using onward.R_RunExecution [where w = w and execution = execution and ro = ro and sched = sched and reg = reg
      and workflow = workflow] by simp

text \<open>A run leaves the session as it is, apart from tables and failures: no transaction is open after it.\<close>

interpretation seated: run_frame "\<lambda>w w'. same_session (st w) (st w')" execution for execution
proof
  show "same_session (st a) (st b) \<Longrightarrow> same_session (st b) (st c) \<Longrightarrow> same_session (st a) (st c)" for a b c
    by (rule same_session_trans)
  show "same_session (st w) (st (snd (on_store (step_Update i v data) w)))" for w i v data
    using step_Update_result [where i = i and v = v and data = data and \<sigma> = "st w", OF surjective_pairing] by (simp add: on_store_snd)
  show "nextVersion w = (ver, w1) \<Longrightarrow> same_session (st w) (st (snd (on_store (exec_Update (e_ID execution) ver data) w1)))"
    for w ver w1 data
    using exec_Update_result [where i = "e_ID execution" and v = ver and data = data and \<sigma> = "st w1", OF surjective_pairing]
    by (auto simp: nextVersion_def on_store_snd)
qed

lemma RunExecution_session: "same_session (st w) (st (RunExecution ro sched reg execution workflow w))"
  using seated.R_RunExecution [where w = w and execution = execution and ro = ro and sched = sched and reg = reg
      and workflow = workflow] by simp

end
