(* ===== verification/Engine_Facts.thy ===== *)
theory Engine_Facts imports Engine_Frame begin

text \<open>
  What the engine does to the rows of the steps, how often it runs an action, and the properties of
  \<open>engine.go\<close>: the optimistic lock of every update against the version the engine passes.
\<close>

subsection \<open>Claiming a step\<close>

lemma step_Get_read:
  assumes "on_store (step_GetByExecutionAndStep e s) w = (Inr x, w1)"
  shows "x \<in> set (step_executions (db (st w))) \<and> s_ExecutionID x = e \<and> s_StepID x = s \<and>
    List.find (\<lambda>r. s_ExecutionID r = e \<and> s_StepID r = s) (step_executions (db (st w))) = Some x"
proof -
  obtain \<sigma>' where g: "step_GetByExecutionAndStep e s (st w) = (Inr x, \<sigma>')"
    using assms by (auto simp: on_store_def split: prod.splits)
  then obtain xs where "read_steps [''execution_id'', ''step_id'']
      (\<lambda>sc r. s_ExecutionID r = e \<and> s_StepID r = s) (st w) = (Inr (x # xs), \<sigma>')"
    by (auto simp: step_GetByExecutionAndStep_def db_result_Inr collect_one_Inr)
  from query_result [OF this [unfolded read_steps_def]]
  have f: "filter (\<lambda>r. s_ExecutionID r = e \<and> s_StepID r = s) (step_executions (db (st w))) = x # xs"
    by (auto simp: select_rows_def split: option.splits)
  have "x \<in> set (step_executions (db (st w))) \<and> s_ExecutionID x = e \<and> s_StepID x = s"
    using arg_cong [OF f, of set] by auto
  moreover have "List.find p ys = (case filter p ys of [] \<Rightarrow> None | z # zs \<Rightarrow> Some z)" for p and ys :: "StepExecution list"
    by (induction ys) auto
  ultimately show ?thesis using f by simp
qed

lemma on_store_step_Get_db:
  "on_store (step_GetByExecutionAndStep e s) w = (r, w1) \<Longrightarrow> db (st w1) = db (st w)"
  using step_reads_db(1) [of e s "st w"] by (auto simp: on_store_def split: prod.splits)

lemma on_store_exec_Update_steps:
  "step_executions (db (st (snd (on_store (exec_Update i v data) w)))) = step_executions (db (st w))"
proof (cases "exec_Update i v data (st w)")
  case (Pair r \<sigma>')
  from exec_Update_result [OF this] show ?thesis by (cases r) (auto simp: on_store_snd Pair)
qed

lemma mark_steps: "step_executions (db (st (markExecutionFailed ex e w))) = step_executions (db (st w))"
  by (simp add: markExecutionFailed_def nextVersion_def on_store_exec_Update_steps)

lemma call_action_st [simp]: "st (snd (call_action a p w)) = st w"
  by (simp add: call_action_def split: prod.split)

lemma loop_items_st: "st (snd (loop_items sub x y s p items i w)) = st w"
proof (induction items arbitrary: i w)
  case (Cons item items)
  have c: "st w1 = st w" if "call_action a q w = (r, w1)" for a q r w1
    using that call_action_st [of a q w] by simp
  show ?case
    using Cons by (auto simp: Let_def split: prod.split option.split) (metis c snd_conv)+
qed simp

lemma run_action_steps:
  "step_executions (db (st (snd (run_action reg ex def state p w)))) = step_executions (db (st w))"
proof (cases "d_Action def = ''LOOP''")
  case True
  then show ?thesis
    by (simp add: run_action_def run_loop_def Let_def mark_steps snd_loop_result loop_items_st
        split: option.split sum.split)
next
  case False
  then show ?thesis using call_action_st
    by (auto simp: run_action_def mark_steps split: sum.split prod.split) (metis call_action_st snd_conv)
qed

text \<open>\<open>claim x w w'\<close>: of the steps' rows only that of \<open>x\<close> has changed; it is \<open>RUNNING\<close> with the next version.\<close>

definition claim :: "StepExecution \<Rightarrow> world \<Rightarrow> world \<Rightarrow> bool" where
  "claim x w w' \<longleftrightarrow> step_inv (st w') \<and>
     (\<exists>b. step_row (st w') (s_ID x) = Some b \<and> s_Status b = StatusExecutionRunning
        \<and> s_Version b = s_Version x + 1) \<and>
     (\<forall>j. j \<noteq> s_ID x \<longrightarrow> step_row (st w') j = step_row (st w) j)"

lemma claim_same_rows:
  "claim x w w1 \<Longrightarrow> step_executions (db (st w2)) = step_executions (db (st w1)) \<Longrightarrow> claim x w w2"
  by (simp add: claim_def step_row_def step_inv_def)

text \<open>Once a row is claimed, an update with the version that was read before the claim is refused.\<close>

lemma claim_update_refused:
  assumes c: "claim x w w1" and p: "proper data"
  shows "fst (step_Update (s_ID x) (s_Version x) data (st w1)) \<noteq> None \<and>
    step_executions (db (snd (step_Update (s_ID x) (s_Version x) data (st w1)))) = step_executions (db (st w1))"
proof -
  obtain r \<sigma>' where u: "step_Update (s_ID x) (s_Version x) data (st w1) = (r, \<sigma>')" by fastforce
  have "map_option s_Version (step_row (st w1) (s_ID x)) \<noteq> Some (s_Version x)" "step_inv (st w1)"
    using c by (auto simp: claim_def)
  from stepexecs.stale_refused [OF this(2) p u this(1)] have "r \<noteq> None" by simp
  with step_Update_result [OF u] show ?thesis by (simp add: u)
qed

lemma claim_on_store:
  assumes "claim x w w1" "proper data"
  shows "claim x w (snd (on_store (step_Update (s_ID x) (s_Version x) data) w1))"
  by (rule claim_same_rows [OF assms(1)]) (simp add: on_store_snd claim_update_refused [OF assms])

lemma claim_world [simp]:
  "claim x w (w1\<lparr>slept := l\<rparr>) = claim x w w1" "claim x w (w1\<lparr>skips := k\<rparr>) = claim x w w1"
  "claim x w (broadcast t ev w1) = claim x w w1" "claim x w (snd (nextVersion w1)) = claim x w w1"
  by (simp_all add: claim_def broadcast_def nextVersion_def)

lemma running_claims:
  assumes "step_inv (st w)" "on_store (step_GetByExecutionAndStep e s) w = (Inr x, w1)"
    and "proper data" "map_of data ''status'' = Some (TextV StatusExecutionRunning)"
    and up: "on_store (step_Update (s_ID x) (s_Version x) data) w1 = (None, w2)"
  shows "claim x w w2"
proof -
  have db: "db (st w1) = db (st w)" using on_store_step_Get_db [OF assms(2)] .
  have inv: "step_inv (st w1)" using assms(1) db by (simp add: step_inv_def)
  obtain \<sigma>' where u: "step_Update (s_ID x) (s_Version x) data (st w1) = (None, \<sigma>')" "st w2 = \<sigma>'"
    using up by (auto simp: on_store_def split: prod.splits)
  obtain a b where ab: "step_row (st w1) (s_ID x) = Some a" "step_row \<sigma>' (s_ID x) = Some b"
      "put_row (step_table (sch (st w1))) (clock (st w1)) (versioned (s_Version x) data) a = Inr b"
      "s_Version b = s_Version x + 1" "step_inv \<sigma>'" "\<forall>j. j \<noteq> s_ID x \<longrightarrow> step_row \<sigma>' j = step_row (st w1) j"
    using step_Update_row [OF inv assms(3) [unfolded proper_def] u(1)] by blast
  have "s_Status b = StatusExecutionRunning" by (rule step_assigned_status [OF ab(3) assms(3,4)])
  with ab u(2) db show ?thesis by (auto simp: claim_def step_row_def)
qed
lemma run_action_claim:
  "claim x w w1 \<Longrightarrow> run_action reg ex def state p w1 = (r, w2) \<Longrightarrow> claim x w w2"
  using run_action_steps [of reg ex "def" state p w1] by (auto elim: claim_same_rows)

lemma fail_attempt_claim:
  assumes "claim x w w1" "fail_attempt ex def x i m e w1 = (fl, w2)"
  shows "claim x w w2 \<and> fl \<noteq> Return None"
proof -
  have p: "proper [(''retry_count'', a), (''error_log'', b)]"
    "proper [(''status'', a), (''completed_at'', b), (''error_log'', c)]" for a b c
    by (simp_all add: proper_def)
  note c1 = claim_on_store [OF assms(1) p(1)]
  show ?thesis
    using assms(2) c1 claim_on_store [OF c1 p(2)]
    by (auto simp: fail_attempt_def Let_def split: if_splits)
qed

lemma suspend_step_claim: "claim x w w1 \<Longrightarrow> claim x w (suspend_step ex def x result w1)"
  by (simp add: suspend_step_def claim_on_store proper_def)

lemma finish_step_claim:
  assumes "claim x w w1" "finish_step ex def x result w1 = (fl, w2)"
  shows "claim x w w2 \<and> fl \<noteq> Return None"
proof -
  obtain w1' where w1': "claim x w w1'" "finish_step ex def x result w1 =
     (case on_store (step_Update (s_ID x) (s_Version x)
          [(''status'', TextV StatusExecutionSuccess), (''completed_at'', time_now w1'),
           (''output'', json_col (sch (st w1')) result)]) w1' of
        (e, w2) \<Rightarrow>
          (Return e, broadcast (e_TenantID ex)
             (step_event (e_ID ex) (d_ID def) ''SUCCESS'' [(''output'', map_any result)]) w2))"
    by (rule that [of "case as_string (gm_get (d_Parameters def) ''condition'') of
            Some cond \<Rightarrow>
              (if cond \<noteq> '''' \<and> result_field result ''condition_met'' = BoolV False
               then w1\<lparr>skips := d_ID def # skips w1\<rparr> else w1)
          | None \<Rightarrow> w1"]) (auto simp: finish_step_def Let_def assms(1) split: option.split)
  have p: "proper [(''status'', a), (''completed_at'', b), (''output'', c)]" for a b c by (simp add: proper_def)
  obtain e w3 where u: "on_store (step_Update (s_ID x) (s_Version x)
          [(''status'', TextV StatusExecutionSuccess), (''completed_at'', time_now w1'),
           (''output'', json_col (sch (st w1')) result)]) w1' = (e, w3)" by fastforce
  have "claim x w w3" using claim_on_store [OF w1'(1) p] u by (metis snd_conv)
  moreover have "e \<noteq> None" using claim_update_refused [OF w1'(1) p] u by (metis fst_conv on_store_fst)
  ultimately show ?thesis using assms(2) w1'(2) u by auto
qed

text \<open>An attempt either changes no step row, or claims the row it read. It reports success (\<open>Return None\<close>)
  only for a row that was \<open>SUCCESS\<close> before.\<close>

definition already_succeeded :: "Execution \<Rightarrow> StepDefinition \<Rightarrow> world \<Rightarrow> bool" where
  "already_succeeded ex def w \<longleftrightarrow>
     (\<exists>x \<in> set (step_executions (db (st w))). s_ExecutionID x = e_ID ex \<and> s_StepID x = d_ID def
        \<and> s_Status x = StatusExecutionSuccess)"

lemma attempt_claims:
  assumes inv: "step_inv (st w)" and s: "step_attempt reg ex def state m i w = (fl, w')"
  shows "step_executions (db (st w')) = step_executions (db (st w)) \<and> fl \<noteq> Retry \<and>
      (fl = Return None \<longrightarrow> already_succeeded ex def w)
    \<or> (\<exists>x. x \<in> set (step_executions (db (st w))) \<and> s_ExecutionID x = e_ID ex \<and> s_StepID x = d_ID def \<and>
        s_Status x \<noteq> StatusExecutionSuccess \<and> claim x w w' \<and> fl \<noteq> Return None)"
  using s
proof (cases rule: attempt_cases)
  case (missing e w1)
  then show ?thesis using on_store_step_Get_db [OF missing(1)] by (simp add: mark_steps)
next
  case (already x)
  then show ?thesis
    using on_store_step_Get_db [OF already(1)] step_Get_read [OF already(1)]
    by (auto simp: already_succeeded_def)
next
  case (refused x w1 data e)
  obtain \<sigma>' where u: "step_Update (s_ID x) (s_Version x) data (st w1) = (Some e, \<sigma>')" "st w' = \<sigma>'"
    using refused(4) by (auto simp: on_store_def split: prod.splits)
  have "step_executions (db (st w')) = step_executions (db (st w))"
    using step_Update_result [OF u(1)] u(2) on_store_step_Get_db [OF refused(1)] by simp
  with refused(5) show ?thesis by simp
next
  case (stopped x w1 data w2 w3 e)
  have "claim x w w3" using running_claims [OF inv stopped(1,3,4,5)] by (simp add: stopped(6))
  from run_action_claim [OF this stopped(7)] stopped(2,8) step_Get_read [OF stopped(1)] show ?thesis by blast
next
  case (failed x w1 data w2 w3 result e w4)
  have "claim x w w3" using running_claims [OF inv failed(1,3,4,5)] by (simp add: failed(6))
  from fail_attempt_claim [OF run_action_claim [OF this failed(7)] failed(9)] failed(2) step_Get_read [OF failed(1)]
  show ?thesis by blast
next
  case (suspended x w1 data w2 w3 result e w4)
  have "claim x w w3" using running_claims [OF inv suspended(1,3,4,5)] by (simp add: suspended(6))
  from suspend_step_claim [OF run_action_claim [OF this suspended(7)]] suspended(2,9,10) step_Get_read [OF suspended(1)]
  show ?thesis by blast
next
  case (finished x w1 data w2 w3 result w4)
  have "claim x w w3" using running_claims [OF inv finished(1,3,4,5)] by (simp add: finished(6))
  from finish_step_claim [OF run_action_claim [OF this finished(7)] finished(8)] finished(2) step_Get_read [OF finished(1)]
  show ?thesis by blast
qed

text \<open>Over many attempts and steps: a row stays as it was, or it was not \<open>SUCCESS\<close> and is now \<open>RUNNING\<close> with a
  higher version.\<close>

definition row_progress :: "StepExecution option \<Rightarrow> StepExecution option \<Rightarrow> bool" where
  "row_progress r r' \<longleftrightarrow> r' = r \<or>
     (\<exists>a b. r = Some a \<and> r' = Some b \<and> s_Status a \<noteq> StatusExecutionSuccess
        \<and> s_Status b = StatusExecutionRunning \<and> s_Version a < s_Version b)"

definition progress :: "world \<Rightarrow> world \<Rightarrow> bool" where
  "progress w w' \<longleftrightarrow> step_inv (st w') \<and> (\<forall>j. row_progress (step_row (st w) j) (step_row (st w') j))"

lemma row_progress_trans: "row_progress a b \<Longrightarrow> row_progress b c \<Longrightarrow> row_progress a c"
  by (fastforce simp: row_progress_def)

lemma progress_trans: "progress a b \<Longrightarrow> progress b c \<Longrightarrow> progress a c"
  unfolding progress_def using row_progress_trans by metis

lemma progress_same:
  "step_inv (st w) \<Longrightarrow> step_executions (db (st w')) = step_executions (db (st w)) \<Longrightarrow> progress w w'"
  by (simp add: progress_def row_progress_def step_row_def step_inv_def)

lemma progress_claim:
  assumes "step_inv (st w)" "x \<in> set (step_executions (db (st w)))" "s_Status x \<noteq> StatusExecutionSuccess"
    and "claim x w w'"
  shows "progress w w'"
proof -
  have "step_row (st w) (s_ID x) = Some x"
    using assms(1,2) by (simp add: step_inv_def step_row_def find_unique_key)
  then have "row_progress (step_row (st w) j) (step_row (st w') j)" for j
    using assms(3,4) by (cases "j = s_ID x") (auto simp: claim_def row_progress_def)
  then show ?thesis using assms(4) by (simp add: progress_def claim_def)
qed

lemma attempt_progress:
  "step_inv (st w) \<Longrightarrow> step_attempt reg ex def state m i w = (fl, w') \<Longrightarrow> progress w w'"
  using attempt_claims progress_same progress_claim by metis

lemma progress_succeeded:
  assumes "step_inv (st w)" "progress w w'" "already_succeeded ex def w'"
  shows "already_succeeded ex def w"
proof -
  obtain y where y: "y \<in> set (step_executions (db (st w')))" "s_ExecutionID y = e_ID ex"
    "s_StepID y = d_ID def" "s_Status y = StatusExecutionSuccess"
    using assms(3) by (auto simp: already_succeeded_def)
  have "step_row (st w') (s_ID y) = Some y"
    using assms(2) y(1) by (simp add: progress_def step_inv_def step_row_def find_unique_key)
  moreover have "row_progress (step_row (st w) (s_ID y)) (step_row (st w') (s_ID y))"
    using assms(2) by (simp add: progress_def)
  ultimately have "step_row (st w) (s_ID y) = Some y" using y(4) by (auto simp: row_progress_def)
  then have "y \<in> set (step_executions (db (st w)))" by (auto simp: step_row_def dest: find_SomeD)
  with y show ?thesis by (auto simp: already_succeeded_def)
qed

lemma progress_inv: "progress w w' \<Longrightarrow> step_inv (st w')"
  by (simp add: progress_def)

lemma retry_left:
  assumes "step_attempt reg ex def state m i w = (Retry, w')"
  shows "int i < m - 1"
  using assms
  by (cases rule: attempt_cases) (auto simp: fail_attempt_def finish_step_def Let_def split: if_splits prod.splits)

lemma attempts_progress:
  "step_inv (st w) \<Longrightarrow> int i + int n = m \<Longrightarrow> attempts reg ex def state m i n w = (r, w') \<Longrightarrow>
   progress w w' \<and> (r = None \<longrightarrow> n = 0 \<or> already_succeeded ex def w)"
proof (induction n arbitrary: i w)
  case 0
  then show ?case by (auto intro: progress_same)
next
  case (Suc n)
  obtain fl w1 where s: "step_attempt reg ex def state m i w = (fl, w1)" by fastforce
  note p = attempt_progress [OF Suc.prems(1) s]
  show ?case
  proof (cases fl)
    case (Return e)
    with Suc.prems(3) s have "e = r" "w1 = w'" by auto
    with p Return s attempt_claims [OF Suc.prems(1) s] show ?thesis by auto
  next
    case Retry
    with Suc.prems(3) s have a: "attempts reg ex def state m (Suc i) n w1 = (r, w')" by simp
    have "n \<noteq> 0" using retry_left [of reg ex "def" state m i w w1] s Retry Suc.prems(2) by auto
    moreover have "progress w1 w' \<and> (r = None \<longrightarrow> n = 0 \<or> already_succeeded ex def w1)"
      using Suc.IH [OF progress_inv [OF p] _ a] Suc.prems(2) by simp
    ultimately show ?thesis using progress_trans [OF p] progress_succeeded [OF Suc.prems(1) p] by blast
  qed
qed

lemma execute_progress:
  assumes "step_inv (st w)" "executeStepWithRetry reg ex def state w = (r, w')"
  shows "progress w w' \<and> (r = None \<longrightarrow> max_attempts def \<le> 0 \<or> already_succeeded ex def w)"
proof (cases "max_attempts def \<le> 0")
  case True
  with assms show ?thesis by (auto simp: executeStepWithRetry_def intro: progress_same)
next
  case False
  with attempts_progress [of w 0 "nat (max_attempts def)" "max_attempts def" reg ex "def" state r w'] assms
  show ?thesis by (auto simp: executeStepWithRetry_def)
qed

subsection \<open>Skips and sleeps\<close>

text \<open>Every part of an attempt but its end leaves the skip map and the sleeps alone.\<close>

definition quiet :: "world \<Rightarrow> world \<Rightarrow> bool" where
  "quiet w w' \<longleftrightarrow> skips w' = skips w \<and> slept w' = slept w"

lemma quiet_refl [simp]: "quiet w w"
  by (simp add: quiet_def)

lemma quiet_trans: "quiet a b \<Longrightarrow> quiet b c \<Longrightarrow> quiet a c"
  by (simp add: quiet_def)

lemma quiet_parts [simp]:
  "quiet w (snd (on_store f w))" "quiet w (broadcast t ev w)" "quiet w (snd (nextVersion w))"
  "quiet w (snd (call_action a p w))"
proof -
  show "quiet w (snd (call_action a p w))"
    by (cases "a p (outer w)") (simp add: quiet_def call_action_def)
qed (simp_all add: quiet_def on_store_snd broadcast_def nextVersion_def)

lemma quiet_pair: "on_store f w = (x, w1) \<Longrightarrow> quiet w w1"
  using quiet_parts(1) [of w f] by simp

lemma quiet_mark [simp]: "quiet w (markExecutionFailed ex e w)"
  by (simp add: markExecutionFailed_def quiet_def on_store_snd nextVersion_def)

lemma quiet_loop_items [simp]: "quiet w (snd (loop_items sub x y s p items i w))"
proof (induction items arbitrary: i w)
  case (Cons item items)
  define params where "params = gm_set ''_step_id'' (StrV (y @ ''_'' @ show_int (int i)))
    (gm_set ''_execution_id'' (StrV x)
      (Resolve (State_Set (State_Set (State_Copy s) ''item'' item) ''index'' (IntV (int i))) p))"
  obtain r e w1 where c: "call_action sub params w = ((r, e), w1)"
    by (cases "call_action sub params w"; cases "fst (call_action sub params w)") auto
  have k: "quiet w w1" using quiet_parts(4) [of w sub params] by (simp add: c)
  obtain z w2 where l: "loop_items sub x y s p items (Suc i) w1 = (z, w2)" by fastforce
  have "quiet w w2" using quiet_trans [OF k] Cons [of w1 "Suc i"] l by simp
  with k c l show ?case
    by (cases e; cases z) (simp_all add: Let_def params_def)
qed simp

lemma quiet_run_action:
  assumes "run_action reg ex def state p w = (r, w')"
  shows "quiet w w'"
proof (cases "d_Action def = ''LOOP''")
  case True
  have "quiet w (snd (run_loop reg ex def state p w))"
    unfolding run_loop_def Let_def by (simp add: snd_loop_result split: option.split sum.split)
  with True assms show ?thesis by (simp add: run_action_def)
next
  case False
  show ?thesis
  proof (cases "Registry_Get reg (d_Action def)")
    case (Inl e)
    with False assms show ?thesis by (auto simp: run_action_def)
  next
    case (Inr a)
    with False assms quiet_parts(4) [of w a p] show ?thesis
      by (cases "call_action a p w") (auto simp: run_action_def)
  qed
qed

lemma quiet_claimed:
  assumes "on_store f w = (a, w1)" "on_store g w1 = (b, w2)"
    and "w3 = broadcast t ev (snd (nextVersion w2))" "run_action reg ex def state p w3 = (r, w4)"
  shows "quiet w w4"
  using quiet_pair [OF assms(1)] quiet_pair [OF assms(2)] quiet_run_action [OF assms(4)] assms(3)
  by (simp add: quiet_def broadcast_def nextVersion_def)

lemma attempt_quiet:
  assumes "step_inv (st w)" "step_attempt reg ex def state m i w = (fl, w')"
  shows "slept w' = slept w @ (if fl = Retry then [backoff i] else []) \<and>
    (fl = Retry \<or> fl = Return None \<longrightarrow> skips w' = skips w)"
  using assms(2)
proof (cases rule: attempt_cases)
  case (missing e w1)
  then show ?thesis using quiet_trans [OF quiet_pair [OF missing(1)] quiet_mark] by (simp add: quiet_def)
next
  case (already x)
  then show ?thesis using quiet_pair [OF already(1)] by (simp add: quiet_def)
next
  case (refused x w1 data e)
  then show ?thesis using quiet_trans [OF quiet_pair [OF refused(1)] quiet_pair [OF refused(4)]]
    by (simp add: quiet_def)
next
  case (stopped x w1 data w2 w3 e)
  then show ?thesis using quiet_claimed [OF stopped(1,5,6,7)] by (simp add: quiet_def)
next
  case (failed x w1 data w2 w3 result e w4)
  then show ?thesis using quiet_claimed [OF failed(1,5,6,7)]
    by (auto simp: quiet_def fail_attempt_def Let_def on_store_snd broadcast_def split: if_splits)
next
  case (suspended x w1 data w2 w3 result e w4)
  then show ?thesis using quiet_claimed [OF suspended(1,5,6,7)]
    by (simp add: quiet_def suspend_step_def on_store_snd broadcast_def)
next
  case (finished x w1 data w2 w3 result w4)
  have "claim x w w3" using running_claims [OF assms(1) finished(1,3,4,5)] by (simp add: finished(6))
  from finish_step_claim [OF run_action_claim [OF this finished(7)] finished(8)]
  have "fl \<noteq> Return None" by simp
  then show ?thesis using quiet_claimed [OF finished(1,5,6,7)] finished(8)
    by (auto simp: quiet_def finish_step_def Let_def on_store_def broadcast_def
        split: prod.splits option.splits if_splits)
qed

lemma attempts_quiet:
  "step_inv (st w) \<Longrightarrow> int i + int n = m \<Longrightarrow> attempts reg ex def state m i n w = (r, w') \<Longrightarrow>
   (\<exists>k. k \<le> n - 1 \<and> slept w' = slept w @ map backoff [i..<i + k]) \<and> (r = None \<longrightarrow> skips w' = skips w)"
proof (induction n arbitrary: i w)
  case (Suc n)
  obtain fl w1 where s: "step_attempt reg ex def state m i w = (fl, w1)" by fastforce
  note q = attempt_quiet [OF Suc.prems(1) s]
  show ?case
  proof (cases fl)
    case (Return e)
    with Suc.prems(3) s q show ?thesis by (intro conjI exI [of _ 0]) auto
  next
    case Retry
    with Suc.prems(3) s have a: "attempts reg ex def state m (Suc i) n w1 = (r, w')" by simp
    have n: "n \<noteq> 0" using retry_left [of reg ex "def" state m i w w1] s Retry Suc.prems(2) by auto
    obtain k where k: "k \<le> n - 1" "slept w' = slept w1 @ map backoff [Suc i..<Suc i + k]"
      "r = None \<longrightarrow> skips w' = skips w1"
      using Suc.IH [OF progress_inv [OF attempt_progress [OF Suc.prems(1) s]] _ a] Suc.prems(2) by auto
    have "slept w' = slept w @ map backoff [i..<i + Suc k]"
      using k(2) q Retry by (simp add: upt_rec [of i])
    moreover have "Suc k \<le> Suc n - 1" using k(1) n by simp
    ultimately show ?thesis using k(3) q Retry by auto
  qed
qed simp


subsection \<open>Layers\<close>

lemma run_step_progress:
  assumes "step_inv (st w)" "run_step reg ex state def w = (r, w')"
  shows "progress w w' \<and> (skips w = [] \<longrightarrow> r = None \<longrightarrow> skips w' = [] \<and>
    (max_attempts def \<le> 0 \<or> already_succeeded ex def w))"
proof (cases "list_ex (\<lambda>dep. dep \<in> set (skips w)) (d_DependsOn def)")
  case True
  then have "skips w \<noteq> []" by (auto simp: list_ex_iff)
  moreover have "step_executions (db (st w')) = step_executions (db (st w))"
    using assms(2) True by (auto simp: run_step_def broadcastStepStatus_def broadcast_def)
  ultimately show ?thesis using progress_same [OF assms(1)] by blast
next
  case False
  with assms(2) have e: "executeStepWithRetry reg ex def (State_Copy state) w = (r, w')"
    by (simp add: run_step_def)
  have "r = None \<longrightarrow> skips w' = skips w"
  proof (cases "max_attempts def \<le> 0")
    case True
    with e show ?thesis by (auto simp: executeStepWithRetry_def)
  next
    case False
    with attempts_quiet [OF assms(1), of 0 "nat (max_attempts def)"] e show ?thesis
      by (auto simp: executeStepWithRetry_def)
  qed
  with execute_progress [OF assms(1) e] show ?thesis by auto
qed

lemma run_layer_progress:
  "step_inv (st w) \<Longrightarrow> run_layer reg ex state defs w = (es, w') \<Longrightarrow>
   progress w w' \<and> (skips w = [] \<longrightarrow> es = [] \<longrightarrow> skips w' = [] \<and>
     (\<forall>def \<in> set defs. max_attempts def \<le> 0 \<or> already_succeeded ex def w))"
proof (induction defs arbitrary: w es)
  case Nil
  then show ?case by (auto intro: progress_same)
next
  case (Cons d defs)
  obtain r w1 where r: "run_step reg ex state d w = (r, w1)" by fastforce
  obtain es1 w2 where l: "run_layer reg ex state defs w1 = (es1, w2)" by fastforce
  have out: "es = (case r of None \<Rightarrow> es1 | Some e \<Rightarrow> e # es1)" "w' = w2"
    using Cons.prems(2) r l by auto
  note p = run_step_progress [OF Cons.prems(1) r]
  then have pr: "progress w w1" by blast
  note IH = Cons.IH [OF progress_inv [OF pr] l [folded out(2)]]
  have "skips w' = [] \<and> (\<forall>def \<in> set (d # defs). max_attempts def \<le> 0 \<or> already_succeeded ex def w)"
    if "skips w = []" "es = []"
  proof -
    have "r = None" "es1 = []" using that(2) out(1) by (auto split: option.splits)
    with p IH that(1) out(2) progress_succeeded [OF Cons.prems(1) pr] show ?thesis by auto
  qed
  with IH pr out(2) progress_trans show ?case by blast
qed

lemma handle_errors_continue:
  "handle_errors reg ex steps state es False w = (Continue, w') \<Longrightarrow> es = [] \<and> w' = w"
proof (cases es)
  case (Cons e es')
  have "fst (handle_errors reg ex steps state es True w) \<noteq> Continue" for es w
    by (induction es arbitrary: w) (auto split: prod.split)
  then show "handle_errors reg ex steps state es False w = (Continue, w') \<Longrightarrow> es = [] \<and> w' = w"
    using Cons by (auto split: if_splits prod.splits) (metis fst_conv)
qed simp

lemma compensate_none:
  "\<forall>d \<in> set defs. d_Action d \<noteq> ''COMPENSATION'' \<Longrightarrow> compensate_steps reg ex defs state rows w = w"
  by (induction defs arbitrary: w) auto

lemma compensation_steps:
  assumes "\<forall>d \<in> set steps. d_Action d \<noteq> ''COMPENSATION''"
  shows "step_executions (db (st (runCompensation reg ex steps state w))) = step_executions (db (st w))"
proof -
  obtain r w1 where l: "on_store (step_ListByExecution (e_ID ex)) w = (r, w1)" by fastforce
  have "db (st w1) = db (st w)" using step_reads_db(2) [of "e_ID ex" "st w"] l
    by (auto simp: on_store_def split: prod.splits)
  with l show ?thesis
    by (simp add: runCompensation_def compensate_none [OF assms] nextVersion_def on_store_exec_Update_steps
        split: sum.split)
qed

lemma handle_errors_steps:
  assumes "\<forall>d \<in> set steps. d_Action d \<noteq> ''COMPENSATION''"
  shows "step_executions (db (st (snd (handle_errors reg ex steps state es b w)))) = step_executions (db (st w))"
proof (induction es arbitrary: b w)
  case (Cons e es)
  show ?case
    by (simp add: Cons mark_steps compensation_steps [OF assms] nextVersion_def on_store_exec_Update_steps)
qed simp

lemma run_layers_progress:
  assumes "\<forall>d \<in> set steps. d_Action d \<noteq> ''COMPENSATION''" and s: "\<And>l. set (sched l) = set l"
  shows "step_inv (st w) \<Longrightarrow> run_layers sched reg ex steps state layers w = (en, w') \<Longrightarrow>
   progress w w' \<and> (skips w = [] \<longrightarrow> en = Continue \<longrightarrow>
     (\<forall>def \<in> set (concat layers). max_attempts def \<le> 0 \<or> already_succeeded ex def w))"
proof (induction layers arbitrary: w)
  case Nil
  then show ?case by (auto intro: progress_same)
next
  case (Cons l layers)
  obtain es w1 where r: "run_layer reg ex state (sched l) w = (es, w1)" by fastforce
  obtain e2 w2 where h: "handle_errors reg ex steps state es False w1 = (e2, w2)" by fastforce
  note p = run_layer_progress [OF Cons.prems(1) r]
  have p1: "progress w w1" using p by blast
  have p2: "progress w1 w2"
    using handle_errors_steps [OF assms(1), of reg ex state es False w1] h
    by (intro progress_same [OF progress_inv [OF p1]]) simp
  have p12: "progress w w2" by (rule progress_trans [OF p1 p2])
  show ?case
  proof (cases "e2 = Continue")
    case False
    with Cons.prems(2) r h have "en = e2" "w' = w2" by (auto split: layer_end.splits)
    with p12 False show ?thesis by simp
  next
    case True
    with h handle_errors_continue have es: "es = []" "w2 = w1" by blast+
    have rest: "run_layers sched reg ex steps state layers w2 = (en, w')"
      using Cons.prems(2) r h True by simp
    note IH = Cons.IH [OF progress_inv [OF p12] rest]
    have "\<forall>def \<in> set (concat (l # layers)). max_attempts def \<le> 0 \<or> already_succeeded ex def w"
      if "skips w = []" "en = Continue"
    proof -
      have "\<forall>def \<in> set l. max_attempts def \<le> 0 \<or> already_succeeded ex def w" using p es that(1) s by simp
      moreover have "skips w2 = []" using p es that(1) by simp
      then have "\<forall>def \<in> set (concat layers). max_attempts def \<le> 0 \<or> already_succeeded ex def w2"
        using IH that(2) by blast
      then have "\<forall>def \<in> set (concat layers). max_attempts def \<le> 0 \<or> already_succeeded ex def w"
        using es(2) progress_succeeded [OF Cons.prems(1) p1] by blast
      ultimately show ?thesis by auto
    qed
    with IH p12 progress_trans show ?thesis by blast
  qed
qed

lemma RunExecution_progress:
  assumes inv: "step_inv (st w)" and s: "\<And>l. set (sched l) = set l"
    and c: "\<forall>steps. GetSteps workflow = Inr steps \<longrightarrow> (\<forall>d \<in> set steps. d_Action d \<noteq> ''COMPENSATION'')"
  shows "progress w (RunExecution ro sched reg ex workflow w)"
proof -
  let ?w0 = "w\<lparr>version := e_Version ex\<rparr>"
  have same: "progress w w'" if "step_executions (db (st w')) = step_executions (db (st w))" for w'
    using progress_same [OF inv that] .
  obtain r w1 where l: "on_store (step_ListByExecution (e_ID ex)) (?w0\<lparr>skips := []\<rparr>) = (r, w1)" by fastforce
  have p1: "progress w w1" using step_reads_db(2) [of "e_ID ex" "st w"] l
    by (intro same) (auto simp: on_store_def split: prod.splits)
  have "progress w (case run_layers sched reg ex steps p plan w1 of
      (Continue, w2) \<Rightarrow> complete_execution ex w2 | (stopped, w2) \<Rightarrow> w2)"
    if "GetSteps workflow = Inr steps" for steps p plan
  proof -
    obtain en w2 where r2: "run_layers sched reg ex steps p plan w1 = (en, w2)" by fastforce
    have "\<forall>d \<in> set steps. d_Action d \<noteq> ''COMPENSATION''" using c that by blast
    from run_layers_progress [OF this s progress_inv [OF p1] r2] have "progress w1 w2" by blast
    then have p2: "progress w w2" by (rule progress_trans [OF p1])
    have "progress w2 (complete_execution ex w2)"
      by (intro progress_same [OF progress_inv [OF p2]])
        (simp add: complete_execution_def nextVersion_def on_store_exec_Update_steps)
    with p2 r2 show ?thesis using progress_trans by (auto split: layer_end.split)
  qed
  then show ?thesis using l same [of "markExecutionFailed ex e ?w0" for e]
    by (auto simp: RunExecution_def Let_def mark_steps split: sum.split)
qed


subsection \<open>An action runs only under a claim\<close>

lemma on_store_outer [simp]: "outer (snd (on_store f w)) = outer w"
  by (simp add: on_store_snd)

lemma on_store_outer_pair: "on_store f w = (x, w1) \<Longrightarrow> outer w1 = outer w"
  using on_store_outer [of f w] by simp

lemma mark_outer [simp]: "outer (markExecutionFailed ex e w) = outer w"
  by (simp add: markExecutionFailed_def nextVersion_def)

lemma attempt_runs_under_claim:
  assumes inv: "step_inv (st w)" and s: "step_attempt reg ex def state m i w = (fl, w')"
    and o: "outer w' \<noteq> outer w"
  shows "\<exists>x \<in> set (step_executions (db (st w))). s_ExecutionID x = e_ID ex \<and> s_StepID x = d_ID def \<and>
    s_Status x \<noteq> StatusExecutionSuccess \<and> claim x w w'"
proof -
  from s show ?thesis
  proof (cases rule: attempt_cases)
    case (missing e w1)
    then show ?thesis using o on_store_outer_pair [OF missing(1)] by simp
  next
    case (already x)
    then show ?thesis using o on_store_outer_pair [OF already(1)] by simp
  next
    case (refused x w1 data e)
    then show ?thesis using o on_store_outer_pair [OF refused(1)] on_store_outer_pair [OF refused(4)] by simp
  next
    case (stopped x w1 data w2 w3 e)
    have "claim x w w3" using running_claims [OF inv stopped(1,3,4,5)] by (simp add: stopped(6))
    from run_action_claim [OF this stopped(7)] stopped(2) step_Get_read [OF stopped(1)] show ?thesis by blast
  next
    case (failed x w1 data w2 w3 result e w4)
    have "claim x w w3" using running_claims [OF inv failed(1,3,4,5)] by (simp add: failed(6))
    from fail_attempt_claim [OF run_action_claim [OF this failed(7)] failed(9)] failed(2) step_Get_read [OF failed(1)]
    show ?thesis by blast
  next
    case (suspended x w1 data w2 w3 result e w4)
    have "claim x w w3" using running_claims [OF inv suspended(1,3,4,5)] by (simp add: suspended(6))
    from suspend_step_claim [OF run_action_claim [OF this suspended(7)]] suspended(2,10) step_Get_read [OF suspended(1)]
    show ?thesis by blast
  next
    case (finished x w1 data w2 w3 result w4)
    have "claim x w w3" using running_claims [OF inv finished(1,3,4,5)] by (simp add: finished(6))
    from finish_step_claim [OF run_action_claim [OF this finished(7)] finished(8)] finished(2)
      step_Get_read [OF finished(1)]
    show ?thesis by blast
  qed
qed

subsection \<open>Resuming\<close>

lemma exec_Get_read:
  assumes "exec_Get [(''id'', TextV i)] \<sigma> = (Inr x, \<sigma>')"
  shows "x \<in> set (executions (db \<sigma>)) \<and> e_ID x = i \<and> db \<sigma>' = db \<sigma>"
proof -
  obtain xs where r: "read_executions (map fst [(''id'', TextV i)])
      (\<lambda>sc. row_eq (execution_table sc) [(''id'', TextV i)]) \<sigma> = (Inr (x # xs), \<sigma>')"
    using assms unfolding exec_Get_def db_result_Inr collect_one_Inr by auto
  from query_result [OF r [unfolded read_executions_def]]
  have f: "filter (row_eq (execution_table (sch \<sigma>)) [(''id'', TextV i)]) (executions (db \<sigma>)) = x # xs"
    and d: "db \<sigma>' = db \<sigma>"
    by (auto simp: select_rows_def split: option.splits)
  from arg_cong [OF f, of set] have "x \<in> set (executions (db \<sigma>))"
    "row_eq (execution_table (sch \<sigma>)) [(''id'', TextV i)] x" by auto
  with d show ?thesis by (simp add: row_eq_def execution_table_def execution_get_def)
qed

lemma resume_ok:
  assumes inv: "step_inv (st w)" "execution_inv (st w)"
    and r: "ResumeExecution eid sid payload w = (None, w')"
  shows "\<exists>a b x y. a \<in> set (step_executions (db (st w))) \<and> s_ExecutionID a = eid \<and> s_StepID a = sid \<and>
      s_Status a = StatusExecutionSuspended \<and> step_row (st w') (s_ID a) = Some b \<and>
      s_Status b = StatusExecutionSuccess \<and> JsonV (s_Output b) = json_col (sch (st w)) payload \<and>
      s_Version b = s_Version a + 1 \<and>
      execution_row (st w) eid = Some x \<and> execution_row (st w') eid = Some y \<and>
      e_Status y = StatusExecutionPending \<and> e_Version y = e_Version x + 1 \<and>
      (\<forall>j. j \<noteq> s_ID a \<longrightarrow> step_row (st w') j = step_row (st w) j) \<and>
      (\<forall>j. j \<noteq> eid \<longrightarrow> execution_row (st w') j = execution_row (st w) j)"
proof -
  obtain a w1 where g: "on_store (step_GetByExecutionAndStep eid sid) w = (Inr a, w1)"
      "s_Status a = StatusExecutionSuspended"
    using r by (auto simp: ResumeExecution_def split: prod.splits sum.splits if_splits)
  define d1 where "d1 = [(''status'', TextV StatusExecutionSuccess),
    (''output'', json_col (sch (st w1)) payload), (''completed_at'', time_now w1)]"
  obtain w2 where u1: "on_store (step_Update (s_ID a) (s_Version a) d1) w1 = (None, w2)"
    using r g by (auto simp: ResumeExecution_def d1_def split: prod.splits option.splits)
  obtain x w3 where g2: "on_store (exec_Get [(''id'', TextV eid)]) w2 = (Inr x, w3)"
    using r g u1 by (auto simp: ResumeExecution_def d1_def split: prod.splits sum.splits)
  define d2 where "d2 = [(''status'', TextV StatusExecutionPending), (''updated_at'', time_now w3)]"
  have u2: "on_store (exec_Update (e_ID x) (e_Version x) d2) w3 = (None, w')"
    using r g u1 g2 by (simp add: ResumeExecution_def d1_def d2_def)
  have p: "proper d1" "proper d2" by (simp_all add: d1_def d2_def proper_def)
  have sch1: "sch (st w1) = sch (st w)"
  proof -
    obtain \<sigma> where "step_GetByExecutionAndStep eid sid (st w) = (Inr a, \<sigma>)" "st w1 = \<sigma>"
      using g(1) by (auto simp: on_store_def split: prod.splits)
    then obtain xs where "read_steps [''execution_id'', ''step_id'']
      (\<lambda>sc r. s_ExecutionID r = eid \<and> s_StepID r = sid) (st w) = (Inr (a # xs), st w1)"
      by (auto simp: step_GetByExecutionAndStep_def db_result_Inr collect_one_Inr)
    from query_result [OF this [unfolded read_steps_def]] show ?thesis by (simp add: same_session_def)
  qed
  have db1: "db (st w1) = db (st w)" by (rule on_store_step_Get_db [OF g(1)])
  have inv1: "step_inv (st w1)" using inv(1) db1 by (simp add: step_inv_def)
  obtain \<sigma>2 where s2: "step_Update (s_ID a) (s_Version a) d1 (st w1) = (None, \<sigma>2)" "st w2 = \<sigma>2"
    using u1 by (auto simp: on_store_def split: prod.splits)
  obtain a0 b where ab: "step_row (st w2) (s_ID a) = Some b"
      "put_row (step_table (sch (st w1))) (clock (st w1)) (versioned (s_Version a) d1) a0 = Inr b"
      "s_Version b = s_Version a + 1" "\<forall>j. j \<noteq> s_ID a \<longrightarrow> step_row (st w2) j = step_row (st w1) j"
    using step_Update_row [OF inv1 p(1) [unfolded proper_def] s2(1)] s2(2) by auto
  have b: "s_Status b = StatusExecutionSuccess"
    by (rule step_assigned_status [OF ab(2) p(1)]) (simp add: d1_def)
  obtain j where j: "json_col (sch (st w1)) payload = JsonV j" by (simp add: json_col_def)
  have bo: "s_Output b = j" by (rule step_assigned_output [OF ab(2) p(1)]) (simp add: d1_def j)
  have e2: "executions (db (st w2)) = executions (db (st w))"
    using step_Update_result [OF s2(1)] s2(2) db1 by auto
  obtain \<sigma>3 where s3: "exec_Get [(''id'', TextV eid)] (st w2) = (Inr x, \<sigma>3)" "st w3 = \<sigma>3"
    using g2 by (auto simp: on_store_def split: prod.splits)
  note x = exec_Get_read [OF s3(1)]
  have db3: "db (st w3) = db (st w2)" using x s3(2) by simp
  have inv3: "execution_inv (st w3)" using inv(2) db3 e2 by (simp add: execution_inv_def)
  obtain \<sigma>4 where s4: "exec_Update (e_ID x) (e_Version x) d2 (st w3) = (None, \<sigma>4)" "st w' = \<sigma>4"
    using u2 by (auto simp: on_store_def split: prod.splits)
  obtain x0 y where xy: "execution_row (st w3) eid = Some x0" "e_Version x0 = e_Version x"
      "execution_row (st w') eid = Some y" "e_Version y = e_Version x + 1"
      "put_row (execution_table (sch (st w3))) (clock (st w3)) (versioned (e_Version x) d2) x0 = Inr y"
      "\<forall>j. j \<noteq> eid \<longrightarrow> execution_row (st w') j = execution_row (st w3) j"
    using exec_Update_row [OF inv3 p(2) [unfolded proper_def] s4(1)] s4(2) x by auto
  have y: "e_Status y = StatusExecutionPending"
    by (rule execution_assigned_status [OF xy(5) p(2)]) (simp add: d2_def)
  have "step_executions (db (st w')) = step_executions (db (st w3))"
    using on_store_exec_Update_steps [of "e_ID x" "e_Version x" d2 w3] u2 by simp
  then have "step_row (st w') k = step_row (st w2) k" for k using db3 by (simp add: step_row_def)
  moreover have "execution_row (st w3) k = execution_row (st w) k" for k
    using db3 e2 by (simp add: execution_row_def)
  ultimately show ?thesis
    using g(2) step_Get_read [OF g(1)] ab b bo j sch1 xy y db1
    by (intro exI [of _ a] exI [of _ b] exI [of _ x0] exI [of _ y]) (simp add: step_row_def)
qed

end
