(* ===== verification/Examples.thy ===== *)
theory Examples imports Exec_Repo begin

text \<open>
  A small instance the witnesses evaluate: a tenant, a workflow of two steps (the second reads the output of the
  first), and sessions that hold them.
\<close>

definition demo_tenant :: Tenant where
  "demo_tenant = \<lparr>t_ID = ''t1'', t_Name = ''Acme'', t_CreatedAt = 0, t_UpdatedAt = None, t_IsActive = True\<rparr>"

definition demo_steps :: "StepDefinition list" where
  "demo_steps =
     [zero_step\<lparr>d_ID := ''A'', d_Action := ''TRANSFORM'',
        d_Parameters := [(''operation'', StrV ''UPPERCASE''), (''input'', StrV ''go'')]\<rparr>,
      zero_step\<lparr>d_ID := ''B'', d_Action := ''HTTP'', d_Parameters := [(''url'', StrV ''http://u/{{A.output}}'')],
        d_DependsOn := [''A''], d_MaxRetries := 2\<rparr>]"

definition demo_workflow :: Workflow where
  "demo_workflow = \<lparr>w_ID = ''w1'', w_TenantID = ''t1'', w_Name = ''demo'', w_Description = '''',
     w_DAGDefinition = marshal_steps demo_steps, w_Version = 1, w_IsCurrent = True, w_IsActive = True,
     w_CreatedAt = 0, w_UpdatedAt = None\<rparr>"

lemma demo_GetSteps: "GetSteps demo_workflow = Inr demo_steps"
  by (simp add: GetSteps_def demo_workflow_def unmarshal_marshal_steps int64_def demo_steps_def zero_step_def)

text \<open>A session with rows of all tables and some identifiers to hand out.\<close>

definition demo_session :: "Workflow list \<Rightarrow> Execution list \<Rightarrow> StepExecution list \<Rightarrow> string list \<Rightarrow> store" where
  "demo_session ws es ss us = \<lparr>db = \<lparr>executions = es, step_executions = ss, workflows = ws, tenants = [demo_tenant],
     users = []\<rparr>, snap = None, aborted = False, locked = [], faults = [], clock = 2000, uuids = us, sch = struct_schema\<rparr>"

end
