(* ===== verification/Engine_Properties.thy ===== *)
theory Engine_Properties imports Engine_Facts Examples begin

text \<open>
  The properties of the engine, with an example workflow of two steps on which they are instantiated.
\<close>

definition demo_lib :: lib where
  "demo_lib = \<lparr>parse_float = (\<lambda>s. None), parse_duration = (\<lambda>s. Inr 0), sha256_hex = (\<lambda>s. s),
     request_error = (\<lambda>m u. None), unicode_upper = (\<lambda>s. s), unicode_lower = (\<lambda>s. s),
     unicode_trim = (\<lambda>s. s), key_order = (\<lambda>ks. ks)\<rparr>"

definition demo_world :: "string \<Rightarrow> world" where
  "demo_world status = \<lparr>st = demo_store [demo_execution] [demo_step ''A'' ''TRANSFORM'' status, demo_step ''B'' ''HTTP'' status],
     outer = \<lparr>requests = [], replies = [], ctx_ends = []\<rparr>, version = 0, skips = [], events = [], slept = []\<rparr>"

lemma demo_inv: "step_inv (st (demo_world s))" "execution_inv (st (demo_world s))"
  by (simp_all add: demo_world_def demo_store_def demo_step_def demo_execution_def step_inv_def
      execution_inv_def int4_def)



text \<open>C20: A run of a workflow without compensation steps never writes the outcome of a step: a step's row stays as
  it was, or was not \<open>SUCCESS\<close> and becomes \<open>RUNNING\<close> with a higher version. The updates to \<open>SUCCESS\<close>,
  \<open>FAILED\<close>, \<open>SUSPENDED\<close> and of the retry count use the version read before the claim, which the claim has
  already replaced, and are all refused.\<close>

theorem run_never_finishes_steps:
  assumes "step_inv (st w)" "\<And>l. set (sched l) = set l"
    and "\<forall>steps. GetSteps workflow = Inr steps \<longrightarrow> (\<forall>d \<in> set steps. d_Action d \<noteq> ''COMPENSATION'')"
  shows "row_progress (step_row (st w) j) (step_row (st (RunExecution ro sched reg execution workflow w)) j)"
  using RunExecution_progress [OF assms] by (simp add: progress_def)

theorem run_never_finishes_steps_witness:
  "row_progress (Some (demo_step ''A'' ''TRANSFORM'' ''PENDING''))
     (step_row (st (RunExecution id id (engine_registry demo_lib None) demo_execution demo_workflow
        (demo_world ''PENDING''))) ''sA'')"
proof -
  have "\<forall>steps. GetSteps demo_workflow = Inr steps \<longrightarrow> (\<forall>d \<in> set steps. d_Action d \<noteq> ''COMPENSATION'')"
    by (simp add: demo_GetSteps) (simp add: demo_steps_def)
  from run_never_finishes_steps [OF demo_inv(1) _ this, of id "''PENDING''" "''sA''" id
      "engine_registry demo_lib None" demo_execution]
  show ?thesis by (simp add: demo_world_def demo_store_def step_row_def demo_step_def)
qed

text \<open>The engine reports a step as done (\<open>executeStepWithRetry\<close> returns nil) only when the step had already
  succeeded before the call or no attempt was made at all; a step whose action has just succeeded makes it
  return the conflict of its own last update.\<close>

lemma step_done_only_if_already:
  assumes "step_inv (st w)" "executeStepWithRetry reg execution def state w = (None, w')"
  shows "max_attempts def \<le> 0 \<or> already_succeeded execution def w"
  using execute_progress [OF assms] by simp



text \<open>C3: An action runs only under a claim: if an attempt touches the outside world, the step had not succeeded
  and the attempt has moved its row to \<open>RUNNING\<close> with the next version and no other step row. Two workers that
  read the same version can therefore not both run the action.\<close>

theorem action_runs_under_claim:
  assumes "step_inv (st w)" "step_attempt reg execution def state m i w = (fl, w')" "outer w' \<noteq> outer w"
  shows "\<exists>x \<in> set (step_executions (db (st w))). s_ExecutionID x = e_ID execution \<and> s_StepID x = d_ID def \<and>
    s_Status x \<noteq> StatusExecutionSuccess \<and>
    (\<exists>b. step_row (st w') (s_ID x) = Some b \<and> s_Status b = StatusExecutionRunning \<and> s_Version b = s_Version x + 1) \<and>
    (\<forall>j. j \<noteq> s_ID x \<longrightarrow> step_row (st w') j = step_row (st w) j)"
  using attempt_runs_under_claim [OF assms] unfolding claim_def by blast

theorem action_runs_under_claim_witness:
  "\<exists>x \<in> set (step_executions (db (st (demo_world ''PENDING'')))). s_StepID x = ''B'' \<and>
     s_Status x \<noteq> StatusExecutionSuccess"
proof -
  have "requests (outer (snd (step_attempt (engine_registry demo_lib None) demo_execution (demo_steps ! 1) newState 3 0
      (demo_world ''PENDING'')))) \<noteq> []" by code_simp
  then have o: "outer (snd (step_attempt (engine_registry demo_lib None) demo_execution (demo_steps ! 1) newState 3 0
      (demo_world ''PENDING''))) \<noteq> outer (demo_world ''PENDING'')"
    by (auto simp: demo_world_def)
  from action_runs_under_claim [OF demo_inv(1) surjective_pairing o]
  show ?thesis by (auto simp: demo_steps_def)
qed

lemma backoff_exact: "i \<le> 33 \<Longrightarrow> backoff i = 2 ^ i * 10 ^ 9"
proof -
  assume i: "i \<le> 33"
  then have "(2::int) ^ i \<le> 2 ^ 33" by (intro power_increasing) auto
  moreover have "(0::int) < 2 ^ i" by simp
  ultimately have a: "- (2 ^ 63) \<le> (2::int) ^ i" "(2::int) ^ i < 2 ^ 63"
    "- (2 ^ 63) \<le> (2::int) ^ i * 10 ^ 9" "(2::int) ^ i * 10 ^ 9 < 2 ^ 63"
    by (simp_all, linarith+)
  show ?thesis unfolding backoff_def wrap64_id [OF a(1,2)] wrap64_id [OF a(3,4)] ..
qed

text \<open>Retries are bounded and spaced exponentially: the sleeps of one step are a prefix of the sequence
  \<open>backoff 0, backoff 1, \<dots>\<close> of length at most \<open>MaxRetries\<close>; \<open>backoff i\<close> is \<open>2 ^ i\<close> seconds up to \<open>i = 33\<close>, and from
  the 64-bit overflow at \<open>i = 34\<close> the duration is negative, so the retry follows at once.\<close>

lemma backoff_schedule:
  assumes "step_inv (st w)" "executeStepWithRetry reg execution def state w = (r, w')"
  shows "(\<exists>k. int k \<le> max 0 (d_MaxRetries def) \<and> slept w' = slept w @ map backoff [0..<k]) \<and>
    (\<forall>i \<le> 33. backoff i = 2 ^ i * 10 ^ 9) \<and> backoff 34 < 0"
proof -
  have "\<exists>k. int k \<le> max 0 (d_MaxRetries def) \<and> slept w' = slept w @ map backoff [0..<k]"
  proof (cases "max_attempts def \<le> 0")
    case True
    with assms(2) show ?thesis by (intro exI [of _ 0]) (auto simp: executeStepWithRetry_def)
  next
    case False
    then obtain k where k: "k \<le> nat (max_attempts def) - 1" "slept w' = slept w @ map backoff [0..<k]"
      using attempts_quiet [OF assms(1), of 0 "nat (max_attempts def)" "max_attempts def" reg execution "def" state r w']
        assms(2)
      by (auto simp: executeStepWithRetry_def)
    have "max_attempts def \<le> max 0 (d_MaxRetries def) + 1"
    proof (cases "d_MaxRetries def \<le> 0")
      case f: False
      have "wrap64 (x + 1) \<le> x + 1" if "0 \<le> x" for x :: int
      proof -
        have "(x + 1 + 2 ^ 63) mod 2 ^ 64 \<le> x + 1 + 2 ^ 63" using that by (intro zmod_le_nonneg_dividend) auto
        then show ?thesis by (simp add: wrap64_def)
      qed
      with f show ?thesis by (simp add: max_attempts_def)
    qed (simp add: max_attempts_def)
    with k False show ?thesis by (intro exI [of _ k]) auto
  qed
  moreover have "backoff 34 < 0" by code_simp
  ultimately show ?thesis using backoff_exact by blast
qed

text \<open>The events of an attempt.\<close>

lemma on_store_events: "on_store f w = (x, w1) \<Longrightarrow> events w1 = events w"
  by (auto simp: on_store_def split: prod.splits)

lemma mark_events [simp]: "events (markExecutionFailed ex e w) = events w"
  by (simp add: markExecutionFailed_def nextVersion_def on_store_snd)

lemma loop_items_events: "events (snd (loop_items sub x y s p items i w)) = events w"
proof (induction items arbitrary: i w)
  case (Cons item items)
  have c: "events w1 = events w" if "call_action a q w = (r, w1)" for a q r w1
    using that by (auto simp: call_action_def split: prod.splits)
  show ?case
    using Cons by (auto simp: Let_def split: prod.split option.split) (metis c snd_conv)+
qed simp

lemma run_loop_result:
  assumes "run_loop reg ex def state p w = (r, w')"
  shows "events w' = events w \<and> (\<forall>x. r = Inr x \<longrightarrow> snd x = None)"
proof -
  have "events (snd (run_loop reg ex def state p w)) = events w"
    unfolding run_loop_def Let_def by (simp add: snd_loop_result loop_items_events split: option.split sum.split)
  moreover have "\<forall>x. r = Inr x \<longrightarrow> snd x = None"
    using assms by (auto simp: run_loop_def Let_def split: option.splits sum.splits prod.splits)
  ultimately show ?thesis using assms by simp
qed

definition loop_events :: "Execution \<Rightarrow> StepDefinition \<Rightarrow> (string \<times> gomap) list \<Rightarrow> bool" where
  "loop_events ex def evs \<longleftrightarrow> (\<forall>ev \<in> set evs. fst ev = e_TenantID ex \<and>
     map_of (snd ev) ''status'' \<in> {Some (StrV ''RUNNING''), Some (StrV ''SUCCESS'')})"

lemma loop_attempt:
  assumes a: "d_Action def = ''LOOP''" and s: "step_attempt reg ex def state m i w = (fl, w')"
  shows "fl \<noteq> Retry \<and> (\<exists>new. events w' = events w @ new \<and> loop_events ex def new \<and> length new \<le> 2)"
proof -
  have running: "events w3 = events w @ [(e_TenantID ex, step_event (e_ID ex) (d_ID def) ''RUNNING'' [])]"
    if "on_store f w = (x, w1)" "on_store g w1 = (y, w2)"
      "w3 = broadcast (e_TenantID ex) (step_event (e_ID ex) (d_ID def) ''RUNNING'' []) (snd (nextVersion w2))"
    for f x w1 g y w2 w3
    using on_store_events [OF that(1)] on_store_events [OF that(2)] that(3)
    by (simp add: broadcast_def nextVersion_def)
  have act: "run_loop reg ex def state p w3 = (r, w4)" if "run_action reg ex def state p w3 = (r, w4)" for p w3 r w4
    using that a by (simp add: run_action_def)
  from s show ?thesis
  proof (cases rule: attempt_cases)
    case (missing e w1)
    then show ?thesis using on_store_events [OF missing(1)] by (simp add: loop_events_def)
  next
    case (already x)
    then show ?thesis using on_store_events [OF already(1)] by (simp add: loop_events_def)
  next
    case (refused x w1 data e)
    then show ?thesis using on_store_events [OF refused(1)] on_store_events [OF refused(4)]
      by (simp add: loop_events_def)
  next
    case (stopped x w1 data w2 w3 e)
    then show ?thesis
      using running [OF stopped(1,5,6)] run_loop_result [OF act [OF stopped(7)]]
      by (simp add: loop_events_def step_event_def)
  next
    case (failed x w1 data w2 w3 result e w4)
    then show ?thesis using run_loop_result [OF act [OF failed(7)]] by simp
  next
    case (suspended x w1 data w2 w3 result e w4)
    then show ?thesis using run_loop_result [OF act [OF suspended(7)]] by simp
  next
    case (finished x w1 data w2 w3 result w4)
    have "events w' = events w4 @ [(e_TenantID ex, step_event (e_ID ex) (d_ID def) ''SUCCESS'' [(''output'', map_any result)])]"
      using finished(8)
      by (auto simp: finish_step_def Let_def broadcast_def on_store_def split: prod.splits option.splits if_splits)
    moreover have "fl \<noteq> Retry" using finished(8) by (auto simp: finish_step_def Let_def split: prod.splits)
    ultimately show ?thesis
      using running [OF finished(1,5,6)] run_loop_result [OF act [OF finished(7)]]
      by (simp add: loop_events_def step_event_def)
  qed
qed

text \<open>C38: A \<open>LOOP\<close> step never fails, is never retried and never suspends: the error of an iteration is assigned to a
  shadowed variable and lost, so whatever its sub-action returns, \<open>executeStepWithRetry\<close> makes one attempt, does
  not sleep, and broadcasts only \<open>RUNNING\<close> and \<open>SUCCESS\<close> for it.\<close>

theorem loop_errors_lost:
  assumes "step_inv (st w)" "d_Action def = ''LOOP''"
    and "executeStepWithRetry reg execution def state w = (r, w')"
  shows "slept w' = slept w \<and>
    (\<exists>new. events w' = events w @ new \<and> loop_events execution def new \<and> length new \<le> 2)"
proof (cases "nat (max_attempts def)")
  case 0
  with assms(3) show ?thesis by (auto simp: executeStepWithRetry_def loop_events_def)
next
  case (Suc n)
  obtain fl w1 where s: "step_attempt reg execution def state (max_attempts def) 0 w = (fl, w1)" by fastforce
  note l = loop_attempt [OF assms(2) s]
  then have w1: "w1 = w'" using assms(3) s Suc by (auto simp: executeStepWithRetry_def split: flow.splits)
  show ?thesis using l attempt_quiet [OF assms(1) s] w1 by auto
qed

theorem loop_errors_lost_witness:
  "let reg = [(''BAD'', \<lambda>p en. ((None, Some (ErrorString ''boom'')), en))];
       def = zero_step\<lparr>d_ID := ''A'', d_Action := ''LOOP'', d_MaxRetries := 3,
         d_Parameters := [(''items'', ListV [IntV 1]), (''action'', StrV ''BAD'')]\<rparr> in
   slept (snd (executeStepWithRetry reg demo_execution def newState (demo_world ''PENDING''))) = []"
proof -
  let ?reg = "[(''BAD'', \<lambda>p en. ((None, Some (ErrorString ''boom'')), en))]"
  let ?def = "zero_step\<lparr>d_ID := ''A'', d_Action := ''LOOP'', d_MaxRetries := 3,
         d_Parameters := [(''items'', ListV [IntV 1]), (''action'', StrV ''BAD'')]\<rparr>"
  have "d_Action ?def = ''LOOP''" by simp
  from loop_errors_lost [of "demo_world ''PENDING''" ?def ?reg demo_execution newState,
      OF demo_inv(1) this surjective_pairing]
  show ?thesis by (simp add: demo_world_def)
qed

text \<open>C35: Resuming: when \<open>ResumeExecution\<close> reports success, exactly one step row and one execution row have changed;
  the step was \<open>SUSPENDED\<close> and is \<open>SUCCESS\<close> with the payload as its output, the execution is \<open>PENDING\<close>, both with
  the next version.\<close>

theorem resume_completes_step:
  assumes "step_inv (st w)" "execution_inv (st w)"
    and "ResumeExecution eid sid payload w = (None, w')"
  shows "\<exists>a b x y. a \<in> set (step_executions (db (st w))) \<and> s_ExecutionID a = eid \<and> s_StepID a = sid \<and>
      s_Status a = StatusExecutionSuspended \<and> step_row (st w') (s_ID a) = Some b \<and>
      s_Status b = StatusExecutionSuccess \<and> JsonV (s_Output b) = json_col (sch (st w)) payload \<and>
      s_Version b = s_Version a + 1 \<and>
      execution_row (st w) eid = Some x \<and> execution_row (st w') eid = Some y \<and>
      e_Status y = StatusExecutionPending \<and> e_Version y = e_Version x + 1 \<and>
      (\<forall>j. j \<noteq> s_ID a \<longrightarrow> step_row (st w') j = step_row (st w) j) \<and>
      (\<forall>j. j \<noteq> eid \<longrightarrow> execution_row (st w') j = execution_row (st w) j)"
  using assms by (rule resume_ok)

theorem resume_completes_step_witness:
  "\<exists>y. execution_row (st (snd (ResumeExecution ''x1'' ''A'' (Some [(''ok'', BoolV True)]) (demo_world ''SUSPENDED'')))) ''x1'' = Some y \<and>
     e_Status y = StatusExecutionPending \<and> e_Version y = 3"
proof -
  have "fst (ResumeExecution ''x1'' ''A'' (Some [(''ok'', BoolV True)]) (demo_world ''SUSPENDED'')) = None" by code_simp
  then have r: "ResumeExecution ''x1'' ''A'' (Some [(''ok'', BoolV True)]) (demo_world ''SUSPENDED'') =
      (None, snd (ResumeExecution ''x1'' ''A'' (Some [(''ok'', BoolV True)]) (demo_world ''SUSPENDED'')))"
    by (metis prod.collapse)
  have x: "execution_row (st (demo_world ''SUSPENDED'')) ''x1'' = Some demo_execution"
    by (simp add: demo_world_def demo_store_def execution_row_def demo_execution_def)
  from resume_completes_step [OF demo_inv r] x show ?thesis by (auto simp: demo_execution_def)
qed

end
