(* ===== verification/Workflow_Repo.thy ===== *)
theory Workflow_Repo imports Database begin

text \<open>
  The repository of workflows, \<open>internal/repository/workflow.go\<close>: versions of a workflow are rows that share tenant
  and name; one of them is current. The lemmas keep the uniqueness constraints of the table as an
  invariant and describe the one-row updates.
\<close>

definition write_workflows ::
    "(time \<Rightarrow> database \<Rightarrow> err + nat \<times> Workflow list) \<Rightarrow> store \<Rightarrow> (err + nat) \<times> store" where
  "write_workflows f = run_stmt (\<lambda>sc now d.
     case f now d of Inl e \<Rightarrow> Inl e | Inr (n, rows) \<Rightarrow> Inr (n, d\<lparr>workflows := rows\<rparr>))"

definition read_workflows ::
    "string list \<Rightarrow> (Workflow \<Rightarrow> bool) \<Rightarrow> store \<Rightarrow> (err + Workflow list) \<times> store" where
  "read_workflows condcols p = query (\<lambda>sc d.
     select_rows workflow_table workflow_columns condcols p (workflows d))"

definition workflow_fk :: "database \<Rightarrow> Workflow \<Rightarrow> err option" where
  "workflow_fk d r =
     (if \<not> list_ex (\<lambda>t. t_ID t = w_TenantID r) (tenants d) then Some (foreign_key_violation ''tenant_id'') else None)"

text \<open>\<open>Create\<close> first sets both flags in the caller's struct.\<close>

definition activated :: "Workflow \<Rightarrow> Workflow" where
  "activated w = w\<lparr>w_IsCurrent := True, w_IsActive := True\<rparr>"

definition wf_Create :: "Workflow \<Rightarrow> store \<Rightarrow> err option \<times> store" where
  "wf_Create workflow \<sigma> =
     affected (NewError ErrTypeInternal ''failed to insert workflow: no rows affected'' None)
       (write_workflows (\<lambda>now d.
          insert_row workflow_table workflow_columns (workflow_fk d (activated workflow)) (activated workflow)
            (workflows d)) \<sigma>)"

definition current_conds :: "colmap \<Rightarrow> colmap" where
  "current_conds filters =
     (if ''version'' \<in> set (map fst filters) then filters else filters @ [(''is_current'', FlagV True)])"

definition wf_Get :: "colmap \<Rightarrow> store \<Rightarrow> (err + Workflow) \<times> store" where
  "wf_Get filters \<sigma> =
     db_result (collect_one
       (read_workflows (map fst (current_conds filters)) (row_eq workflow_table (current_conds filters)) \<sigma>))"

definition wf_GetForUpdate :: "string \<Rightarrow> string \<Rightarrow> int \<Rightarrow> bool \<Rightarrow> store \<Rightarrow> (err + string) \<times> store" where
  "wf_GetForUpdate tenantID name version isCurrent \<sigma> =
     (case collect_one (read_workflows [''tenant_id'', ''name'', ''is_current'', ''is_active'', ''version'']
         (\<lambda>r. w_TenantID r = tenantID \<and> w_Name r = name \<and> w_IsCurrent r = isCurrent \<and> w_IsActive r
            \<and> w_Version r = version) \<sigma>) of
        (Inr r, \<sigma>') \<Rightarrow> (Inr (w_ID r), \<sigma>')
      | (Inl e, \<sigma>') \<Rightarrow>
          (if is_no_rows e then
             (Inl (NewError ErrTypeConflict
                ''workflow was modified by another request, please re-fetch and retry'' None), \<sigma>')
           else (Inl (DbError e), \<sigma>')))"

definition wf_List :: "nat \<Rightarrow> nat \<Rightarrow> colmap \<Rightarrow> store \<Rightarrow> (err + Workflow list \<times> nat) \<times> store" where
  "wf_List limit offset filters \<sigma> =
     (let p = (\<lambda>r. w_IsCurrent r \<and> w_IsActive r \<and>
                 (\<forall>cv \<in> set filters. list_cond workflow_table [''id'', ''tenant_id''] cv r));
          cols = [''is_current'', ''is_active''] @ map fst filters in
      case db_result (read_workflows (cols @ [''created_at'']) p \<sigma>) of
        (Inl e, \<sigma>1) \<Rightarrow> (Inl e, \<sigma>1)
      | (Inr rows, \<sigma>1) \<Rightarrow>
          (case db_result (read_workflows cols p \<sigma>1) of
             (Inl e, \<sigma>2) \<Rightarrow> (Inl e, \<sigma>2)
           | (Inr all, \<sigma>2) \<Rightarrow>
               (Inr (page_rows (\<lambda>r. - w_CreatedAt r) limit offset rows, length all), \<sigma>2)))"

definition wf_ListVersions :: "string \<Rightarrow> string \<Rightarrow> store \<Rightarrow> (err + Workflow list) \<times> store" where
  "wf_ListVersions tenantID name \<sigma> =
     (case db_result (read_workflows [''tenant_id'', ''name'', ''is_active'', ''version'']
         (\<lambda>r. w_TenantID r = tenantID \<and> w_Name r = name \<and> w_IsActive r) \<sigma>) of
        (Inl e, \<sigma>') \<Rightarrow> (Inl e, \<sigma>')
      | (Inr rows, \<sigma>') \<Rightarrow> (Inr (sort_key (\<lambda>r. - w_Version r) rows), \<sigma>'))"

definition wf_Update :: "string \<Rightarrow> colmap \<Rightarrow> store \<Rightarrow> err option \<times> store" where
  "wf_Update i data \<sigma> =
     affected (NewError ErrTypeValidation
         ''failed to update workflow: record not found or version conflict (data modified by another process)''
         (Some ErrNoRows))
       (write_workflows (\<lambda>now d.
          update_rows workflow_table now (gm_set ''updated_at'' NowE data) [''id''] (\<lambda>r. w_ID r = i)
            (workflows d)) \<sigma>)"

definition wf_Delete :: "string \<Rightarrow> string \<Rightarrow> store \<Rightarrow> err option \<times> store" where
  "wf_Delete tenantID name \<sigma> =
     affected (NewError ErrTypeNotFound ''workflow not found'' (Some ErrNoRows))
       (write_workflows (\<lambda>now d.
          update_rows workflow_table now [(''is_active'', FlagV False), (''updated_at'', NowE)]
            [''tenant_id'', ''name''] (\<lambda>r. w_TenantID r = tenantID \<and> w_Name r = name) (workflows d)) \<sigma>)"

subsection \<open>Results of the methods\<close>

definition workflow_inv :: "store \<Rightarrow> bool" where
  "workflow_inv \<sigma> \<longleftrightarrow> \<not> has_clash workflow_clash (workflows (db \<sigma>))"

lemma write_workflows_result:
  assumes "write_workflows f \<sigma> = (r, \<sigma>')"
  shows "same_session \<sigma> \<sigma>' \<and> (case r of Inl e \<Rightarrow> db \<sigma>' = db \<sigma>
    | Inr n \<Rightarrow> \<exists>rows. f (clock \<sigma>) (db \<sigma>) = Inr (n, rows) \<and> db \<sigma>' = db \<sigma>\<lparr>workflows := rows\<rparr>)"
  using run_stmt_result [OF assms [unfolded write_workflows_def]]
  by (auto split: sum.splits)

lemma read_workflows_result:
  assumes "read_workflows cs p \<sigma> = (r, \<sigma>')"
  shows "same_session \<sigma> \<sigma>' \<and> db \<sigma>' = db \<sigma> \<and> (\<forall>x. r = Inr x \<longrightarrow> x = filter p (workflows (db \<sigma>)))"
  using query_result [OF assms [unfolded read_workflows_def]]
  by (auto simp: select_rows_def split: option.splits)

lemma clash_sym: "workflow_clash a b = workflow_clash b a"
  by (auto simp: workflow_clash_def)

lemma has_clash_append:
  "has_clash c (xs @ [y]) \<longleftrightarrow> has_clash c xs \<or> (\<exists>x \<in> set xs. c x y)"
  by (induction xs) (auto simp: list_ex_iff)

lemma has_clash_in:
  "\<not> has_clash workflow_clash xs \<Longrightarrow> a \<in> set xs \<Longrightarrow> b \<in> set xs \<Longrightarrow> workflow_clash a b \<Longrightarrow> a = b"
  by (induction xs) (auto simp: list_ex_iff clash_sym)

lemma has_clash_restamp:
  "has_clash workflow_clash (modify_all p (\<lambda>x. x\<lparr>w_UpdatedAt := t\<rparr>) rows) = has_clash workflow_clash rows"
proof -
  have ex: "list_ex (workflow_clash a) (modify_all p (\<lambda>x. x\<lparr>w_UpdatedAt := t\<rparr>) rows) = list_ex (workflow_clash a) rows"
    for a and rows :: "Workflow list" by (induction rows) (simp_all add: workflow_clash_def)
  have left: "workflow_clash (a\<lparr>w_UpdatedAt := t\<rparr>) = workflow_clash a" for a
    by (simp add: workflow_clash_def fun_eq_iff)
  show ?thesis by (induction rows) (simp_all add: ex left)
qed

text \<open>\<open>Create\<close>: on success exactly the activated row is added, and it clashed with no row there was.\<close>

lemma wf_Create_result:
  assumes "wf_Create w \<sigma> = (r, \<sigma>')"
  shows "same_session \<sigma> \<sigma>' \<and> (r \<noteq> None \<longrightarrow> db \<sigma>' = db \<sigma>) \<and>
    (r = None \<longrightarrow> db \<sigma>' = db \<sigma>\<lparr>workflows := workflows (db \<sigma>) @ [activated w]\<rparr> \<and>
       (\<forall>x \<in> set (workflows (db \<sigma>)). \<not> workflow_clash x (activated w)) \<and> w_DAGDefinition w \<noteq> None)"
proof -
  obtain wr where w: "write_workflows (\<lambda>now d.
      insert_row workflow_table workflow_columns (workflow_fk d (activated w)) (activated w) (workflows d)) \<sigma> = (wr, \<sigma>')"
    using assms by (auto simp: wf_Create_def affected_def split: prod.splits sum.splits if_splits)
  note W = write_workflows_result [OF w]
  show ?thesis
  proof (cases wr)
    case (Inl e)
    with assms w W show ?thesis by (auto simp: wf_Create_def affected_def)
  next
    case (Inr n)
    then obtain rows where rows: "insert_row workflow_table workflow_columns (workflow_fk (db \<sigma>) (activated w))
        (activated w) (workflows (db \<sigma>)) = Inr (n, rows)" "db \<sigma>' = db \<sigma>\<lparr>workflows := rows\<rparr>"
      using W by auto
    then have "n = 1" "rows = workflows (db \<sigma>) @ [activated w]"
      "\<forall>x \<in> set (workflows (db \<sigma>)). \<not> workflow_clash x (activated w)" "w_DAGDefinition (activated w) \<noteq> None"
      by (auto simp: insert_row_def workflow_table_def list_ex_iff split: option.splits if_splits)
    with assms w W Inr rows(2) show ?thesis by (auto simp: wf_Create_def affected_def activated_def)
  qed
qed

lemma wf_Create_inv: "workflow_inv \<sigma> \<Longrightarrow> wf_Create w \<sigma> = (r, \<sigma>') \<Longrightarrow> workflow_inv \<sigma>'"
  using wf_Create_result [of w \<sigma> r \<sigma>'] by (cases r) (auto simp: workflow_inv_def has_clash_append)

lemma wf_Update_result:
  assumes "wf_Update i data \<sigma> = (r, \<sigma>')"
  shows "same_session \<sigma> \<sigma>' \<and> (r \<noteq> None \<longrightarrow> db \<sigma>' = db \<sigma>) \<and>
    (r = None \<longrightarrow> (\<exists>n rows. n \<noteq> 0 \<and> db \<sigma>' = db \<sigma>\<lparr>workflows := rows\<rparr> \<and>
      update_rows workflow_table (clock \<sigma>) (gm_set ''updated_at'' NowE data) [''id''] (\<lambda>r. w_ID r = i)
        (workflows (db \<sigma>)) = Inr (n, rows)))"
proof -
  obtain wr where w: "write_workflows (\<lambda>now d.
      update_rows workflow_table now (gm_set ''updated_at'' NowE data) [''id''] (\<lambda>r. w_ID r = i) (workflows d)) \<sigma> = (wr, \<sigma>')"
    using assms by (auto simp: wf_Update_def affected_def split: prod.splits sum.splits if_splits)
  note W = write_workflows_result [OF w]
  show ?thesis
  proof (cases wr)
    case (Inl e)
    with assms w W show ?thesis by (auto simp: wf_Update_def affected_def)
  next
    case (Inr n)
    then obtain rows where rows: "update_rows workflow_table (clock \<sigma>) (gm_set ''updated_at'' NowE data) [''id'']
        (\<lambda>r. w_ID r = i) (workflows (db \<sigma>)) = Inr (n, rows)" "db \<sigma>' = db \<sigma>\<lparr>workflows := rows\<rparr>"
      using W by auto
    have "r = None \<longleftrightarrow> n \<noteq> 0" using assms w Inr by (auto simp: wf_Update_def affected_def split: if_splits)
    moreover have "db \<sigma>' = db \<sigma>" if "n = 0"
    proof -
      have "\<forall>r \<in> set (workflows (db \<sigma>)). w_ID r \<noteq> i" using rows(1) that by (simp add: update_rows_Inr count_rows_0)
      then have "put_rows workflow_table (clock \<sigma>) (gm_set ''updated_at'' NowE data) (\<lambda>r. w_ID r = i)
          (workflows (db \<sigma>)) = Inr (workflows (db \<sigma>))" by (intro put_rows_none) auto
      with rows show ?thesis by (simp add: update_rows_Inr)
    qed
    ultimately show ?thesis using W rows by blast
  qed
qed

lemma wf_Update_inv: "workflow_inv \<sigma> \<Longrightarrow> wf_Update i data \<sigma> = (r, \<sigma>') \<Longrightarrow> workflow_inv \<sigma>'"
  using wf_Update_result [of i data \<sigma> r \<sigma>']
  by (cases r) (auto simp: workflow_inv_def update_rows_Inr workflow_table_def)

lemma wf_Get_result:
  assumes "wf_Get filters \<sigma> = (r, \<sigma>')"
  shows "same_session \<sigma> \<sigma>' \<and> db \<sigma>' = db \<sigma> \<and> (\<forall>x. r = Inr x \<longrightarrow> x \<in> set (workflows (db \<sigma>)) \<and>
    row_eq workflow_table filters x \<and> (''version'' \<notin> set (map fst filters) \<longrightarrow> w_IsCurrent x))"
proof -
  let ?c = "current_conds filters"
  obtain q where q: "read_workflows (map fst ?c) (row_eq workflow_table ?c) \<sigma> = (q, \<sigma>')"
    using arg_cong [OF assms, of snd] by (cases "read_workflows (map fst ?c) (row_eq workflow_table ?c) \<sigma>")
      (simp add: wf_Get_def)
  note Q = read_workflows_result [OF q]
  have "x \<in> set (workflows (db \<sigma>)) \<and> row_eq workflow_table ?c x" if "r = Inr x" for x
  proof -
    have "db_result (collect_one (q, \<sigma>')) = (Inr x, \<sigma>')"
      using assms that q by (simp add: wf_Get_def)
    then obtain xs where "q = Inr (x # xs)" by (auto simp: db_result_Inr collect_one_Inr)
    with Q have f: "filter (row_eq workflow_table ?c) (workflows (db \<sigma>)) = x # xs" by auto
    from arg_cong [OF f, of set] show ?thesis by auto
  qed
  moreover have "row_eq workflow_table ?c x \<Longrightarrow> row_eq workflow_table filters x \<and>
      (''version'' \<notin> set (map fst filters) \<longrightarrow> w_IsCurrent x)" for x
    by (auto simp: current_conds_def row_eq_def workflow_table_def workflow_get_def split: if_splits)
  ultimately show ?thesis using Q by blast
qed

lemma wf_GetForUpdate_result:
  assumes "wf_GetForUpdate t n v c \<sigma> = (r, \<sigma>')"
  shows "same_session \<sigma> \<sigma>' \<and> db \<sigma>' = db \<sigma> \<and> (\<forall>i. r = Inr i \<longrightarrow> (\<exists>x \<in> set (workflows (db \<sigma>)).
    w_ID x = i \<and> w_TenantID x = t \<and> w_Name x = n \<and> w_Version x = v \<and> w_IsCurrent x = c \<and> w_IsActive x))"
proof -
  let ?p = "\<lambda>r. w_TenantID r = t \<and> w_Name r = n \<and> w_IsCurrent r = c \<and> w_IsActive r \<and> w_Version r = v"
  obtain q \<sigma>'' where q: "read_workflows [''tenant_id'', ''name'', ''is_current'', ''is_active'', ''version''] ?p \<sigma> = (q, \<sigma>'')"
    by fastforce
  note Q = read_workflows_result [OF q]
  have s: "\<sigma>'' = \<sigma>'" using assms q
    by (auto simp: wf_GetForUpdate_def collect_one_def split: sum.splits prod.splits list.splits if_splits)
  have "\<exists>x \<in> set (workflows (db \<sigma>)). w_ID x = i \<and> ?p x" if "r = Inr i" for i
  proof -
    from assms q that obtain x xs where q': "q = Inr (x # xs)" "w_ID x = i"
      by (auto simp: wf_GetForUpdate_def collect_one_def split: sum.splits list.splits if_splits)
    with Q have f: "filter ?p (workflows (db \<sigma>)) = x # xs" by auto
    from arg_cong [OF f, of set] have "x \<in> set (workflows (db \<sigma>)) \<and> ?p x" by auto
    with q'(2) show ?thesis by blast
  qed
  with Q s show ?thesis by blast
qed

text \<open>Setting the current flag of one row.\<close>

lemma put_rows_modify:
  assumes "\<And>r. put_row t now cvs r = Inr (f r) \<or> (\<exists>e. put_row t now cvs r = Inl e)"
  shows "put_rows t now cvs p rows = Inr rows' \<Longrightarrow> rows' = modify_all p f rows"
  unfolding put_rows_list_all2
proof (induction rows rows' rule: list_all2_induct)
  case (Cons x xs y ys)
  then show ?case using assms [of x] by (auto split: if_splits)
qed simp

lemma wf_Update_current:
  assumes "wf_Update i [(''is_current'', FlagV b), (''updated_at'', x)] \<sigma> = (None, \<sigma>')"
  shows "same_session \<sigma> \<sigma>' \<and> db \<sigma>' = db \<sigma>\<lparr>workflows :=
    modify_all (\<lambda>r. w_ID r = i) (\<lambda>r. r\<lparr>w_IsCurrent := b, w_UpdatedAt := Some (clock \<sigma>)\<rparr>) (workflows (db \<sigma>))\<rparr>"
proof -
  let ?cvs = "gm_set ''updated_at'' NowE [(''is_current'', FlagV b), (''updated_at'', x)]"
  let ?f = "\<lambda>r. r\<lparr>w_IsCurrent := b, w_UpdatedAt := Some (clock \<sigma>)\<rparr>"
  obtain n rows where u: "db \<sigma>' = db \<sigma>\<lparr>workflows := rows\<rparr>"
    "update_rows workflow_table (clock \<sigma>) ?cvs [''id''] (\<lambda>r. w_ID r = i) (workflows (db \<sigma>)) = Inr (n, rows)"
    "same_session \<sigma> \<sigma>'" using wf_Update_result [OF assms] by auto
  have "put_cols workflow_table (clock \<sigma>) ?cvs r = Inr (?f r)" for r
    by (simp add: workflow_table_def workflow_put_def put_text_def put_flag_def put_int_def put_time_def time_of_def)
  then have "put_row workflow_table (clock \<sigma>) ?cvs r = Inr (?f r) \<or> (\<exists>e. put_row workflow_table (clock \<sigma>) ?cvs r = Inl e)"
    for r by (simp add: put_row_def split: option.split)
  moreover have "put_rows workflow_table (clock \<sigma>) ?cvs (\<lambda>r. w_ID r = i) (workflows (db \<sigma>)) = Inr rows"
    using u(2) unfolding update_rows_Inr by blast
  ultimately have "rows = modify_all (\<lambda>r. w_ID r = i) ?f (workflows (db \<sigma>))" by (rule put_rows_modify)
  with u show ?thesis by simp
qed

lemma wf_Delete_ok:
  assumes "wf_Delete t n \<sigma> = (None, \<sigma>')"
  shows "same_session \<sigma> \<sigma>' \<and> db \<sigma>' = db \<sigma>\<lparr>workflows := modify_all (\<lambda>r. w_TenantID r = t \<and> w_Name r = n)
      (\<lambda>r. r\<lparr>w_IsActive := False, w_UpdatedAt := Some (clock \<sigma>)\<rparr>) (workflows (db \<sigma>))\<rparr> \<and>
    (\<exists>r \<in> set (workflows (db \<sigma>)). w_TenantID r = t \<and> w_Name r = n)"
proof -
  let ?p = "\<lambda>r. w_TenantID r = t \<and> w_Name r = n"
  let ?cvs = "[(''is_active'', FlagV False), (''updated_at'', NowE)]"
  let ?f = "\<lambda>r. r\<lparr>w_IsActive := False, w_UpdatedAt := Some (clock \<sigma>)\<rparr>"
  obtain k where w: "write_workflows (\<lambda>now d. update_rows workflow_table now ?cvs [''tenant_id'', ''name''] ?p
      (workflows d)) \<sigma> = (Inr k, \<sigma>')" "k \<noteq> 0"
    using assms unfolding wf_Delete_def affected_None by blast
  then obtain rows where u: "db \<sigma>' = db \<sigma>\<lparr>workflows := rows\<rparr>" "same_session \<sigma> \<sigma>'"
    "update_rows workflow_table (clock \<sigma>) ?cvs [''tenant_id'', ''name''] ?p (workflows (db \<sigma>)) = Inr (k, rows)"
    using write_workflows_result [OF w(1)] by auto
  have "put_cols workflow_table (clock \<sigma>) ?cvs r = Inr (?f r)" for r
    by (simp add: workflow_table_def workflow_put_def put_text_def put_flag_def put_int_def put_time_def time_of_def)
  then have "put_row workflow_table (clock \<sigma>) ?cvs r = Inr (?f r) \<or> (\<exists>e. put_row workflow_table (clock \<sigma>) ?cvs r = Inl e)"
    for r by (simp add: put_row_def split: option.split)
  moreover have "put_rows workflow_table (clock \<sigma>) ?cvs ?p (workflows (db \<sigma>)) = Inr rows"
    using u(3) unfolding update_rows_Inr by blast
  ultimately have "rows = modify_all ?p ?f (workflows (db \<sigma>))" by (rule put_rows_modify)
  moreover have "count_rows ?p (workflows (db \<sigma>)) \<noteq> 0" using u(3) w(2) unfolding update_rows_Inr by blast
  then have "\<exists>r \<in> set (workflows (db \<sigma>)). ?p r" unfolding count_rows_0 by blast
  ultimately show ?thesis using u by simp
qed

end
