(* ===== verification/Pagination.thy ===== *)
theory Pagination imports Model begin

text \<open>
  Page tokens: the code that the \<open>List\<close> methods of the services share, with the parts of Go's library they use
  (\<open>base64.StdEncoding\<close>, \<open>strconv.ParseUint\<close> and \<open>FormatUint\<close>). A token is the decimal offset in base64.
\<close>

subsection \<open>base64.StdEncoding\<close>

definition b64_alphabet :: string where
  "b64_alphabet = ''ABCDEFGHIJKLMNOPQRSTUVWXYZabcdefghijklmnopqrstuvwxyz0123456789+/''"

definition b64_char :: "nat \<Rightarrow> char" where
  "b64_char n = b64_alphabet ! n"

definition b64_value :: "char \<Rightarrow> nat option" where
  "b64_value c = (let n = length (takeWhile (\<lambda>x. x \<noteq> c) b64_alphabet) in if n < 64 then Some n else None)"

fun b64_encode :: "string \<Rightarrow> string" where
  "b64_encode [] = []"
| "b64_encode [a] =
     (let a' = of_char a :: nat in
      [b64_char (a' div 4), b64_char (a' mod 4 * 16), CHR ''='', CHR ''=''])"
| "b64_encode [a, b] =
     (let a' = of_char a :: nat; b' = of_char b :: nat in
      [b64_char (a' div 4), b64_char (a' mod 4 * 16 + b' div 16), b64_char (b' mod 16 * 4), CHR ''=''])"
| "b64_encode (a # b # c # s) =
     (let a' = of_char a :: nat; b' = of_char b :: nat; c' = of_char c :: nat in
      [b64_char (a' div 4), b64_char (a' mod 4 * 16 + b' div 16), b64_char (b' mod 16 * 4 + c' div 64),
       b64_char (c' mod 64)] @ b64_encode s)"

text \<open>\<open>DecodeString\<close> drops line breaks, takes four characters at a time and allows padding only at the end; the
  unused low bits of the last character are not checked.\<close>

fun b64_decode_quads :: "string \<Rightarrow> string option" where
  "b64_decode_quads [] = Some []"
| "b64_decode_quads (p # q # r # s # rest) =
     (case (b64_value p, b64_value q) of
        (Some v1, Some v2) \<Rightarrow>
          (let x = char_of (v1 * 4 + v2 div 16) in
           if r = CHR ''='' then (if s = CHR ''='' \<and> rest = [] then Some [x] else None)
           else (case b64_value r of
                   None \<Rightarrow> None
                 | Some v3 \<Rightarrow>
                     (let y = char_of (v2 mod 16 * 16 + v3 div 4) in
                      if s = CHR ''='' then (if rest = [] then Some [x, y] else None)
                      else (case b64_value s of
                              None \<Rightarrow> None
                            | Some v4 \<Rightarrow>
                                map_option (\<lambda>t. x # y # char_of (v3 mod 4 * 64 + v4) # t)
                                  (b64_decode_quads rest)))))
      | _ \<Rightarrow> None)"
| "b64_decode_quads _ = None"

definition b64_decode :: "string \<Rightarrow> string option" where
  "b64_decode s = b64_decode_quads (filter (\<lambda>c. c \<noteq> CHR 0x0A \<and> c \<noteq> CHR 0x0D) s)"

lemma b64_char_value: "n < 64 \<Longrightarrow> b64_value (b64_char n) = Some n"
proof -
  have "\<forall>n \<in> set [0..<64]. b64_value (b64_char n) = Some n" by code_simp
  then show "n < 64 \<Longrightarrow> b64_value (b64_char n) = Some n" by simp
qed

lemma b64_char_plain:
  "n < 64 \<Longrightarrow> b64_char n \<noteq> CHR ''='' \<and> b64_char n \<noteq> CHR 0x0A \<and> b64_char n \<noteq> CHR 0x0D"
proof -
  have "\<forall>n \<in> set [0..<64]. b64_char n \<noteq> CHR ''='' \<and> b64_char n \<noteq> CHR 0x0A \<and> b64_char n \<noteq> CHR 0x0D"
    by code_simp
  then show "n < 64 \<Longrightarrow> b64_char n \<noteq> CHR ''='' \<and> b64_char n \<noteq> CHR 0x0A \<and> b64_char n \<noteq> CHR 0x0D" by simp
qed

lemma char_bound: "(of_char c :: nat) < 256"
  using nat_of_char_less_256 .

lemma digits64:
  fixes a b :: nat
  assumes "a < 256" "b < 256"
  shows "a div 4 < 64" "a mod 4 * 16 < 64" "a mod 4 * 16 + b div 16 < 64" "b mod 16 * 4 < 64"
    "b mod 16 * 4 + a div 64 < 64" "a mod 64 < 64"
  using assms by simp_all

lemma digit_split:
  fixes x y k :: nat
  assumes "y < k"
  shows "(x * k + y) div k = x" "(x * k + y) mod k = y"
  using assms by simp_all

lemma bytes64:
  fixes a b c :: nat
  assumes "a < 256" "b < 256" "c < 256"
  shows "a div 4 * 4 + (a mod 4 * 16) div 16 = a"
    "a div 4 * 4 + (a mod 4 * 16 + b div 16) div 16 = a"
    "(a mod 4 * 16 + b div 16) mod 16 * 16 + (b mod 16 * 4) div 4 = b"
    "(a mod 4 * 16 + b div 16) mod 16 * 16 + (b mod 16 * 4 + c div 64) div 4 = b"
    "(b mod 16 * 4 + c div 64) mod 4 * 64 + c mod 64 = c"
proof -
  have lt: "b div 16 < 16" "c div 64 < 4" using assms by simp_all
  show "a div 4 * 4 + (a mod 4 * 16) div 16 = a" by simp
  show "a div 4 * 4 + (a mod 4 * 16 + b div 16) div 16 = a"
    unfolding digit_split [OF lt(1)] by simp
  show "(a mod 4 * 16 + b div 16) mod 16 * 16 + (b mod 16 * 4) div 4 = b"
    unfolding digit_split [OF lt(1)] by simp
  show "(a mod 4 * 16 + b div 16) mod 16 * 16 + (b mod 16 * 4 + c div 64) div 4 = b"
    unfolding digit_split [OF lt(1)] digit_split [OF lt(2)] by simp
  show "(b mod 16 * 4 + c div 64) mod 4 * 64 + c mod 64 = c"
    unfolding digit_split [OF lt(2)] by simp
qed

lemma b64_decode_encode_quads: "b64_decode_quads (b64_encode s) = Some s"
proof (induction s rule: b64_encode.induct)
  case (2 a)
  show ?case using digits64 [OF char_bound [of a] char_bound [of a]] bytes64(1) [OF char_bound [of a] char_bound [of a] char_bound [of a]]
    by (simp add: Let_def b64_char_value)
next
  case (3 a b)
  show ?case
    using digits64 [OF char_bound [of a] char_bound [of b]] bytes64 [OF char_bound [of a] char_bound [of b] char_bound [of a]]
    by (simp add: Let_def b64_char_value b64_char_plain)
next
  case (4 a b c s)
  have "(of_char a :: nat) div 4 < 64" "(of_char a :: nat) mod 4 * 16 + of_char b div 16 < 64"
    "(of_char b :: nat) mod 16 * 4 + of_char c div 64 < 64" "(of_char c :: nat) mod 64 < 64"
    using digits64 [OF char_bound [of a] char_bound [of b]] digits64 [OF char_bound [of c] char_bound [of b]] by simp_all
  with 4 bytes64 [OF char_bound [of a] char_bound [of b] char_bound [of c]]
  show ?case by (simp add: Let_def b64_char_value b64_char_plain)
qed simp

lemma b64_encode_no_break: "filter (\<lambda>c. c \<noteq> CHR 0x0A \<and> c \<noteq> CHR 0x0D) (b64_encode s) = b64_encode s"
proof (induction s rule: b64_encode.induct)
  case (2 a)
  show ?case using digits64 [OF char_bound [of a] char_bound [of a]] by (simp add: Let_def b64_char_plain)
next
  case (3 a b)
  show ?case using digits64 [OF char_bound [of a] char_bound [of b]] by (simp add: Let_def b64_char_plain)
next
  case (4 a b c s)
  have "(of_char a :: nat) div 4 < 64" "(of_char a :: nat) mod 4 * 16 + of_char b div 16 < 64"
    "(of_char b :: nat) mod 16 * 4 + of_char c div 64 < 64" "(of_char c :: nat) mod 64 < 64"
    using digits64 [OF char_bound [of a] char_bound [of b]] digits64 [OF char_bound [of c] char_bound [of b]] by simp_all
  with 4 show ?case by (simp add: Let_def b64_char_plain)
qed simp

lemma b64_roundtrip: "b64_decode (b64_encode s) = Some s"
  by (simp add: b64_decode_def b64_encode_no_break b64_decode_encode_quads)

subsection \<open>strconv\<close>

definition digit_value :: "char \<Rightarrow> nat option" where
  "digit_value c = (let n = of_char c :: nat in if 48 \<le> n \<and> n \<le> 57 then Some (n - 48) else None)"

fun read_digits :: "nat \<Rightarrow> string \<Rightarrow> nat option" where
  "read_digits acc [] = Some acc"
| "read_digits acc (c # cs) =
     (case digit_value c of None \<Rightarrow> None | Some d \<Rightarrow> read_digits (acc * 10 + d) cs)"

definition ParseUint :: "string \<Rightarrow> err + nat" where
  "ParseUint s =
     (if s = '''' then Inl (ErrorString ''strconv.ParseUint: invalid syntax'')
      else case read_digits 0 s of
        None \<Rightarrow> Inl (ErrorString ''strconv.ParseUint: invalid syntax'')
      | Some n \<Rightarrow> (if n < 2 ^ 64 then Inr n else Inl (ErrorString ''strconv.ParseUint: value out of range'')))"

lemma read_digits_append:
  "read_digits acc (xs @ ys) = (case read_digits acc xs of None \<Rightarrow> None | Some n \<Rightarrow> read_digits n ys)"
  by (induction xs arbitrary: acc) (auto split: option.splits)

lemma digit_value_char: "d < 10 \<Longrightarrow> digit_value (digit_char d) = Some d"
  by (simp add: digit_value_def digit_char_def Let_def)

lemma read_show_nat: "read_digits 0 (show_nat n) = Some n"
proof (induction n rule: show_nat.induct)
  case (1 n)
  show ?case
  proof (cases "n < 10")
    case True
    then show ?thesis by (subst show_nat.simps) (simp add: digit_value_char)
  next
    case False
    then show ?thesis using 1 by (subst show_nat.simps) (simp add: read_digits_append digit_value_char)
  qed
qed

lemma show_nat_nonempty [simp]: "show_nat n \<noteq> []"
  by (subst show_nat.simps) simp

lemma ParseUint_show: "n < 2 ^ 64 \<Longrightarrow> ParseUint (show_nat n) = Inr n"
  by (simp add: ParseUint_def read_show_nat)

subsection \<open>Page requests\<close>

definition bad_token :: "err \<Rightarrow> err" where
  "bad_token e = NewError ErrTypeValidation ''invalid page token'' (Some e)"

definition page_offset :: "string \<Rightarrow> err + nat" where
  "page_offset token =
     (if token = '''' then Inr 0
      else case b64_decode token of
        None \<Rightarrow> Inl (bad_token (ErrorString ''illegal base64 data''))
      | Some s \<Rightarrow> (case ParseUint s of Inl e \<Rightarrow> Inl (bad_token e) | Inr n \<Rightarrow> Inr n))"

text \<open>Offset and effective page size of a request; the offset is checked first.\<close>

definition page_request :: "string \<Rightarrow> nat \<Rightarrow> err + nat \<times> nat" where
  "page_request token pageSize =
     (case page_offset token of
        Inl e \<Rightarrow> Inl e
      | Inr offset \<Rightarrow>
          (let pageSize' = (if pageSize = 0 then 20 else pageSize) in
           if 100 < pageSize' then Inl (NewValidationError [(''page_size'', ''max page size is 100'')])
           else Inr (offset, pageSize')))"

definition next_page_token :: "nat \<Rightarrow> nat \<Rightarrow> nat \<Rightarrow> string" where
  "next_page_token found offset pageSize =
     (if found = pageSize then b64_encode (show_nat ((offset + pageSize) mod 2 ^ 64)) else '''')"

subsection \<open>Properties\<close>

text \<open>C40: A page token the service hands out is accepted by the next request and means the offset after the page,
  as long as offsets stay below \<open>2 ^ 64\<close>; sizes up to 100 are accepted, 0 means 20.\<close>

theorem page_token_roundtrip:
  assumes "found = pageSize" "offset + pageSize < 2 ^ 64" "pageSize' \<le> 100"
  shows "page_request (next_page_token found offset pageSize) pageSize' =
    Inr (offset + pageSize, if pageSize' = 0 then 20 else pageSize')"
proof -
  have "next_page_token found offset pageSize = b64_encode (show_nat (offset + pageSize))"
    using assms(1,2) by (simp add: next_page_token_def)
  moreover have "b64_encode s \<noteq> []" if "s \<noteq> []" for s
    using that by (cases s rule: b64_encode.cases) (auto simp: Let_def)
  ultimately show ?thesis
    using assms(2,3) by (simp add: page_request_def page_offset_def b64_roundtrip ParseUint_show Let_def)
qed

theorem page_token_roundtrip_witness:
  "page_request (next_page_token 20 40 20) 0 = Inr (60, 20)"
  using page_token_roundtrip [of 20 20 40 0] by simp

end
