(* ===== verification/Transactions.thy ===== *)
theory Transactions imports Database begin

text \<open>
  The unit of work of \<open>pkg/postgres/unit_of_work.go\<close> as an interface. Every service method that changes several
  tables has the same shape: \<open>Begin\<close>, a body, and \<open>defer trx.Rollback(txCtx)\<close>. \<open>transact\<close> is that shape; the
  locale states what \<open>Begin\<close>, \<open>Commit\<close> and \<open>Rollback\<close> promise of the tables, and what a caller of \<open>transact\<close> may
  conclude. It is interpreted on the database session here, and on the worlds of the services and of the
  worker where they are defined.
\<close>

definition transact :: "('s \<Rightarrow> err option \<times> 's) \<Rightarrow> ('s \<Rightarrow> err option \<times> 's) \<Rightarrow> ('s \<Rightarrow> (err + 'a) \<times> 's) \<Rightarrow>
    's \<Rightarrow> (err + 'a) \<times> 's" where
  "transact begin_tx rollback body s =
     (case begin_tx s of
        (Some e, s1) \<Rightarrow> (Inl e, s1)
      | (None, s1) \<Rightarrow> (case body s1 of (r, s2) \<Rightarrow> (r, snd (rollback s2))))"

text \<open>\<open>tables s\<close> are the tables the session sees, \<open>start s\<close> those an abandoned transaction goes back to.\<close>

locale unit_of_work =
  fixes begin_tx :: "'s \<Rightarrow> err option \<times> 's"
    and commit :: "'s \<Rightarrow> err option \<times> 's"
    and rollback :: "'s \<Rightarrow> err option \<times> 's"
    and tables :: "'s \<Rightarrow> 'd"
    and start :: "'s \<Rightarrow> 'd option"
  assumes begin_refused: "start s = None \<Longrightarrow> begin_tx s = (Some e, s') \<Longrightarrow> tables s' = tables s \<and> start s' = None"
    and begin_ok: "begin_tx s = (None, s') \<Longrightarrow> tables s' = tables s \<and> start s' = Some (tables s)"
    and commit_ok: "commit s = (None, s') \<Longrightarrow> start s \<noteq> None \<and> tables s' = tables s \<and> start s' = None"
    and commit_failed: "start s = Some d \<Longrightarrow> commit s = (Some e, s') \<Longrightarrow> tables s' = d \<and> start s' = None"
    and rollback_open: "start s = Some d \<Longrightarrow> rollback s = (r, s') \<Longrightarrow> tables s' = d \<and> start s' = None"
    and rollback_closed: "start s = None \<Longrightarrow> rollback s = (r, s') \<Longrightarrow> tables s' = tables s \<and> start s' = None"
begin

text \<open>The end of a transaction: refused at the start, or the body ran on the same tables, and what it did stays
  exactly when it has closed the transaction itself.\<close>

lemma transact_cases [consumes 2, case_names refused ran]:
  assumes "transact begin_tx rollback body s = (r, s')" "start s = None"
  obtains (refused) e where "begin_tx s = (Some e, s')" "r = Inl e" "tables s' = tables s" "start s' = None"
    | (ran) s1 s2 where "begin_tx s = (None, s1)" "start s1 = Some (tables s)" "tables s1 = tables s"
      "body s1 = (r, s2)" "rollback s2 = (fst (rollback s2), s')" "start s' = None"
      "start s2 = None \<Longrightarrow> tables s' = tables s2" "\<And>d. start s2 = Some d \<Longrightarrow> tables s' = d"
proof (cases "begin_tx s")
  case (Pair b s1)
  show thesis
  proof (cases b)
    case (Some e)
    with Pair assms begin_refused [OF assms(2)] show thesis by (intro refused [of e]) (auto simp: transact_def)
  next
    case None
    obtain s2 where b: "body s1 = (r, s2)" "s' = snd (rollback s2)"
      using assms(1) Pair None by (auto simp: transact_def split: prod.splits)
    then have rb: "rollback s2 = (fst (rollback s2), s')" by simp
    have "start s' = None" using rollback_open [OF _ rb] rollback_closed [OF _ rb] by (cases "start s2") auto
    with Pair None b rb begin_ok [of s s1] rollback_open [OF _ rb] rollback_closed [OF _ rb]
    show thesis by (intro ran [of s1 s2]) auto
  qed
qed

text \<open>A body that gives up with the transaction still open changes no table, whatever it did.\<close>

lemma transact_gives_up:
  assumes "transact begin_tx rollback body s = (r, s')" "start s = None"
    and "\<And>s1 s2. body s1 = (r, s2) \<Longrightarrow> start s1 = Some (tables s) \<Longrightarrow> tables s1 = tables s \<Longrightarrow> start s2 = start s1"
  shows "tables s' = tables s \<and> start s' = None"
  using assms(1,2) by (cases rule: transact_cases) (auto dest: assms(3))

end

lemma store_begin_ok: "Begin tenantID \<sigma> = (None, \<sigma>') \<Longrightarrow> db \<sigma>' = db \<sigma> \<and> snap \<sigma>' = Some (db \<sigma>)"
  by (auto simp: Begin_def run_stmt_def Let_def split: prod.splits sum.splits list.splits option.splits if_splits)

lemma store_begin_refused:
  "snap \<sigma> = None \<Longrightarrow> Begin tenantID \<sigma> = (Some e, \<sigma>') \<Longrightarrow> db \<sigma>' = db \<sigma> \<and> snap \<sigma>' = None"
  by (auto simp: Begin_def run_stmt_def Let_def split: prod.splits sum.splits list.splits option.splits if_splits)

interpretation session: unit_of_work "Begin tenantID" "Commit True" "Rollback True" db snap
proof unfold_locales
  show "snap s = None \<Longrightarrow> Begin tenantID s = (Some e, s') \<Longrightarrow> db s' = db s \<and> snap s' = None" for s s' e
    by (rule store_begin_refused)
  show "Begin tenantID s = (None, s') \<Longrightarrow> db s' = db s \<and> snap s' = Some (db s)" for s s'
    by (rule store_begin_ok)
qed (auto simp: Commit_def Rollback_def Let_def split: list.splits option.splits if_splits)

text \<open>Lifting the interface to a world that contains the session: \<open>get\<close> and \<open>put\<close> of the session field.\<close>

lemma unit_of_work_lift:
  assumes "unit_of_work b c r t s"
    and "\<And>w \<sigma>. get (put w \<sigma>) = \<sigma>"
  shows "unit_of_work (\<lambda>w. case b (get w) of (x, \<sigma>) \<Rightarrow> (x, put w \<sigma>)) (\<lambda>w. case c (get w) of (x, \<sigma>) \<Rightarrow> (x, put w \<sigma>))
    (\<lambda>w. case r (get w) of (x, \<sigma>) \<Rightarrow> (x, put w \<sigma>)) (\<lambda>w. t (get w)) (\<lambda>w. s (get w))"
proof -
  note laws = unit_of_work.begin_refused [OF assms(1)] unit_of_work.begin_ok [OF assms(1)]
    unit_of_work.commit_ok [OF assms(1)] unit_of_work.commit_failed [OF assms(1)]
    unit_of_work.rollback_open [OF assms(1)] unit_of_work.rollback_closed [OF assms(1)]
  show ?thesis
    by unfold_locales (auto simp: assms(2) dest: laws split: prod.splits)
qed

end
