(* ===== verification/Workflow_Service.thy ===== *)
theory Workflow_Service imports Dag Exec_Repo Workflow_Repo Pagination Transactions begin

text \<open>
  The workflow service, \<open>internal/services/workflow.go\<close>: creating, versioning, deleting and triggering workflows.

  The service's world is the database session, the Redis list of jobs and the coming outcomes of \<open>RPush\<close>. \<open>uuid.New()\<close> takes the next element of the session's supply. Time 0 is
  Go's zero time. \<open>ctx_tenant\<close> is the tenant in the request's context.
\<close>

record svc =
  ses :: store
  queue :: "string list"
  push_faults :: "err option list"

definition on_ses :: "(store \<Rightarrow> 'a \<times> store) \<Rightarrow> svc \<Rightarrow> 'a \<times> svc" where
  "on_ses f s = (case f (ses s) of (x, \<sigma>) \<Rightarrow> (x, s\<lparr>ses := \<sigma>\<rparr>))"

definition new_uuid :: "store \<Rightarrow> string \<times> store" where
  "new_uuid \<sigma> = (case uuids \<sigma> of [] \<Rightarrow> ('''', \<sigma>) | u # us \<Rightarrow> (u, \<sigma>\<lparr>uuids := us\<rparr>))"

text \<open>\<open>cache.RPush\<close> of one value.\<close>

definition RPush :: "string \<Rightarrow> svc \<Rightarrow> err option \<times> svc" where
  "RPush v s =
     (case push_faults s of
        Some e # fs \<Rightarrow> (Some e, s\<lparr>push_faults := fs\<rparr>)
      | fs \<Rightarrow> (None, s\<lparr>push_faults := tl fs, queue := queue s @ [v]\<rparr>))"

text \<open>A method body between \<open>Begin\<close> and its return, with \<open>defer trx.Rollback(txCtx)\<close>.\<close>

definition in_tx :: "string \<Rightarrow> (svc \<Rightarrow> (err + 'a) \<times> svc) \<Rightarrow> svc \<Rightarrow> (err + 'a) \<times> svc" where
  "in_tx ctx_tenant = transact (on_ses (Begin ctx_tenant)) (on_ses (Rollback True))"

interpretation svc_tx: unit_of_work "on_ses (Begin ctx_tenant)" "on_ses (Commit True)" "on_ses (Rollback True)"
  "\<lambda>s. db (ses s)" "\<lambda>s. snap (ses s)"
  unfolding on_ses_def
  by (rule unit_of_work_lift [where get = ses and put = "\<lambda>s \<sigma>. s\<lparr>ses := \<sigma>\<rparr>", OF session.unit_of_work_axioms]) simp

record WorkflowRequest =
  wr_TenantID :: string
  wr_Name :: string
  wr_Description :: string
  wr_DAGDefinition :: json_text
  wr_CurrentVersion :: int

record WorkflowResponse =
  ws_WorkflowID :: string
  ws_TenantID :: string
  ws_Name :: string
  ws_Description :: string
  ws_DAGDefinition :: "StepDefinition list"
  ws_Version :: int
  ws_IsActive :: bool
  ws_CreatedAt :: time
  ws_UpdatedAt :: "time option"

definition workflow_response :: "Workflow \<Rightarrow> StepDefinition list \<Rightarrow> WorkflowResponse" where
  "workflow_response w steps = \<lparr>ws_WorkflowID = w_ID w, ws_TenantID = w_TenantID w, ws_Name = w_Name w,
     ws_Description = w_Description w, ws_DAGDefinition = steps, ws_Version = w_Version w,
     ws_IsActive = w_IsActive w, ws_CreatedAt = w_CreatedAt w, ws_UpdatedAt = w_UpdatedAt w\<rparr>"

definition unmarshal_request :: "json_text \<Rightarrow> err + StepDefinition list" where
  "unmarshal_request raw =
     (case unmarshal_steps raw of
        Inl e \<Rightarrow> Inl (NewError ErrTypeValidation ''failed unmarshal request'' (Some e))
      | Inr steps \<Rightarrow> Inr steps)"

definition stored_steps :: "Workflow \<Rightarrow> err + StepDefinition list" where
  "stored_steps w =
     (case unmarshal_steps (w_DAGDefinition w) of
        Inl e \<Rightarrow> Inl (NewError ErrTypeValidation ''invalid dag definition'' (Some e))
      | Inr steps \<Rightarrow> Inr steps)"

subsection \<open>Create, Get, List, ListVersions, Delete\<close>

definition new_workflow ::
    "string \<Rightarrow> string \<Rightarrow> string \<Rightarrow> string \<Rightarrow> json_text \<Rightarrow> time \<Rightarrow> int \<Rightarrow> Workflow" where
  "new_workflow i tenantID name description dagDefinition now version =
     \<lparr>w_ID = i, w_TenantID = tenantID, w_Name = name, w_Description = description,
      w_DAGDefinition = dagDefinition, w_Version = version, w_IsCurrent = False, w_IsActive = False,
      w_CreatedAt = now, w_UpdatedAt = None\<rparr>"

definition workflow_Create :: "(string list \<Rightarrow> string list) \<Rightarrow> string \<Rightarrow> WorkflowRequest \<Rightarrow> svc \<Rightarrow>
    (err + WorkflowResponse) \<times> svc" where
  "workflow_Create ro tenantID req s =
     (case unmarshal_request (wr_DAGDefinition req) of
        Inl e \<Rightarrow> (Inl e, s)
      | Inr steps \<Rightarrow>
          (case BuildExecutionPlan ro steps of
             Inl e \<Rightarrow> (Inl e, s)
           | Inr _ \<Rightarrow>
               (case on_ses new_uuid s of (i, s1) \<Rightarrow>
                  (let workflow = new_workflow i tenantID (wr_Name req) (wr_Description req)
                         (wr_DAGDefinition req) (clock (ses s1)) 1 in
                   case on_ses (wf_Create workflow) s1 of
                     (Some e, s2) \<Rightarrow> (Inl e, s2)
                   | (None, s2) \<Rightarrow> (Inr (workflow_response (activated workflow) steps), s2)))))"

definition workflow_Get :: "string \<Rightarrow> string \<Rightarrow> svc \<Rightarrow> (err + WorkflowResponse) \<times> svc" where
  "workflow_Get tenantID i s =
     (case on_ses (wf_Get [(''id'', TextV i), (''tenant_id'', TextV tenantID)]) s of
        (Inl e, s1) \<Rightarrow> (Inl e, s1)
      | (Inr wfl, s1) \<Rightarrow>
          (case stored_steps wfl of
             Inl e \<Rightarrow> (Inl e, s1)
           | Inr steps \<Rightarrow> (Inr (workflow_response wfl steps), s1)))"

fun workflow_responses :: "Workflow list \<Rightarrow> err + WorkflowResponse list" where
  "workflow_responses [] = Inr []"
| "workflow_responses (wfl # wfs) =
     (case stored_steps wfl of
        Inl e \<Rightarrow> Inl e
      | Inr steps \<Rightarrow>
          (case workflow_responses wfs of
             Inl e \<Rightarrow> Inl e | Inr rs \<Rightarrow> Inr (workflow_response wfl steps # rs)))"

definition workflow_List :: "nat \<Rightarrow> string \<Rightarrow> string \<Rightarrow> string \<Rightarrow> svc \<Rightarrow>
    (err + WorkflowResponse list \<times> nat \<times> string) \<times> svc" where
  "workflow_List pageSize pageToken tenantID workflowName s =
     (case page_request pageToken pageSize of
        Inl e \<Rightarrow> (Inl e, s)
      | Inr (offset, pageSize') \<Rightarrow>
          (let filters = (''tenant_id'', TextV tenantID)
                 # (if workflowName \<noteq> '''' then [(''name'', TextV workflowName)] else []) in
           case on_ses (wf_List pageSize' offset filters) s of
             (Inl e, s1) \<Rightarrow> (Inl e, s1)
           | (Inr (wfs, found), s1) \<Rightarrow>
               (case workflow_responses wfs of
                  Inl e \<Rightarrow> (Inl e, s1)
                | Inr rs \<Rightarrow> (Inr (rs, found, next_page_token found offset pageSize'), s1))))"

record WorkflowVersion =
  wv_WorkflowID :: string
  wv_TenantID :: string
  wv_Name :: string
  wv_Description :: string
  wv_DAGDefinition :: "StepDefinition list"
  wv_Version :: int
  wv_IsCurrent :: bool
  wv_CreatedAt :: time

text \<open>A definition that does not decode is logged and listed without steps. (\<open>json.Unmarshal\<close> may fill a
  prefix of the slice before it fails; that prefix is left out here.)\<close>

definition workflow_ListVersions :: "string \<Rightarrow> string \<Rightarrow> svc \<Rightarrow> (err + WorkflowVersion list) \<times> svc" where
  "workflow_ListVersions tenantID name s =
     (case on_ses (wf_ListVersions tenantID name) s of
        (Inl e, s1) \<Rightarrow> (Inl e, s1)
      | (Inr wfs, s1) \<Rightarrow>
          (Inr (map (\<lambda>wfl. \<lparr>wv_WorkflowID = w_ID wfl, wv_TenantID = w_TenantID wfl, wv_Name = w_Name wfl,
             wv_Description = w_Description wfl,
             wv_DAGDefinition = (case GetSteps wfl of Inl e \<Rightarrow> [] | Inr steps \<Rightarrow> steps),
             wv_Version = w_Version wfl, wv_IsCurrent = w_IsCurrent wfl, wv_CreatedAt = w_CreatedAt wfl\<rparr>) wfs), s1))"

definition workflow_Delete :: "string \<Rightarrow> string \<Rightarrow> svc \<Rightarrow> err option \<times> svc" where
  "workflow_Delete tenantID name s = on_ses (wf_Delete tenantID name) s"

subsection \<open>Update and Rollback\<close>

definition update_body :: "WorkflowRequest \<Rightarrow> svc \<Rightarrow> (err + unit) \<times> svc" where
  "update_body req s1 =
     (case on_ses (wf_GetForUpdate (wr_TenantID req) (wr_Name req) (wr_CurrentVersion req) True) s1 of
        (Inl e, s2) \<Rightarrow> (Inl e, s2)
      | (Inr lockedID, s2) \<Rightarrow>
          (case on_ses new_uuid s2 of (i, s3) \<Rightarrow>
             (case on_ses (wf_Create (new_workflow i (wr_TenantID req) (wr_Name req) (wr_Description req)
                 (wr_DAGDefinition req) (clock (ses s3)) (wrap64 (wr_CurrentVersion req + 1)))) s3 of
                (Some e, s4) \<Rightarrow> (Inl e, s4)
              | (None, s4) \<Rightarrow>
                  (case on_ses (wf_Update lockedID
                      [(''is_current'', FlagV False), (''updated_at'', TimeV (Some (clock (ses s4))))]) s4 of
                     (Some e, s5) \<Rightarrow> (Inl e, s5)
                   | (None, s5) \<Rightarrow>
                       (case on_ses (Commit True) s5 of
                          (Some e, s6) \<Rightarrow> (Inl e, s6)
                        | (None, s6) \<Rightarrow> (Inr (), s6))))))"

definition workflow_Update :: "(string list \<Rightarrow> string list) \<Rightarrow> string \<Rightarrow> WorkflowRequest \<Rightarrow> svc \<Rightarrow>
    (err + unit) \<times> svc" where
  "workflow_Update ro ctx_tenant req s =
     (case unmarshal_request (wr_DAGDefinition req) of
        Inl e \<Rightarrow> (Inl e, s)
      | Inr steps \<Rightarrow>
          (case BuildExecutionPlan ro steps of
             Inl e \<Rightarrow> (Inl e, s)
           | Inr _ \<Rightarrow> in_tx ctx_tenant (update_body req) s))"

record WorkflowRollbackRequest =
  rb_TenantID :: string
  rb_Name :: string
  rb_TargetVersion :: int
  rb_CurrentVersion :: int

definition rollback_body :: "WorkflowRollbackRequest \<Rightarrow> svc \<Rightarrow> (err + unit) \<times> svc" where
  "rollback_body req s1 =
     (case on_ses (wf_GetForUpdate (rb_TenantID req) (rb_Name req) (rb_CurrentVersion req) True) s1 of
        (Inl e, s2) \<Rightarrow> (Inl e, s2)
      | (Inr currentID, s2) \<Rightarrow>
          (case on_ses (wf_GetForUpdate (rb_TenantID req) (rb_Name req) (rb_TargetVersion req) True) s2 of
             (Inl e, s3) \<Rightarrow> (Inl e, s3)
           | (Inr targetID, s3) \<Rightarrow>
               (case on_ses (wf_Update currentID
                   [(''is_current'', FlagV False), (''updated_at'', TimeV (Some (clock (ses s3))))]) s3 of
                  (Some e, s4) \<Rightarrow> (Inl e, s4)
                | (None, s4) \<Rightarrow>
                    (case on_ses (wf_Update targetID
                        [(''is_current'', FlagV True), (''updated_at'', TimeV (Some (clock (ses s4))))]) s4 of
                       (Some e, s5) \<Rightarrow> (Inl e, s5)
                     | (None, s5) \<Rightarrow>
                         (case on_ses (Commit True) s5 of
                            (Some e, s6) \<Rightarrow> (Inl e, s6)
                          | (None, s6) \<Rightarrow> (Inr (), s6))))))"

definition workflow_Rollback :: "string \<Rightarrow> WorkflowRollbackRequest \<Rightarrow> svc \<Rightarrow> (err + unit) \<times> svc" where
  "workflow_Rollback ctx_tenant req s = in_tx ctx_tenant (rollback_body req) s"

subsection \<open>CreateFromText\<close>

text \<open>\<open>validateDAG\<close>; its loop over dependencies has no effect.\<close>

fun check_steps :: "string list \<Rightarrow> StepDefinition list \<Rightarrow> err option" where
  "check_steps seen [] = None"
| "check_steps seen (step # steps) =
     (if d_ID step = '''' then Some (ErrorString ''step missing required field: id'')
      else if d_Action step = '''' then
        Some (ErrorString (''step '' @ d_ID step @ '' missing required field: action''))
      else if d_ID step \<in> set seen then Some (ErrorString (''duplicate step id: '' @ d_ID step))
      else check_steps (d_ID step # seen) steps)"

definition validateDAG :: "(string list \<Rightarrow> string list) \<Rightarrow> StepDefinition list \<Rightarrow> err option" where
  "validateDAG ro steps =
     (if steps = [] then Some (ErrorString ''workflow must have at least one step'')
      else case check_steps [] steps of
        Some e \<Rightarrow> Some e
      | None \<Rightarrow> (case BuildExecutionPlan ro steps of Inl e \<Rightarrow> Some e | Inr _ \<Rightarrow> None))"

text \<open>
  \<open>generate prompt g\<close> is \<open>GenerateDAGFromText\<close> of the AI service, with that service's state \<open>g\<close>; the service itself is
  modelled in \<open>AI_Service\<close>. The attempts made are \<open>3 - left\<close>.
\<close>

type_synonym 'g text_to_steps = "string \<Rightarrow> 'g \<Rightarrow> (err + StepDefinition list) \<times> 'g"

fun text_attempts :: "(string list \<Rightarrow> string list) \<Rightarrow> 'g text_to_steps \<Rightarrow> string \<Rightarrow> string
    \<Rightarrow> nat \<Rightarrow> string \<Rightarrow> err \<Rightarrow> 'g \<times> svc \<Rightarrow> (err + WorkflowResponse) \<times> 'g \<times> svc" where
  "text_attempts ro generate tenantID name 0 prompt lastErr (g, s) =
     (Inl (WrapError ''failed to create workflow after 3 attempts: '' lastErr), g, s)"
| "text_attempts ro generate tenantID name (Suc left) prompt lastErr (g, s) =
     (case generate prompt g of
        (Inl e, g1) \<Rightarrow> text_attempts ro generate tenantID name left prompt e (g1, s)
      | (Inr steps, g1) \<Rightarrow>
          (case validateDAG ro steps of
             Some e \<Rightarrow> text_attempts ro generate tenantID name left
               (prompt @ [CHR 0x0A, CHR 0x0A] @ ''Previous attempt failed validation: '' @ error_string e
                  @ ''. Please correct.'') e (g1, s)
           | None \<Rightarrow>
               (case on_ses new_uuid s of (i, s2) \<Rightarrow>
                  (let workflow = new_workflow i tenantID name (''Created from AI prompt: '' @ prompt)
                         (marshal_steps steps) (clock (ses s2)) 1 in
                   case on_ses (wf_Create workflow) s2 of
                     (Some e, s3) \<Rightarrow> (Inl e, g1, s3)
                   | (None, s3) \<Rightarrow> (Inr (workflow_response (activated workflow) steps), g1, s3)))))"

definition workflow_CreateFromText :: "(string list \<Rightarrow> string list) \<Rightarrow> 'g text_to_steps option \<Rightarrow> string \<Rightarrow> string
    \<Rightarrow> string \<Rightarrow> 'g \<times> svc \<Rightarrow> (err + WorkflowResponse) \<times> 'g \<times> svc" where
  "workflow_CreateFromText ro aiSvc tenantID name prompt gs =
     (case aiSvc of
        None \<Rightarrow> (Inl (ErrorString ''AI service not configured''), gs)
      | Some generate \<Rightarrow> text_attempts ro generate tenantID name 3 prompt (ErrorString '''') gs)"

subsection \<open>Trigger\<close>

definition new_execution :: "string \<Rightarrow> string \<Rightarrow> string \<Rightarrow> string \<Rightarrow> int \<Rightarrow> time \<Rightarrow> Execution" where
  "new_execution i tenantID workflowID triggerType version now =
     \<lparr>e_ID = i, e_TenantID = tenantID, e_WorkflowID = workflowID, e_Status = StatusExecutionPending,
      e_TriggerType = triggerType, e_Version = version, e_StartedAt = None, e_CompletedAt = None,
      e_CreatedAt = now, e_UpdatedAt = 0\<rparr>"

definition new_step :: "string \<Rightarrow> string \<Rightarrow> string \<Rightarrow> StepDefinition \<Rightarrow> StepExecution" where
  "new_step i tenantID executionID stepDef =
     \<lparr>s_ID = i, s_TenantID = tenantID, s_ExecutionID = executionID, s_StepID = d_ID stepDef,
      s_Action = d_Action stepDef, s_Status = StatusExecutionPending, s_Version = 1, s_RetryCount = 0,
      s_ErrorLog = '''', s_Output = None, s_StartedAt = None, s_CompletedAt = None\<rparr>"

fun create_steps :: "string \<Rightarrow> string \<Rightarrow> StepDefinition list \<Rightarrow> store \<Rightarrow> err option \<times> store" where
  "create_steps tenantID executionID [] \<sigma> = (None, \<sigma>)"
| "create_steps tenantID executionID (stepDef # defs) \<sigma> =
     (case new_uuid \<sigma> of (i, \<sigma>1) \<Rightarrow>
        (case step_Create (new_step i tenantID executionID stepDef) \<sigma>1 of
           (Some e, \<sigma>2) \<Rightarrow> (Some e, \<sigma>2)
         | (None, \<sigma>2) \<Rightarrow> create_steps tenantID executionID defs \<sigma>2))"

text \<open>What \<open>Trigger\<close> does between \<open>Begin\<close> and its return.\<close>

definition trigger_body :: "string \<Rightarrow> Workflow \<Rightarrow> svc \<Rightarrow> (err + Execution) \<times> svc" where
  "trigger_body triggerType wfl s1 =
     (case on_ses new_uuid s1 of (i, s2) \<Rightarrow>
        (let execution = new_execution i (w_TenantID wfl) (w_ID wfl) triggerType (w_Version wfl) (clock (ses s2)) in
         case on_ses (exec_Create execution) s2 of
           (Some e, s3) \<Rightarrow> (Inl e, s3)
         | (None, s3) \<Rightarrow>
             (case GetSteps wfl of
                Inl e \<Rightarrow> (Inl (NewError ErrTypeInternal ''failed to parse workflow steps'' (Some e)), s3)
              | Inr steps \<Rightarrow>
                  (case on_ses (create_steps (w_TenantID wfl) i steps) s3 of
                     (Some e, s4) \<Rightarrow> (Inl e, s4)
                   | (None, s4) \<Rightarrow>
                       (case on_ses (Commit True) s4 of
                          (Some e, s5) \<Rightarrow> (Inl e, s5)
                        | (None, s5) \<Rightarrow>
                            (case RPush i s5 of
                               (Some e, s6) \<Rightarrow> (Inl (NewError ErrTypeInternal ''failed to enqueue job'' (Some e)), s6)
                             | (None, s6) \<Rightarrow> (Inr execution, s6)))))))"

definition workflow_Trigger :: "string \<Rightarrow> string \<Rightarrow> string \<Rightarrow> string \<Rightarrow> svc \<Rightarrow> (err + Execution) \<times> svc" where
  "workflow_Trigger ctx_tenant tenantID workflowID triggerType s =
     (case on_ses (wf_Get [(''id'', TextV workflowID), (''tenant_id'', TextV tenantID)]) s of
        (Inl e, s0) \<Rightarrow> (Inl e, s0)
      | (Inr wfl, s0) \<Rightarrow>
          in_tx ctx_tenant (trigger_body (if triggerType = '''' then ''MANUAL'' else triggerType) wfl) s0)"

end
