(* ===== verification/Execution_Service.thy ===== *)
theory Execution_Service imports Workflow_Service begin

text \<open>
  The services of executions and step executions, \<open>internal/services/execution.go\<close> and \<open>step.go\<close>: reading
  pages of them, retrying a failed execution and cancelling a running one. \<open>has_cache\<close> says whether the service
  was given a Redis client.
\<close>

record ExecutionResponse =
  xr_ID :: string
  xr_TenantID :: string
  xr_WorkflowID :: string
  xr_Status :: string
  xr_TriggerType :: string
  xr_Version :: int
  xr_CreatedAt :: time
  xr_StartedAt :: "time option"
  xr_CompletedAt :: "time option"
  xr_UpdatedAt :: time

definition execution_response :: "Execution \<Rightarrow> ExecutionResponse" where
  "execution_response e = \<lparr>xr_ID = e_ID e, xr_TenantID = e_TenantID e, xr_WorkflowID = e_WorkflowID e,
     xr_Status = e_Status e, xr_TriggerType = e_TriggerType e, xr_Version = e_Version e,
     xr_CreatedAt = e_CreatedAt e, xr_StartedAt = e_StartedAt e, xr_CompletedAt = e_CompletedAt e,
     xr_UpdatedAt = 0\<rparr>"

text \<open>\<open>Get\<close> leaves the response's version at its zero value, \<open>List\<close> fills it in; neither fills the update time.\<close>

definition execution_Get :: "string \<Rightarrow> string \<Rightarrow> svc \<Rightarrow> (err + ExecutionResponse) \<times> svc" where
  "execution_Get tenantID i s =
     (case on_ses (exec_Get [(''id'', TextV i), (''tenant_id'', TextV tenantID)]) s of
        (Inl e, s1) \<Rightarrow> (Inl e, s1)
      | (Inr exe, s1) \<Rightarrow> (Inr ((execution_response exe)\<lparr>xr_Version := 0\<rparr>), s1))"

record ListExecutionRequest =
  le_TenantID :: string
  le_WorkflowID :: string
  le_Status :: string
  le_TriggerType :: string
  le_PageSize :: nat
  le_PageToken :: string

definition execution_filters :: "ListExecutionRequest \<Rightarrow> colmap" where
  "execution_filters req =
     (''tenant_id'', TextV (le_TenantID req))
     # filter (\<lambda>cv. snd cv \<noteq> TextV '''')
         [(''workflow_id'', TextV (le_WorkflowID req)), (''status'', TextV (le_Status req)),
          (''trigger_type'', TextV (le_TriggerType req))]"

definition execution_List :: "ListExecutionRequest \<Rightarrow> svc \<Rightarrow>
    (err + ExecutionResponse list \<times> nat \<times> string) \<times> svc" where
  "execution_List req s =
     (case page_request (le_PageToken req) (le_PageSize req) of
        Inl e \<Rightarrow> (Inl e, s)
      | Inr (offset, pageSize) \<Rightarrow>
          (case on_ses (exec_List pageSize offset (execution_filters req)) s of
             (Inl e, s1) \<Rightarrow> (Inl e, s1)
           | (Inr (exes, found), s1) \<Rightarrow>
               (Inr (map execution_response exes, found, next_page_token found offset pageSize), s1)))"

text \<open>\<open>Retry\<close> looks the workflow up by the execution's version, and gives the new execution that version. The
  steps get the caller's tenant. A failed \<open>RPush\<close> is dropped.\<close>

definition retry_body :: "bool \<Rightarrow> string \<Rightarrow> Execution \<Rightarrow> Workflow \<Rightarrow> svc \<Rightarrow> (err + unit) \<times> svc" where
  "retry_body has_cache tenantID oldExec workflow s1 =
     (case on_ses new_uuid s1 of (i, s2) \<Rightarrow>
        (let execution = new_execution i (e_TenantID oldExec) (e_WorkflowID oldExec) ''MANUAL''
               (e_Version oldExec) (clock (ses s2)) in
         case on_ses (exec_Create execution) s2 of
           (Some e, s3) \<Rightarrow> (Inl e, s3)
         | (None, s3) \<Rightarrow>
             (case unmarshal_steps (w_DAGDefinition workflow) of
                Inl e \<Rightarrow> (Inl (NewError ErrTypeInternal ''failed to unmarshal workflow definition'' (Some e)), s3)
              | Inr steps \<Rightarrow>
                  (case on_ses (create_steps tenantID i steps) s3 of
                     (Some e, s4) \<Rightarrow> (Inl e, s4)
                   | (None, s4) \<Rightarrow>
                       (case on_ses (Commit True) s4 of
                          (Some e, s5) \<Rightarrow> (Inl e, s5)
                        | (None, s5) \<Rightarrow> (Inr (), if has_cache then snd (RPush i s5) else s5))))))"

definition execution_Retry :: "bool \<Rightarrow> string \<Rightarrow> string \<Rightarrow> string \<Rightarrow> svc \<Rightarrow> (err + unit) \<times> svc" where
  "execution_Retry has_cache ctx_tenant tenantID executionID s =
     (case on_ses (exec_Get [(''id'', TextV executionID), (''tenant_id'', TextV tenantID)]) s of
        (Inl e, s0) \<Rightarrow> (Inl e, s0)
      | (Inr oldExec, s0) \<Rightarrow>
          (if e_Status oldExec \<noteq> StatusExecutionFailed then
             (Inl (NewError ErrTypeConflict ''execution is not in failed state'' None), s0)
           else case on_ses (wf_Get [(''id'', TextV (e_WorkflowID oldExec)), (''version'', NumV (e_Version oldExec)),
               (''tenant_id'', TextV tenantID)]) s0 of
             (Inl e, s1) \<Rightarrow> (Inl e, s1)
           | (Inr workflow, s1) \<Rightarrow> in_tx ctx_tenant (retry_body has_cache tenantID oldExec workflow) s1))"

definition execution_Cancel :: "string \<Rightarrow> string \<Rightarrow> svc \<Rightarrow> err option \<times> svc" where
  "execution_Cancel tenantID executionID s =
     (case on_ses (exec_Get [(''id'', TextV executionID), (''tenant_id'', TextV tenantID)]) s of
        (Inl e, s1) \<Rightarrow> (Some e, s1)
      | (Inr exec, s1) \<Rightarrow>
          (if e_Status exec \<noteq> StatusExecutionRunning then
             (Some (NewError ErrTypeConflict ''execution is not in running state'' None), s1)
           else on_ses (exec_Update (e_ID exec) (e_Version exec)
             [(''status'', TextV StatusExecutionCancelled)]) s1))"

subsection \<open>Step executions\<close>

record StepExecutionResponse =
  sr_ID :: string
  sr_TenantID :: string
  sr_ExecutionID :: string
  sr_StepID :: string
  sr_Action :: string
  sr_Status :: string
  sr_Version :: int
  sr_RetryCount :: int
  sr_Output :: "any option"
  sr_ErrorLog :: string
  sr_StartedAt :: "time option"
  sr_CompletedAt :: "time option"

definition step_response :: "StepExecution \<Rightarrow> StepExecutionResponse" where
  "step_response r = \<lparr>sr_ID = s_ID r, sr_TenantID = s_TenantID r, sr_ExecutionID = s_ExecutionID r,
     sr_StepID = s_StepID r, sr_Action = s_Action r, sr_Status = s_Status r, sr_Version = s_Version r,
     sr_RetryCount = s_RetryCount r, sr_Output = None, sr_ErrorLog = s_ErrorLog r, sr_StartedAt = s_StartedAt r,
     sr_CompletedAt = s_CompletedAt r\<rparr>"

definition stepexec_Get :: "string \<Rightarrow> string \<Rightarrow> svc \<Rightarrow> (err + StepExecutionResponse) \<times> svc" where
  "stepexec_Get tenantID i s =
     (case on_ses (step_Get [(''id'', TextV i), (''tenant_id'', TextV tenantID)]) s of
        (Inl e, s1) \<Rightarrow> (Inl e, s1)
      | (Inr r, s1) \<Rightarrow> (Inr (step_response r), s1))"

text \<open>\<open>List\<close> does not look at the request's tenant.\<close>

definition stepexec_List :: "string \<Rightarrow> nat \<Rightarrow> string \<Rightarrow> svc \<Rightarrow>
    (err + StepExecutionResponse list \<times> nat \<times> string) \<times> svc" where
  "stepexec_List executionID pageSize pageToken s =
     (case page_request pageToken pageSize of
        Inl e \<Rightarrow> (Inl e, s)
      | Inr (offset, pageSize') \<Rightarrow>
          (case on_ses (step_List executionID pageSize' offset) s of
             (Inl e, s1) \<Rightarrow> (Inl e, s1)
           | (Inr (steps, found), s1) \<Rightarrow>
               (Inr (map step_response steps, found, next_page_token found offset pageSize'), s1)))"

end
