(* ===== verification/Service_Facts.thy ===== *)
theory Service_Facts imports Execution_Service begin

text \<open>
  What the methods of the services do to the session, statement by statement: a created row is appended or
  nothing happens, a batch of steps is appended in the order of the definitions, and nothing but \<open>Begin\<close>,
  \<open>Commit\<close> and \<open>Rollback\<close> touches the transaction.
\<close>

lemma on_ses_pair: "on_ses f s = (x, s') \<longleftrightarrow> (\<exists>\<sigma>. f (ses s) = (x, \<sigma>) \<and> s' = s\<lparr>ses := \<sigma>\<rparr>)"
  by (auto simp: on_ses_def split: prod.splits)

lemma new_uuid_result: "new_uuid \<sigma> = (i, \<sigma>') \<Longrightarrow> db \<sigma>' = db \<sigma> \<and> snap \<sigma>' = snap \<sigma> \<and> sch \<sigma>' = sch \<sigma>"
  by (auto simp: new_uuid_def split: list.splits)

lemma RPush_result:
  "RPush v s = (r, s') \<Longrightarrow> ses s' = ses s \<and> queue s' = (if r = None then queue s @ [v] else queue s)"
  by (auto simp: RPush_def split: list.splits option.splits)

lemma insert_row_Inr:
  "insert_row t cols fk r rows = Inr (n, rows') \<Longrightarrow> n = 1 \<and> rows' = rows @ [r] \<and>
   (\<forall>x \<in> set rows. \<not> tb_clash t x r) \<and> tb_check t r = None \<and> set cols \<subseteq> set (tb_cols t)"
  by (auto simp: insert_row_def missing_column_def list_ex_iff find_None_iff2 split: option.splits if_splits)

lemma exec_Create_result:
  assumes "exec_Create e \<sigma> = (r, \<sigma>')"
  shows "snap \<sigma>' = snap \<sigma> \<and> sch \<sigma>' = sch \<sigma> \<and> (r \<noteq> None \<longrightarrow> db \<sigma>' = db \<sigma>) \<and>
    (r = None \<longrightarrow> db \<sigma>' = db \<sigma>\<lparr>executions := executions (db \<sigma>) @ [e]\<rparr> \<and>
       int4 (e_Version e) \<and> e_ID e \<notin> e_ID ` set (executions (db \<sigma>)) \<and> set execution_columns \<subseteq> set (sc_execution_cols (sch \<sigma>)))"
proof -
  let ?f = "\<lambda>sc now d. insert_row (execution_table sc) execution_columns (execution_fk d e) e (executions d)"
  obtain wr where w: "write_executions ?f \<sigma> = (wr, \<sigma>')"
    using assms by (auto simp: exec_Create_def affected_def split: prod.splits sum.splits if_splits)
  note W = write_executions_result [OF w]
  show ?thesis
  proof (cases wr)
    case (Inl x)
    with assms w W show ?thesis by (auto simp: exec_Create_def affected_def same_session_def)
  next
    case (Inr n)
    then obtain rows where rows: "?f (sch \<sigma>) (clock \<sigma>) (db \<sigma>) = Inr (n, rows)" "db \<sigma>' = db \<sigma>\<lparr>executions := rows\<rparr>"
      using W by auto
    note i = insert_row_Inr [OF rows(1)]
    then have "r = None" using assms w Inr by (simp add: exec_Create_def affected_def)
    with i rows(2) W show ?thesis by (auto simp: execution_table_def same_session_def split: if_splits)
  qed
qed

lemma step_Create_result:
  assumes "step_Create x \<sigma> = (r, \<sigma>')"
  shows "snap \<sigma>' = snap \<sigma> \<and> sch \<sigma>' = sch \<sigma> \<and> (r \<noteq> None \<longrightarrow> db \<sigma>' = db \<sigma>) \<and>
    (r = None \<longrightarrow> db \<sigma>' = db \<sigma>\<lparr>step_executions := step_executions (db \<sigma>) @ [x]\<rparr>)"
proof -
  let ?f = "\<lambda>sc now d. insert_row (step_table sc) step_execution_columns (step_fk d x) x (step_executions d)"
  obtain wr where w: "write_steps ?f \<sigma> = (wr, \<sigma>')"
    using assms by (auto simp: step_Create_def affected_def split: prod.splits sum.splits if_splits)
  note W = write_steps_result [OF w]
  show ?thesis
  proof (cases wr)
    case (Inl e)
    with assms w W show ?thesis by (auto simp: step_Create_def affected_def same_session_def)
  next
    case (Inr n)
    then obtain rows where rows: "?f (sch \<sigma>) (clock \<sigma>) (db \<sigma>) = Inr (n, rows)" "db \<sigma>' = db \<sigma>\<lparr>step_executions := rows\<rparr>"
      using W by auto
    note i = insert_row_Inr [OF rows(1)]
    then have "r = None" using assms w Inr by (simp add: step_Create_def affected_def)
    with i rows(2) W show ?thesis by (auto simp: same_session_def)
  qed
qed

text \<open>\<open>bare\<close> is a step row without its generated id.\<close>

definition bare :: "StepExecution \<Rightarrow> StepExecution" where
  "bare r = r\<lparr>s_ID := ''''\<rparr>"

lemma bare_new_step [simp]: "bare (new_step i t x d) = new_step '''' t x d"
  by (simp add: bare_def new_step_def)

lemma create_steps_result:
  assumes "create_steps t x defs \<sigma> = (r, \<sigma>')"
  shows "snap \<sigma>' = snap \<sigma> \<and> sch \<sigma>' = sch \<sigma> \<and>
    (r = None \<longrightarrow> (\<exists>rows. db \<sigma>' = db \<sigma>\<lparr>step_executions := step_executions (db \<sigma>) @ rows\<rparr> \<and>
       map bare rows = map (new_step '''' t x) defs))"
  using assms
proof (induction defs arbitrary: \<sigma>)
  case (Cons d defs)
  obtain i \<sigma>1 where u: "new_uuid \<sigma> = (i, \<sigma>1)" by fastforce
  obtain q \<sigma>2 where c: "step_Create (new_step i t x d) \<sigma>1 = (q, \<sigma>2)" by fastforce
  note U = new_uuid_result [OF u] and C = step_Create_result [OF c]
  show ?case
  proof (cases q)
    case (Some e)
    with Cons.prems u c U C show ?thesis by auto
  next
    case None
    with Cons.prems u c have "create_steps t x defs \<sigma>2 = (r, \<sigma>')" by simp
    note IH = Cons.IH [OF this]
    show ?thesis
    proof (intro conjI impI)
      assume "r = None"
      with IH obtain rows where "db \<sigma>' = db \<sigma>2\<lparr>step_executions := step_executions (db \<sigma>2) @ rows\<rparr>"
        "map bare rows = map (new_step '''' t x) defs" by auto
      then show "\<exists>rows. db \<sigma>' = db \<sigma>\<lparr>step_executions := step_executions (db \<sigma>) @ rows\<rparr> \<and>
          map bare rows = map (new_step '''' t x) (d # defs)"
        using None C U by (intro exI [of _ "new_step i t x d # rows"]) simp
    qed (use IH U C in auto)
  qed
qed simp

lemma exec_Get_result:
  assumes "exec_Get filters \<sigma> = (r, \<sigma>')"
  shows "same_session \<sigma> \<sigma>' \<and> db \<sigma>' = db \<sigma> \<and> (\<forall>x. r = Inr x \<longrightarrow> x \<in> set (executions (db \<sigma>)) \<and>
    row_eq (execution_table (sch \<sigma>)) filters x)"
proof -
  let ?p = "\<lambda>sc. row_eq (execution_table sc) filters"
  obtain q where q: "read_executions (map fst filters) ?p \<sigma> = (q, \<sigma>')"
    using arg_cong [OF assms, of snd] by (cases "read_executions (map fst filters) ?p \<sigma>") (simp add: exec_Get_def)
  note Q = query_result [OF q [unfolded read_executions_def]]
  have "x \<in> set (executions (db \<sigma>)) \<and> ?p (sch \<sigma>) x" if "r = Inr x" for x
  proof -
    have "db_result (collect_one (q, \<sigma>')) = (Inr x, \<sigma>')" using assms that q by (simp add: exec_Get_def)
    then obtain xs where "q = Inr (x # xs)" by (auto simp: db_result_Inr collect_one_Inr)
    with Q have f: "filter (?p (sch \<sigma>)) (executions (db \<sigma>)) = x # xs"
      by (auto simp: select_rows_def split: option.splits)
    from arg_cong [OF f, of set] show ?thesis by auto
  qed
  then show ?thesis using Q by blast
qed

end
