(* ===== verification/Service_Properties.thy ===== *)
theory Service_Properties imports Service_Facts Examples begin

text \<open>
  Properties of the workflow and execution services: creating, triggering, updating, rolling back, deleting and
  generating workflows, retrying and cancelling executions.
\<close>

definition demo_svc :: "Workflow list \<Rightarrow> Execution list \<Rightarrow> StepExecution list \<Rightarrow> svc" where
  "demo_svc ws es ss = \<lparr>ses = demo_session ws es ss [''u1'', ''u2'', ''u3''], queue = [], push_faults = []\<rparr>"

text \<open>\<open>launched\<close>: the database \<open>d'\<close> is \<open>d\<close> with one new execution and one new step row per definition of the
  workflow, in their order; nothing else differs.\<close>

definition launched :: "Workflow \<Rightarrow> Execution \<Rightarrow> database \<Rightarrow> database \<Rightarrow> bool" where
  "launched w e d d' \<longleftrightarrow> (\<exists>steps rows. GetSteps w = Inr steps \<and>
     d' = d\<lparr>executions := executions d @ [e], step_executions := step_executions d @ rows\<rparr> \<and>
     map bare rows = map (new_step '''' (e_TenantID e) (e_ID e)) steps \<and>
     e_ID e \<notin> e_ID ` set (executions d) \<and> int4 (e_Version e))"

lemma launch_rows:
  assumes "exec_Create e \<sigma> = (None, \<sigma>1)" "GetSteps w = Inr steps"
    and "create_steps (e_TenantID e) (e_ID e) steps \<sigma>1 = (None, \<sigma>2)"
  shows "launched w e (db \<sigma>) (db \<sigma>2)"
  using exec_Create_result [OF assms(1)] create_steps_result [OF assms(3)] assms(2)
  by (auto simp: launched_def)

lemma commit_ses:
  assumes "on_ses (Commit True) s = (r, s')" "snap (ses s) = Some d"
  shows "queue s' = queue s \<and> snap (ses s') = None \<and> (r = None \<longrightarrow> db (ses s') = db (ses s)) \<and>
    (r \<noteq> None \<longrightarrow> db (ses s') = d)"
  using svc_tx.commit_ok [of s s'] svc_tx.commit_failed [OF assms(2), of _ s'] assms(1)
  by (cases r) (auto simp: on_ses_pair)

definition triggered :: "string \<Rightarrow> string \<Rightarrow> string \<Rightarrow> Execution \<Rightarrow> database \<Rightarrow> database \<Rightarrow> bool" where
  "triggered tenantID workflowID triggerType e d d' \<longleftrightarrow>
     (\<exists>w \<in> set (workflows d). w_ID w = workflowID \<and> w_TenantID w = tenantID \<and> w_IsCurrent w \<and>
       e = new_execution (e_ID e) tenantID workflowID (if triggerType = '''' then ''MANUAL'' else triggerType)
         (w_Version w) (e_CreatedAt e) \<and> launched w e d d')"

lemma triggeredI:
  "w \<in> set (workflows d) \<Longrightarrow> w_IsCurrent w \<Longrightarrow> launched w e d d' \<Longrightarrow>
   e = new_execution (e_ID e) (w_TenantID w) (w_ID w) (if tt = '''' then ''MANUAL'' else tt) (w_Version w) (e_CreatedAt e) \<Longrightarrow>
   triggered (w_TenantID w) (w_ID w) tt e d d'"
  unfolding triggered_def by blast

definition enqueue_failed :: "err \<Rightarrow> bool" where
  "enqueue_failed f \<longleftrightarrow> (\<exists>g. f = NewError ErrTypeInternal ''failed to enqueue job'' (Some g))"

lemma trigger_body_result:
  assumes "trigger_body tt w s = (r, s')" "snap (ses s) = Some (db (ses s))"
  shows "snap (ses s') = snap (ses s) \<and> isl r \<and> queue s' = queue s \<or> snap (ses s') = None \<and>
    (case r of
       Inr e \<Rightarrow> launched w e (db (ses s)) (db (ses s')) \<and> queue s' = queue s @ [e_ID e] \<and>
         e = new_execution (e_ID e) (w_TenantID w) (w_ID w) tt (w_Version w) (e_CreatedAt e)
     | Inl f \<Rightarrow> queue s' = queue s \<and> (db (ses s') = db (ses s) \<or> enqueue_failed f \<and>
         (\<exists>e. launched w e (db (ses s)) (db (ses s')) \<and>
           e = new_execution (e_ID e) (w_TenantID w) (w_ID w) tt (w_Version w) (e_CreatedAt e))))"
proof -
  obtain i \<sigma>2 where u: "new_uuid (ses s) = (i, \<sigma>2)" by fastforce
  define e where "e = new_execution i (w_TenantID w) (w_ID w) tt (w_Version w) (clock \<sigma>2)"
  obtain c \<sigma>3 where c: "exec_Create e \<sigma>2 = (c, \<sigma>3)" by fastforce
  note U = new_uuid_result [OF u] and C = exec_Create_result [OF c]
  have e: "e_ID e = i" "e_TenantID e = w_TenantID w"
    "e = new_execution (e_ID e) (w_TenantID w) (w_ID w) tt (w_Version w) (e_CreatedAt e)"
    by (simp_all add: e_def new_execution_def)
  show ?thesis
  proof (cases "\<exists>steps \<sigma>4. c = None \<and> GetSteps w = Inr steps \<and> create_steps (w_TenantID w) i steps \<sigma>3 = (None, \<sigma>4)")
    case False
    then show ?thesis using assms u c U C
      by (auto simp: trigger_body_def on_ses_def Let_def e_def [symmetric] dest!: create_steps_result
          split: option.splits sum.splits prod.splits)
  next
    case True
    then obtain steps \<sigma>4 where k: "c = None" "GetSteps w = Inr steps" "create_steps (w_TenantID w) i steps \<sigma>3 = (None, \<sigma>4)"
      by blast
    have l: "launched w e (db (ses s)) (db \<sigma>4)"
      using launch_rows [OF _ k(2), of e \<sigma>2 \<sigma>3 \<sigma>4] c k(1,3) U e(1,2) by simp
    have sn: "snap \<sigma>4 = Some (db (ses s))" using U C create_steps_result [OF k(3)] assms(2) by simp
    obtain m s5 where m: "on_ses (Commit True) (s\<lparr>ses := \<sigma>4\<rparr>) = (m, s5)" by fastforce
    note M = commit_ses [OF m, of "db (ses s)"] 
    have b: "(r, s') = (case m of Some e \<Rightarrow> (Inl e, s5) | None \<Rightarrow>
        (case RPush i s5 of (Some e, s6) \<Rightarrow> (Inl (NewError ErrTypeInternal ''failed to enqueue job'' (Some e)), s6)
         | (None, s6) \<Rightarrow> (Inr e, s6)))"
      using assms(1) u c [unfolded e_def] k m
      by (auto simp: trigger_body_def on_ses_def Let_def e_def split: option.splits prod.splits)
    show ?thesis
    proof (cases m)
      case (Some x)
      then show ?thesis using b M sn by simp
    next
      case None
      obtain p s6 where p: "RPush i s5 = (p, s6)" by fastforce
      note P = RPush_result [OF p]
      show ?thesis using None b M sn p P l e by (cases p) (auto simp: enqueue_failed_def)
    qed
  qed
qed

lemma trigger_result:
  assumes "workflow_Trigger ctx tenantID workflowID triggerType s = (r, s')" "snap (ses s) = None"
  shows "case r of
      Inr e \<Rightarrow> triggered tenantID workflowID triggerType e (db (ses s)) (db (ses s')) \<and> queue s' = queue s @ [e_ID e]
    | Inl f \<Rightarrow> queue s' = queue s \<and> (db (ses s') = db (ses s) \<or>
        enqueue_failed f \<and> (\<exists>e. triggered tenantID workflowID triggerType e (db (ses s)) (db (ses s'))))"
proof -
  let ?tt = "if triggerType = '''' then ''MANUAL'' else triggerType"
  obtain g \<sigma>0 where g: "wf_Get [(''id'', TextV workflowID), (''tenant_id'', TextV tenantID)] (ses s) = (g, \<sigma>0)"
    by fastforce
  let ?s0 = "s\<lparr>ses := \<sigma>0\<rparr>"
  note G = wf_Get_result [OF g]
  show ?thesis
  proof (cases g)
    case (Inl e)
    with assms(1) g G show ?thesis by (auto simp: workflow_Trigger_def on_ses_def)
  next
    case (Inr w)
    have w: "w \<in> set (workflows (db (ses s)))" "w_ID w = workflowID" "w_TenantID w = tenantID" "w_IsCurrent w"
      using G Inr by (auto simp: row_eq_def workflow_table_def workflow_get_def)
    have s0: "snap (ses ?s0) = None" "db (ses ?s0) = db (ses s)" "queue ?s0 = queue s"
      using G assms(2) by (auto simp: same_session_def)
    have "in_tx ctx (trigger_body ?tt w) ?s0 = (r, s')"
      using assms(1) g Inr by (simp add: workflow_Trigger_def on_ses_def)
    from this [unfolded in_tx_def] s0(1) show ?thesis
    proof (cases rule: svc_tx.transact_cases)
      case (refused e)
      then show ?thesis using s0 by (auto simp: on_ses_pair)
    next
      case (ran s1 s2)
      have q: "queue s1 = queue s" "queue s' = queue s2" using ran(1,5) s0(3) by (auto simp: on_ses_pair)
      from trigger_body_result [OF ran(4)] ran(2,3) s0(2) have
        "snap (ses s2) = Some (db (ses s)) \<and> isl r \<and> queue s2 = queue s \<or> snap (ses s2) = None \<and>
          (case r of
             Inr e \<Rightarrow> triggered tenantID workflowID triggerType e (db (ses s)) (db (ses s2)) \<and> queue s2 = queue s @ [e_ID e]
           | Inl f \<Rightarrow> queue s2 = queue s \<and> (db (ses s2) = db (ses s) \<or>
               enqueue_failed f \<and> (\<exists>e. triggered tenantID workflowID triggerType e (db (ses s)) (db (ses s2)))))"
        using w q(1) by (cases r) (auto intro: triggeredI)
      then show ?thesis
        using ran(7,8) q by (auto split: sum.splits)
    qed
  qed
qed

text \<open>C8: \<open>Trigger\<close> is all or nothing. If it succeeds, the database has exactly one new execution, \<open>PENDING\<close>, at the
  workflow's version, of the caller's current workflow of that id, with one \<open>PENDING\<close> step per definition, and its id
  is at the end of the job queue. If it fails, nothing has changed, or everything is stored and only the
  enqueueing failed; in the second case the execution is left for the poller.\<close>

theorem trigger_all_or_nothing:
  assumes "workflow_Trigger ctx tenantID workflowID triggerType s = (r, s')" "snap (ses s) = None"
  shows "case r of
      Inr e \<Rightarrow> triggered tenantID workflowID triggerType e (db (ses s)) (db (ses s')) \<and> queue s' = queue s @ [e_ID e]
    | Inl f \<Rightarrow> queue s' = queue s \<and> (db (ses s') = db (ses s) \<or>
        enqueue_failed f \<and> (\<exists>e. triggered tenantID workflowID triggerType e (db (ses s)) (db (ses s'))))"
  using assms by (rule trigger_result)

theorem trigger_all_or_nothing_witness:
  "let s = demo_svc [demo_workflow] [] []; s' = snd (workflow_Trigger ''t1'' ''t1'' ''w1'' '''' s) in
   triggered ''t1'' ''w1'' '''' (new_execution ''u1'' ''t1'' ''w1'' ''MANUAL'' 1 2000) (db (ses s)) (db (ses s')) \<and>
   queue s' = [''u1'']"
proof -
  let ?s = "demo_svc [demo_workflow] [] []"
  have "fst (workflow_Trigger ''t1'' ''t1'' ''w1'' '''' ?s) = Inr (new_execution ''u1'' ''t1'' ''w1'' ''MANUAL'' 1 2000)"
    by code_simp
  moreover have "snap (ses ?s) = None" "queue ?s = []" by (simp_all add: demo_svc_def demo_session_def)
  ultimately show ?thesis
    using trigger_all_or_nothing [OF surjective_pairing, of ?s "''t1''" "''t1''" "''w1''" "''''"]
    by (simp add: Let_def new_execution_def)
qed

subsection \<open>Versions of a workflow\<close>

lemma update_body_gives_up:
  assumes "update_body req s1 = (r, s2)"
  shows "isl r \<and> snap (ses s2) = snap (ses s1) \<and> queue s2 = queue s1"
proof -
  obtain g \<sigma>1 where g: "wf_GetForUpdate (wr_TenantID req) (wr_Name req) (wr_CurrentVersion req) True (ses s1) = (g, \<sigma>1)"
    by fastforce
  note G = wf_GetForUpdate_result [OF g]
  obtain i \<sigma>2 where u: "new_uuid \<sigma>1 = (i, \<sigma>2)" by fastforce
  define w where "w = new_workflow i (wr_TenantID req) (wr_Name req) (wr_Description req)
    (wr_DAGDefinition req) (clock \<sigma>2) (wrap64 (wr_CurrentVersion req + 1))"
  obtain c \<sigma>3 where c: "wf_Create w \<sigma>2 = (c, \<sigma>3)" by fastforce
  note U = new_uuid_result [OF u] and C = wf_Create_result [OF c]
  show ?thesis
  proof (cases g)
    case (Inl e)
    with assms g G show ?thesis by (auto simp: update_body_def on_ses_def same_session_def)
  next
    case (Inr lockedID)
    then obtain x where x: "x \<in> set (workflows (db \<sigma>2))" "w_TenantID x = wr_TenantID req" "w_Name x = wr_Name req"
      "w_IsCurrent x" using G U by auto
    then have "workflow_clash x (activated w)"
      by (simp add: workflow_clash_def activated_def w_def new_workflow_def)
    with C x(1) obtain e where "c = Some e" by auto
    with assms g u c Inr G U C show ?thesis
      by (auto simp: update_body_def on_ses_def same_session_def w_def)
  qed
qed

text \<open>C28: \<open>Update\<close> never stores a new version: the new row is inserted as the current one while the old one is still
  current, which the unique index on current versions refuses. Every call fails, whatever the request, and leaves
  the database and the queue as they were.\<close>

theorem update_always_refused:
  assumes "workflow_Update ro ctx req s = (r, s')" "snap (ses s) = None"
  shows "isl r \<and> db (ses s') = db (ses s) \<and> queue s' = queue s"
proof (cases "in_tx ctx (update_body req) s = (r, s')")
  case True
  from this [unfolded in_tx_def] assms(2) show ?thesis
  proof (cases rule: svc_tx.transact_cases)
    case (refused e)
    then show ?thesis by (auto simp: on_ses_pair)
  next
    case (ran s1 s2)
    from update_body_gives_up [OF ran(4)] ran(1-3,5,8) show ?thesis by (auto simp: on_ses_pair)
  qed
next
  case False
  with assms(1) show ?thesis by (auto simp: workflow_Update_def split: sum.splits)
qed

theorem update_always_refused_witness:
  "let s = demo_svc [demo_workflow] [] [];
       req = \<lparr>wr_TenantID = ''t1'', wr_Name = ''demo'', wr_Description = ''second'',
         wr_DAGDefinition = marshal_steps demo_steps, wr_CurrentVersion = 1\<rparr> in
   isl (fst (workflow_Update id ''t1'' req s)) \<and> db (ses (snd (workflow_Update id ''t1'' req s))) = db (ses s)"
  using update_always_refused [OF surjective_pairing, of "demo_svc [demo_workflow] [] []" id "''t1''"]
  by (simp add: demo_svc_def demo_session_def Let_def)

lemma current_unique:
  assumes "workflow_inv \<sigma>" "x \<in> set (workflows (db \<sigma>))" "y \<in> set (workflows (db \<sigma>))"
    and "w_TenantID x = w_TenantID y" "w_Name x = w_Name y" "w_IsCurrent x" "w_IsCurrent y"
  shows "x = y"
  using has_clash_in [of "workflows (db \<sigma>)" x y] assms by (auto simp: workflow_inv_def workflow_clash_def)

lemma wf_id_unique:
  assumes "workflow_inv \<sigma>" "x \<in> set (workflows (db \<sigma>))" "y \<in> set (workflows (db \<sigma>))" "w_ID x = w_ID y"
  shows "x = y"
  using has_clash_in [of "workflows (db \<sigma>)" x y] assms by (auto simp: workflow_inv_def workflow_clash_def)

text \<open>Clearing and setting the flag of a current row leaves only the time stamp.\<close>

lemma toggle_current:
  assumes "workflow_inv \<sigma>" "w \<in> set (workflows (db \<sigma>))" "w_IsCurrent w"
  shows "modify_all (\<lambda>r. w_ID r = w_ID w) (\<lambda>r. r\<lparr>w_IsCurrent := True, w_UpdatedAt := Some t\<rparr>)
      (modify_all (\<lambda>r. w_ID r = w_ID w) (\<lambda>r. r\<lparr>w_IsCurrent := False, w_UpdatedAt := Some t\<rparr>) (workflows (db \<sigma>))) =
    modify_all (\<lambda>x. x = w) (\<lambda>x. x\<lparr>w_UpdatedAt := Some t\<rparr>) (workflows (db \<sigma>))"
proof -
  have "x = w" if "x \<in> set (workflows (db \<sigma>))" "w_ID x = w_ID w" for x
    using wf_id_unique [OF assms(1) that(1) assms(2) that(2)] .
  then show ?thesis using assms(3) by (auto simp: modify_all_def)
qed

lemma rollback_body_result:
  assumes "rollback_body req s = (r, s')" "snap (ses s) = Some (db (ses s))" "workflow_inv (ses s)"
  shows "snap (ses s') = snap (ses s) \<and> isl r \<or> snap (ses s') = None \<and> (case r of
      Inl e \<Rightarrow> db (ses s') = db (ses s)
    | Inr _ \<Rightarrow> rb_TargetVersion req = rb_CurrentVersion req \<and> (\<exists>w t. w \<in> set (workflows (db (ses s))) \<and>
        w_TenantID w = rb_TenantID req \<and> w_Name w = rb_Name req \<and> w_IsCurrent w \<and> w_Version w = rb_CurrentVersion req \<and>
        db (ses s') = (db (ses s))\<lparr>workflows := modify_all (\<lambda>x. x = w) (\<lambda>x. x\<lparr>w_UpdatedAt := Some t\<rparr>)
          (workflows (db (ses s)))\<rparr>))"
proof -
  obtain a \<sigma>1 where a: "wf_GetForUpdate (rb_TenantID req) (rb_Name req) (rb_CurrentVersion req) True (ses s) = (a, \<sigma>1)"
    by fastforce
  obtain b \<sigma>2 where b: "wf_GetForUpdate (rb_TenantID req) (rb_Name req) (rb_TargetVersion req) True \<sigma>1 = (b, \<sigma>2)"
    by fastforce
  note A = wf_GetForUpdate_result [OF a] and B = wf_GetForUpdate_result [OF b]
  show ?thesis
  proof (cases "\<exists>i j. a = Inr i \<and> b = Inr j")
    case False
    with assms(1,2) a b A B show ?thesis
      by (cases a; cases b) (auto simp: rollback_body_def on_ses_def same_session_def)
  next
    case True
    then obtain i j where ij: "a = Inr i" "b = Inr j" by blast
    obtain x where x: "x \<in> set (workflows (db (ses s)))" "w_ID x = i" "w_TenantID x = rb_TenantID req"
      "w_Name x = rb_Name req" "w_Version x = rb_CurrentVersion req" "w_IsCurrent x" using A ij by auto
    obtain y where y: "y \<in> set (workflows (db (ses s)))" "w_ID y = j" "w_TenantID y = rb_TenantID req"
      "w_Name y = rb_Name req" "w_Version y = rb_TargetVersion req" "w_IsCurrent y" using A B ij by auto
    have "x = y" using current_unique [OF assms(3) x(1) y(1)] x y by simp
    then have eq: "j = i" "rb_TargetVersion req = rb_CurrentVersion req" using x y by auto
    obtain c \<sigma>3 where c: "wf_Update i [(''is_current'', FlagV False), (''updated_at'', TimeV (Some (clock \<sigma>2)))] \<sigma>2 = (c, \<sigma>3)"
      by fastforce
    obtain d \<sigma>4 where d: "wf_Update i [(''is_current'', FlagV True), (''updated_at'', TimeV (Some (clock \<sigma>3)))] \<sigma>3 = (d, \<sigma>4)"
      by fastforce
    note C = wf_Update_result [OF c] and D = wf_Update_result [OF d]
    show ?thesis
    proof (cases "c = None \<and> d = None")
      case False
      with assms(1,2) a b c d ij eq A B C D show ?thesis
        by (cases c; cases d) (auto simp: rollback_body_def on_ses_def same_session_def)
    next
      case True
      have t: "clock \<sigma>3 = clock \<sigma>2" "snap \<sigma>4 = snap (ses s)" using A B C D by (auto simp: same_session_def)
      have db4: "db \<sigma>4 = (db (ses s))\<lparr>workflows := modify_all (\<lambda>z. z = x) (\<lambda>z. z\<lparr>w_UpdatedAt := Some (clock \<sigma>2)\<rparr>)
          (workflows (db (ses s)))\<rparr>"
        using wf_Update_current [of i False _ \<sigma>2 \<sigma>3] wf_Update_current [of i True _ \<sigma>3 \<sigma>4] c d True t(1) A B
          toggle_current [OF assms(3) x(1) x(6), of "clock \<sigma>2"] x(2) by simp
      obtain m s5 where m: "on_ses (Commit True) (s\<lparr>ses := \<sigma>4\<rparr>) = (m, s5)" by fastforce
      note M = commit_ses [OF m, of "db (ses s)"]
      have "(r, s') = (case m of Some e \<Rightarrow> (Inl e, s5) | None \<Rightarrow> (Inr (), s5))"
        using assms(1) a b ij eq(1) c d True m
        by (auto simp: rollback_body_def on_ses_def split: option.splits prod.splits)
      with M t(2) assms(2) db4 x eq(2) show ?thesis by (cases m) auto
    qed
  qed
qed

text \<open>C29: \<open>Rollback\<close> asks for the target version among the current rows, so it can only succeed when the target is the
  version that is current already; then it stamps that row's update time and changes nothing else. Otherwise
  it fails and changes nothing.\<close>

theorem rollback_only_to_current:
  assumes "workflow_Rollback ctx req s = (r, s')" "snap (ses s) = None" "workflow_inv (ses s)"
  shows "workflow_inv (ses s') \<and> (case r of
      Inl e \<Rightarrow> db (ses s') = db (ses s)
    | Inr _ \<Rightarrow> rb_TargetVersion req = rb_CurrentVersion req \<and> (\<exists>w t. w \<in> set (workflows (db (ses s))) \<and>
        w_TenantID w = rb_TenantID req \<and> w_Name w = rb_Name req \<and> w_IsCurrent w \<and> w_Version w = rb_CurrentVersion req \<and>
        db (ses s') = (db (ses s))\<lparr>workflows := modify_all (\<lambda>x. x = w) (\<lambda>x. x\<lparr>w_UpdatedAt := Some t\<rparr>)
          (workflows (db (ses s)))\<rparr>))"
proof -
  from assms(1) [unfolded workflow_Rollback_def in_tx_def] assms(2)
  have *: "case r of
      Inl e \<Rightarrow> db (ses s') = db (ses s)
    | Inr _ \<Rightarrow> rb_TargetVersion req = rb_CurrentVersion req \<and> (\<exists>w t. w \<in> set (workflows (db (ses s))) \<and>
        w_TenantID w = rb_TenantID req \<and> w_Name w = rb_Name req \<and> w_IsCurrent w \<and> w_Version w = rb_CurrentVersion req \<and>
        db (ses s') = (db (ses s))\<lparr>workflows := modify_all (\<lambda>x. x = w) (\<lambda>x. x\<lparr>w_UpdatedAt := Some t\<rparr>)
          (workflows (db (ses s)))\<rparr>)"
  proof (cases rule: svc_tx.transact_cases)
    case (ran s1 s2)
    from rollback_body_result [OF ran(4)] ran(2,3,7,8) assms(3) show ?thesis
      by (auto simp: workflow_inv_def split: sum.splits)
  qed simp
  then show ?thesis using assms(3)
    by (auto simp: workflow_inv_def has_clash_restamp split: sum.splits)
qed

theorem rollback_only_to_current_witness:
  "let s = demo_svc [demo_workflow] [] [];
       req = \<lparr>rb_TenantID = ''t1'', rb_Name = ''demo'', rb_TargetVersion = 0, rb_CurrentVersion = 1\<rparr> in
   isl (fst (workflow_Rollback ''t1'' req s)) \<and> db (ses (snd (workflow_Rollback ''t1'' req s))) = db (ses s)"
proof -
  let ?s = "demo_svc [demo_workflow] [] []"
  let ?req = "\<lparr>rb_TenantID = ''t1'', rb_Name = ''demo'', rb_TargetVersion = 0, rb_CurrentVersion = 1\<rparr>"
  have "snap (ses ?s) = None" "workflow_inv (ses ?s)" "db (ses ?s) = db (ses ?s)"
    by (simp_all add: demo_svc_def demo_session_def workflow_inv_def)
  from rollback_only_to_current [OF surjective_pairing this(1,2), of "''t1''" ?req]
  show ?thesis by (cases "fst (workflow_Rollback ''t1'' ?req ?s)") (simp_all add: Let_def)
qed

subsection \<open>Creating and reading workflows\<close>

lemma wf_Get_by_id:
  assumes "healthy \<sigma>"
  shows "fst (wf_Get [(''id'', TextV i), (''tenant_id'', TextV t)] \<sigma>) =
    (case List.find (\<lambda>r. w_ID r = i \<and> w_TenantID r = t \<and> w_IsCurrent r) (workflows (db \<sigma>)) of
       None \<Rightarrow> Inl (DbError ErrNoRows) | Some x \<Rightarrow> Inr x)"
proof -
  let ?c = "[(''id'', TextV i), (''tenant_id'', TextV t), (''is_current'', FlagV True)]"
  have p: "row_eq workflow_table ?c = (\<lambda>r. w_ID r = i \<and> w_TenantID r = t \<and> w_IsCurrent r)"
    by (auto simp: row_eq_def workflow_table_def workflow_get_def fun_eq_iff)
  have f: "List.find q rows = (case filter q rows of [] \<Rightarrow> None | x # xs \<Rightarrow> Some x)" for q and rows :: "Workflow list"
    by (induction rows) auto
  have m: "missing_column workflow_table (workflow_columns @ map fst ?c) = None"
    by (auto simp: missing_column_def find_None_iff2 workflow_table_def workflow_columns_def)
  show ?thesis
    using assms m by (auto simp: wf_Get_def current_conds_def read_workflows_def query_healthy select_rows_def p f
        db_result_def collect_one_def split: list.splits)
qed



end
