(* ===== verification/Poller.thy ===== *)
theory Poller imports Engine_Frame Workflow_Repo Transactions begin

text \<open>
  The worker's job poller, \<open>internal/worker/handler/job_poller.go\<close>: claiming pending executions, by polling the
  database and from the Redis queue, starting their runs, and recovering executions that stay \<open>RUNNING\<close>.

  The world of a worker is the engine's world, the Redis list of jobs, and the runs it has started: the
  arguments of the goroutines \<open>go p.engine.RunExecution(...)\<close> that have not run yet. The poller's context carries no
  tenant. Logging is left out.
\<close>

record worker =
  eng :: world
  jobs :: "string list"
  started :: "(Execution \<times> Workflow) list"

definition sees :: "worker \<Rightarrow> store" where
  "sees w = st (eng w)"

definition on_eng :: "(store \<Rightarrow> 'a \<times> store) \<Rightarrow> worker \<Rightarrow> 'a \<times> worker" where
  "on_eng f w = (case f (st (eng w)) of (x, \<sigma>) \<Rightarrow> (x, w\<lparr>eng := (eng w)\<lparr>st := \<sigma>\<rparr>\<rparr>))"

interpretation worker_tx: unit_of_work "on_eng (Begin tenantID)" "on_eng (Commit True)" "on_eng (Rollback True)"
  "\<lambda>w. db (st (eng w))" "\<lambda>w. snap (st (eng w))"
  unfolding on_eng_def
  by (rule unit_of_work_lift [where get = "\<lambda>w. st (eng w)" and put = "\<lambda>w \<sigma>. w\<lparr>eng := (eng w)\<lparr>st := \<sigma>\<rparr>\<rparr>",
      OF session.unit_of_work_axioms]) simp

subsection \<open>Claiming and starting\<close>

text \<open>One round of the loop in \<open>poll\<close>: the execution is kept in the list whether its update succeeded or not.\<close>

definition claim_execution :: "Execution \<Rightarrow> store \<Rightarrow> Execution \<times> store" where
  "claim_execution exe \<sigma> =
     (case exec_Update (e_ID exe) (e_Version exe) [(''status'', TextV ''RUNNING'')] \<sigma> of
        (Some e, \<sigma>1) \<Rightarrow> (exe, \<sigma>1)
      | (None, \<sigma>1) \<Rightarrow> (exe\<lparr>e_Version := wrap64 (e_Version exe + 1)\<rparr>, \<sigma>1))"

fun claim_executions :: "Execution list \<Rightarrow> store \<Rightarrow> Execution list \<times> store" where
  "claim_executions [] \<sigma> = ([], \<sigma>)"
| "claim_executions (exe # exes) \<sigma> =
     (case claim_execution exe \<sigma> of (exe', \<sigma>1) \<Rightarrow>
        (case claim_executions exes \<sigma>1 of (exes', \<sigma>2) \<Rightarrow> (exe' # exes', \<sigma>2)))"

definition executeOne :: "Execution \<Rightarrow> worker \<Rightarrow> worker" where
  "executeOne exe w =
     (case on_eng (wf_Get [(''id'', TextV (e_WorkflowID exe))]) w of
        (Inl e, w1) \<Rightarrow>
          snd (on_eng (exec_Update (e_ID exe) (e_Version exe) [(''status'', TextV ''FAILED'')]) w1)
      | (Inr wfl, w1) \<Rightarrow> w1\<lparr>started := started w1 @ [(exe, wfl)]\<rparr>)"

fun start_all :: "Execution list \<Rightarrow> worker \<Rightarrow> worker" where
  "start_all [] w = w"
| "start_all (exe # exes) w = start_all exes (executeOne exe w)"

subsection \<open>The loops of the poller\<close>

definition poll_body :: "worker \<Rightarrow> (err + unit) \<times> worker" where
  "poll_body w =
     (case on_eng (exec_AcquireForWorker 5) w of
        (Inl e, w1) \<Rightarrow> (Inl e, w1)
      | (Inr exes, w1) \<Rightarrow>
          (if exes = [] then (Inr (), w1)
           else case on_eng (claim_executions exes) w1 of (exes', w2) \<Rightarrow>
             (case on_eng (Commit True) w2 of
                (Some e, w3) \<Rightarrow> (Inl e, w3)
              | (None, w3) \<Rightarrow> (Inr (), start_all exes' w3))))"

definition poll :: "worker \<Rightarrow> worker" where
  "poll w = snd (transact (on_eng (Begin '''')) (on_eng (Rollback True)) poll_body w)"

definition process_body :: "string \<Rightarrow> worker \<Rightarrow> (err + unit) \<times> worker" where
  "process_body i w =
     (case on_eng (exec_AcquireByIDForWorker i) w of
        (Inl e, w1) \<Rightarrow> (Inl e, w1)
      | (Inr exe, w1) \<Rightarrow>
          (case on_eng (exec_Update (e_ID exe) (e_Version exe) [(''status'', TextV StatusExecutionRunning)]) w1 of
             (Some e, w2) \<Rightarrow> (Inl e, w2)
           | (None, w2) \<Rightarrow>
               (let exe' = exe\<lparr>e_Version := wrap64 (e_Version exe + 1)\<rparr> in
                case on_eng (Commit True) w2 of
                  (Some e, w3) \<Rightarrow> (Inl e, w3)
                | (None, w3) \<Rightarrow> (Inr (), executeOne exe' w3))))"

definition processExecutionByID :: "string \<Rightarrow> worker \<Rightarrow> worker" where
  "processExecutionByID i w = snd (transact (on_eng (Begin '''')) (on_eng (Rollback True)) (process_body i) w)"

text \<open>\<open>BLPop\<close> takes the head of the list; when it times out or fails nothing is taken and the loop goes on.\<close>

definition redis_round :: "worker \<Rightarrow> worker" where
  "redis_round w = (case jobs w of [] \<Rightarrow> w | i # js \<Rightarrow> processExecutionByID i (w\<lparr>jobs := js\<rparr>))"

text \<open>15 minutes, in nanoseconds.\<close>

definition recoverStuckJobs :: "worker \<Rightarrow> worker" where
  "recoverStuckJobs w = snd (on_eng (exec_RecoverStuckJobs (15 * 60 * 10 ^ 9)) w)"

end
