(* ===== verification/Poller_Properties.thy ===== *)
theory Poller_Properties imports Poller Examples begin

text \<open>
  Properties of the job poller: a started run holds a claim, no claim is handed out twice however many workers
  poll, and an execution whose run is over is recovered and run again.
\<close>

lemma on_eng_pair: "on_eng f w = (x, w') \<longleftrightarrow>
    (\<exists>\<sigma>. f (st (eng w)) = (x, \<sigma>) \<and> w' = w\<lparr>eng := (eng w)\<lparr>st := \<sigma>\<rparr>\<rparr>)"
  by (auto simp: on_eng_def split: prod.splits)

lemma commit_worker:
  assumes "on_eng (Commit True) w = (r, w')" "snap (st (eng w)) = Some d"
  shows "started w' = started w \<and> snap (st (eng w')) = None \<and>
    (r = None \<longrightarrow> db (st (eng w')) = db (st (eng w)) \<and> \<not> aborted (st (eng w))) \<and> (r \<noteq> None \<longrightarrow> db (st (eng w')) = d)"
  using assms by (auto simp: on_eng_pair Commit_def Let_def split: list.splits option.splits if_splits)

subsection \<open>A claim inside a transaction\<close>

lemma exec_Update_aborts:
  assumes "exec_Update i v data \<sigma> = (r, \<sigma>')" "snap \<sigma> \<noteq> None"
  shows "aborted \<sigma> \<Longrightarrow> aborted \<sigma>'"
    and "r \<noteq> None \<Longrightarrow> execution_row \<sigma> i = Some x \<Longrightarrow> e_Version x = v \<Longrightarrow> aborted \<sigma>'"
proof -
  let ?f = "\<lambda>sc now d. update_rows (execution_table sc) now (versioned v data) [''id'', ''version'']
        (\<lambda>r. e_ID r = i \<and> e_Version r = v) (executions d)"
  obtain q where q: "write_executions ?f \<sigma> = (q, \<sigma>')"
    using assms by (auto simp: exec_Update_def affected_def split: prod.splits sum.splits if_splits)
  have ab: "aborted \<sigma>'" if "isl q \<or> aborted \<sigma>"
    using q that assms(2) by (auto simp: write_executions_def run_stmt_def Let_def
        split: list.splits option.splits sum.splits if_splits)
  then show "aborted \<sigma> \<Longrightarrow> aborted \<sigma>'" by blast
  assume r: "r \<noteq> None" and x: "execution_row \<sigma> i = Some x" "e_Version x = v"
  show "aborted \<sigma>'"
  proof (cases q)
    case (Inl e)
    with ab show ?thesis by simp
  next
    case (Inr n)
    then have "n = 0" using assms(1) q r by (auto simp: exec_Update_def affected_def split: if_splits)
    moreover have "n \<noteq> 0"
      using write_executions_result [OF q] Inr find_SomeD [of _ "executions (db \<sigma>)" x] x
      by (auto simp: execution_row_def update_rows_Inr count_rows_0)
    ultimately show ?thesis by simp
  qed
qed

text \<open>What a successful claim leaves behind.\<close>

definition claimed :: "store \<Rightarrow> Execution \<Rightarrow> bool" where
  "claimed \<sigma> exe \<longleftrightarrow> (\<exists>r. execution_row \<sigma> (e_ID exe) = Some r \<and> e_Status r = StatusExecutionRunning \<and>
     e_Version r = e_Version exe)"

lemma claimed_row: "execution_row \<sigma>' (e_ID exe) = execution_row \<sigma> (e_ID exe) \<Longrightarrow> claimed \<sigma>' exe = claimed \<sigma> exe"
  by (simp add: claimed_def)

lemma claim_execution_result:
  assumes c: "claim_execution exe \<sigma> = (exe', \<sigma>')" and inv: "execution_inv \<sigma>" and sn: "snap \<sigma> \<noteq> None"
    and row: "execution_row \<sigma> (e_ID exe) = Some exe"
  shows "execution_inv \<sigma>' \<and> snap \<sigma>' = snap \<sigma> \<and> (aborted \<sigma> \<longrightarrow> aborted \<sigma>') \<and>
    (\<forall>j. j \<noteq> e_ID exe \<longrightarrow> execution_row \<sigma>' j = execution_row \<sigma> j) \<and>
    (aborted \<sigma>' \<or> exe' = exe\<lparr>e_Version := e_Version exe + 1\<rparr> \<and> claimed \<sigma>' exe')"
proof -
  have p: "proper [(''status'', TextV ''RUNNING'')]" by (simp add: proper_def)
  obtain r where u: "exec_Update (e_ID exe) (e_Version exe) [(''status'', TextV ''RUNNING'')] \<sigma> = (r, \<sigma>')"
    using c by (auto simp: claim_execution_def split: prod.splits option.splits)
  have exe': "exe' = (if r = None then exe\<lparr>e_Version := wrap64 (e_Version exe + 1)\<rparr> else exe)"
    using c u by (auto simp: claim_execution_def split: option.splits)
  have "int4 (e_Version exe)" using inv row by (auto simp: execution_inv_def execution_row_def dest: find_SomeD)
  note w = int4_wrap [OF this]
  note frame = execs.upd_inv [OF inv p u] execs.upd_other [OF inv p u] exec_Update_result [OF u] exec_Update_aborts(1) [OF u sn]
  show ?thesis
  proof (cases r)
    case (Some e)
    with frame exec_Update_aborts(2) [OF u sn _ row] show ?thesis by (simp add: same_session_def)
  next
    case None
    then obtain a b where ab: "execution_row \<sigma> (e_ID exe) = Some a" "execution_row \<sigma>' (e_ID exe) = Some b"
      "put_row (execution_table (sch \<sigma>)) (clock \<sigma>) (versioned (e_Version exe) [(''status'', TextV ''RUNNING'')]) a = Inr b"
      "e_Version b = e_Version exe + 1"
      using exec_Update_row [OF inv _ u [unfolded None]] p by (auto simp: proper_def)
    have "e_Status b = ''RUNNING''" by (rule execution_assigned_status [OF ab(3) p]) simp
    with None frame ab exe' w show ?thesis by (simp add: same_session_def claimed_def)
  qed
qed

lemma claim_executions_result:
  assumes "claim_executions exes \<sigma> = (exes', \<sigma>')" "execution_inv \<sigma>" "snap \<sigma> \<noteq> None"
    and "\<forall>exe \<in> set exes. execution_row \<sigma> (e_ID exe) = Some exe" "distinct (map e_ID exes)"
  shows "execution_inv \<sigma>' \<and> snap \<sigma>' = snap \<sigma> \<and> (aborted \<sigma> \<longrightarrow> aborted \<sigma>') \<and>
    (\<forall>j. j \<notin> e_ID ` set exes \<longrightarrow> execution_row \<sigma>' j = execution_row \<sigma> j) \<and>
    (aborted \<sigma>' \<or> exes' = map (\<lambda>e. e\<lparr>e_Version := e_Version e + 1\<rparr>) exes \<and> (\<forall>exe \<in> set exes'. claimed \<sigma>' exe))"
  using assms
proof (induction exes arbitrary: \<sigma> exes')
  case (Cons exe exes)
  obtain x \<sigma>1 where c: "claim_execution exe \<sigma> = (x, \<sigma>1)" by fastforce
  obtain xs where cs: "claim_executions exes \<sigma>1 = (xs, \<sigma>')" "exes' = x # xs"
    using Cons.prems(1) c by (auto split: prod.splits)
  note C = claim_execution_result [OF c Cons.prems(2,3)]
  have row: "execution_row \<sigma> (e_ID exe) = Some exe" using Cons.prems(4) by simp
  have rows1: "\<forall>e \<in> set exes. execution_row \<sigma>1 (e_ID e) = Some e"
    using C [OF row] Cons.prems(4,5) by (auto simp: image_iff)
  have IH: "execution_inv \<sigma>' \<and> snap \<sigma>' = snap \<sigma>1 \<and> (aborted \<sigma>1 \<longrightarrow> aborted \<sigma>') \<and>
      (\<forall>j. j \<notin> e_ID ` set exes \<longrightarrow> execution_row \<sigma>' j = execution_row \<sigma>1 j) \<and>
      (aborted \<sigma>' \<or> xs = map (\<lambda>e. e\<lparr>e_Version := e_Version e + 1\<rparr>) exes \<and> (\<forall>e \<in> set xs. claimed \<sigma>' e))"
    using Cons.IH [OF cs(1)] C [OF row] rows1 Cons.prems(3,5) by simp
  have "claimed \<sigma>' x" if "\<not> aborted \<sigma>'"
  proof -
    have "x = exe\<lparr>e_Version := e_Version exe + 1\<rparr>" "claimed \<sigma>1 x" using C [OF row] IH that by auto
    moreover have "e_ID exe \<notin> e_ID ` set exes" using Cons.prems(5) by simp
    ultimately show ?thesis using IH claimed_row [of \<sigma>' x \<sigma>1] by simp
  qed
  with IH C [OF row] cs(2) show ?case by auto
qed simp

lemma claim_execution_forwards: "forwards \<sigma> (snd (claim_execution exe \<sigma>))"
  using forwards_exec_Update [of "[(''status'', TextV ''RUNNING'')]" \<sigma> "e_ID exe" "e_Version exe"]
  by (auto simp: claim_execution_def proper_def split: prod.splits option.splits)

lemma claim_executions_forwards: "forwards \<sigma> (snd (claim_executions exes \<sigma>))"
proof (induction exes arbitrary: \<sigma>)
  case Nil
  show ?case by (simp add: forwards_same)
next
  case (Cons exe exes)
  obtain x \<sigma>1 where "claim_execution exe \<sigma> = (x, \<sigma>1)" by fastforce
  with forwards_trans [OF claim_execution_forwards [of \<sigma> exe] Cons.IH] show ?case
    by (auto split: prod.splits)
qed

subsection \<open>Starting the claimed executions\<close>

lemma executeOne_result:
  assumes "execution_inv (st (eng w))"
  shows "let w' = executeOne exe w in execution_inv (st (eng w')) \<and> forwards (st (eng w)) (st (eng w')) \<and>
    snap (st (eng w')) = snap (st (eng w)) \<and>
    (\<forall>j. j \<noteq> e_ID exe \<longrightarrow> execution_row (st (eng w')) j = execution_row (st (eng w)) j) \<and>
    (started w' = started w \<or> (\<exists>wfl. started w' = started w @ [(exe, wfl)] \<and>
       execution_row (st (eng w')) = execution_row (st (eng w))))"
proof -
  obtain g \<sigma>1 where g: "wf_Get [(''id'', TextV (e_WorkflowID exe))] (st (eng w)) = (g, \<sigma>1)" by fastforce
  note G = wf_Get_result [OF g]
  have same: "execution_row \<sigma>1 = execution_row (st (eng w))" "execution_inv \<sigma>1 = execution_inv (st (eng w))"
    "forwards (st (eng w)) \<sigma>1" using G forwards_same [of \<sigma>1 "st (eng w)"]
    by (auto simp: execution_row_def execution_inv_def fun_eq_iff)
  have p: "proper [(''status'', TextV ''FAILED'')]" by (simp add: proper_def)
  obtain q \<sigma>2 where u: "exec_Update (e_ID exe) (e_Version exe) [(''status'', TextV ''FAILED'')] \<sigma>1 = (q, \<sigma>2)" by fastforce
  have inv1: "execution_inv \<sigma>1" using same(2) assms by simp
  note frame = execs.upd_inv [OF inv1 p u] execs.upd_other [OF inv1 p u] exec_Update_result [OF u]
    forwards_trans [OF same(3) forwards_exec_Update [OF p, of \<sigma>1 "e_ID exe" "e_Version exe", unfolded u snd_conv]]
  show ?thesis
  proof (cases g)
    case (Inl e)
    then have "executeOne exe w = w\<lparr>eng := (eng w)\<lparr>st := \<sigma>2\<rparr>\<rparr>"
      using g u by (simp add: executeOne_def on_eng_def)
    with frame same G show ?thesis by (simp add: same_session_def)
  next
    case (Inr wfl)
    then have "executeOne exe w = w\<lparr>eng := (eng w)\<lparr>st := \<sigma>1\<rparr>, started := started w @ [(exe, wfl)]\<rparr>"
      using g by (simp add: executeOne_def on_eng_def)
    with same G inv1 show ?thesis by (auto simp: same_session_def)
  qed
qed

lemma start_all_result:
  assumes "execution_inv (st (eng w))" "distinct (map e_ID exes)" "\<forall>exe \<in> set exes. claimed (st (eng w)) exe"
  shows "\<exists>new. started (start_all exes w) = started w @ new \<and> set (map fst new) \<subseteq> set exes \<and>
    distinct (map (\<lambda>x. e_ID (fst x)) new) \<and> length new \<le> length exes \<and> forwards (st (eng w)) (st (eng (start_all exes w))) \<and>
    snap (st (eng (start_all exes w))) = snap (st (eng w)) \<and> execution_inv (st (eng (start_all exes w))) \<and>
    (\<forall>j. j \<notin> e_ID ` set exes \<longrightarrow> execution_row (st (eng (start_all exes w))) j = execution_row (st (eng w)) j) \<and>
    (\<forall>(e, wfl) \<in> set new. claimed (st (eng (start_all exes w))) e)"
  using assms
proof (induction exes arbitrary: w)
  case Nil
  have "forwards (st (eng w)) (st (eng w))" by (rule forwards_same) (rule refl)
  with Nil(1) show ?case by simp
next
  case (Cons exe exes)
  define w1 where "w1 = executeOne exe w"
  note E = executeOne_result [OF Cons.prems(1), of exe, unfolded Let_def, folded w1_def]
  have "claimed (st (eng w1)) e" if "e \<in> set exes" for e
  proof -
    have "e_ID e \<noteq> e_ID exe" using that Cons.prems(2) by (auto simp: image_iff)
    then have "execution_row (st (eng w1)) (e_ID e) = execution_row (st (eng w)) (e_ID e)" using E by blast
    from claimed_row [OF this] show ?thesis using Cons.prems(3) that by simp
  qed
  then obtain new where new: "started (start_all exes w1) = started w1 @ new" "set (map fst new) \<subseteq> set exes"
    "distinct (map (\<lambda>x. e_ID (fst x)) new)" "length new \<le> length exes" "forwards (st (eng w1)) (st (eng (start_all exes w1)))"
    "snap (st (eng (start_all exes w1))) = snap (st (eng w1))" "execution_inv (st (eng (start_all exes w1)))"
    "\<forall>j. j \<notin> e_ID ` set exes \<longrightarrow> execution_row (st (eng (start_all exes w1))) j = execution_row (st (eng w1)) j"
    "\<forall>(e, wfl) \<in> set new. claimed (st (eng (start_all exes w1))) e"
    using Cons.IH [of w1] E Cons.prems(2) by auto
  have f: "forwards (st (eng w)) (st (eng (start_all exes w1)))" using E new(5) forwards_trans by blast
  have rows: "\<forall>j. j \<notin> e_ID ` set (exe # exes) \<longrightarrow>
      execution_row (st (eng (start_all exes w1))) j = execution_row (st (eng w)) j" using E new(8) by simp
  have sn: "snap (st (eng (start_all exes w1))) = snap (st (eng w))" using E new(6) by simp
  have eq: "start_all (exe # exes) w = start_all exes w1" by (simp add: w1_def)
  from E consider "started w1 = started w" |
      wfl where "started w1 = started w @ [(exe, wfl)]" "execution_row (st (eng w1)) = execution_row (st (eng w))" by auto
  then show ?case
  proof cases
    case 1
    then have s: "started (start_all exes w1) = started w @ new"
      and l: "set (map fst new) \<subseteq> set (exe # exes)" "length new \<le> length (exe # exes)" using new(1,2,4) by auto
    show ?thesis unfolding eq
      by (intro exI [of _ new] conjI) (fact s l new(3,7,9) f rows sn)+
  next
    case (2 wfl)
    have id: "e_ID exe \<notin> e_ID ` set exes" using Cons.prems(2) by simp
    then have "claimed (st (eng (start_all exes w1))) exe"
      using new(8) 2(2) Cons.prems(3) claimed_row [of "st (eng (start_all exes w1))" exe "st (eng w)"] by simp
    then have c: "\<forall>(e, wfl) \<in> set ((exe, wfl) # new). claimed (st (eng (start_all exes w1))) e" using new(9) by simp
    have "(\<lambda>x. e_ID (fst x)) ` set new \<subseteq> e_ID ` set exes" using new(2) by auto
    then have d: "distinct (map (\<lambda>x. e_ID (fst x)) ((exe, wfl) # new))" using id new(3) by auto
    have s: "started (start_all exes w1) = started w @ (exe, wfl) # new" using 2(1) new(1) by simp
    have l: "set (map fst ((exe, wfl) # new)) \<subseteq> set (exe # exes)"
      "length ((exe, wfl) # new) \<le> length (exe # exes)" using new(2,4) by auto
    show ?thesis unfolding eq
      by (intro exI [of _ "(exe, wfl) # new"] conjI) (fact s l c d new(7) f rows sn)+
  qed
qed

subsection \<open>Polling\<close>

lemma acquired_rows:
  assumes "exec_AcquireForWorker limit \<sigma> = (Inr xs, \<sigma>')" "execution_inv \<sigma>"
  shows "same_session \<sigma> \<sigma>' \<and> db \<sigma>' = db \<sigma> \<and> length xs \<le> limit \<and> distinct (map e_ID xs) \<and>
    (\<forall>x \<in> set xs. execution_row \<sigma> (e_ID x) = Some x \<and> e_Status x = StatusExecutionPending \<and> e_ID x \<notin> set (locked \<sigma>))"
proof -
  let ?p = "\<lambda>r. e_Status r = StatusExecutionPending \<and> e_ID r \<notin> set (locked \<sigma>)"
  obtain rows where r: "read_executions [''status'', ''created_at''] (\<lambda>sc. ?p) \<sigma> = (Inr rows, \<sigma>')"
    and xs: "xs = take limit (sort_key e_CreatedAt rows)"
    using assms(1) by (auto simp: exec_AcquireForWorker_def page_rows_def db_result_def split: prod.splits sum.splits)
  have rows: "rows = filter ?p (executions (db \<sigma>))" "same_session \<sigma> \<sigma>'" "db \<sigma>' = db \<sigma>"
    using query_result [OF r [unfolded read_executions_def]] by (auto simp: select_rows_def split: option.splits)
  have d: "distinct (map e_ID (executions (db \<sigma>)))" using assms(2) by (simp add: execution_inv_def)
  then have "distinct (executions (db \<sigma>))" "inj_on e_ID (set (executions (db \<sigma>)))" by (simp_all add: distinct_map)
  then have "distinct (sort_key e_CreatedAt rows)" "inj_on e_ID (set (sort_key e_CreatedAt rows))"
    using rows(1) by (auto intro: inj_on_subset)
  then have "distinct (map e_ID (sort_key e_CreatedAt rows))" by (simp only: distinct_map)
  then have "distinct (map e_ID xs)" unfolding xs take_map [symmetric] by (rule distinct_take)
  moreover have "x \<in> set (executions (db \<sigma>)) \<and> ?p x" if "x \<in> set xs" for x
    using that rows(1) by (auto simp: xs dest: in_set_takeD)
  moreover have "execution_row \<sigma> (e_ID x) = Some x" if "x \<in> set (executions (db \<sigma>))" for x
    unfolding execution_row_def by (rule find_unique_key [OF d that])
  ultimately show ?thesis using rows(2,3) xs by simp
qed

text \<open>A poll that starts runs: which executions it took and what the database says of them afterwards.\<close>

definition fresh_claims :: "store \<Rightarrow> store \<Rightarrow> (Execution \<times> Workflow) list \<Rightarrow> bool" where
  "fresh_claims \<sigma> \<sigma>' new \<longleftrightarrow> distinct (map (\<lambda>x. e_ID (fst x)) new) \<and> (\<forall>(e, wfl) \<in> set new. claimed \<sigma>' e \<and>
     (\<exists>r. execution_row \<sigma> (e_ID e) = Some r \<and> e_Status r = StatusExecutionPending \<and> e_ID r \<notin> set (locked \<sigma>) \<and>
        e_Version e = e_Version r + 1))"

definition advances :: "worker \<Rightarrow> worker \<Rightarrow> nat \<Rightarrow> bool" where
  "advances w w' n \<longleftrightarrow> forwards (st (eng w)) (st (eng w')) \<and> snap (st (eng w')) = None \<and>
     (\<exists>new. started w' = started w @ new \<and> length new \<le> n \<and> fresh_claims (st (eng w)) (st (eng w')) new)"

lemma advances_none:
  assumes "started w' = started w" "db (st (eng w')) = db (st (eng w))" "snap (st (eng w')) = None"
  shows "advances w w' n"
  using assms forwards_same [of "st (eng w')" "st (eng w)"]
  by (auto simp: advances_def fresh_claims_def intro!: exI [of _ "[]"])

text \<open>The world between \<open>Begin\<close> and the deferred \<open>Rollback\<close> may be exchanged for the one around them.\<close>

lemma begin_locked: "Begin tenantID \<sigma> = (r, \<sigma>') \<Longrightarrow> locked \<sigma>' = locked \<sigma>"
  by (auto simp: Begin_def run_stmt_def Let_def split: prod.splits sum.splits list.splits option.splits if_splits)

lemma advances_wrap:
  assumes "advances s1 s2 n" "started s1 = started w" "execution_row (st (eng s1)) = execution_row (st (eng w))"
    and "locked (st (eng s1)) = locked (st (eng w))" "forwards (st (eng w)) (st (eng s1))"
    and "started w' = started s2" "db (st (eng w')) = db (st (eng s2))" "snap (st (eng w')) = None"
  shows "advances w w' n"
proof -
  have row: "execution_row (st (eng w')) = execution_row (st (eng s2))"
    using assms(7) by (simp add: execution_row_def fun_eq_iff)
  then have "claimed (st (eng w')) = claimed (st (eng s2))" by (simp add: claimed_def fun_eq_iff)
  then have "fresh_claims (st (eng w)) (st (eng w')) = fresh_claims (st (eng s1)) (st (eng s2))"
    using assms(3,4) by (simp add: fresh_claims_def fun_eq_iff)
  moreover have "forwards (st (eng w)) (st (eng w'))"
    using forwards_trans [OF assms(5) forwards_trans [where b = "st (eng s2)"]] forwards_same [of "st (eng w')" "st (eng s2)"]
      assms(1,7) by (simp add: advances_def)
  ultimately show ?thesis using assms(1,2,6,8) by (simp add: advances_def)
qed

lemma poll_body_result:
  assumes "poll_body w = (r, w')" "execution_inv (st (eng w))" "snap (st (eng w)) = Some (db (st (eng w)))"
  shows "snap (st (eng w')) = snap (st (eng w)) \<and> started w' = started w \<or>
    snap (st (eng w')) = None \<and> db (st (eng w')) = db (st (eng w)) \<and> started w' = started w \<or> advances w w' 5"
proof -
  obtain a \<sigma>1 where a: "exec_AcquireForWorker 5 (st (eng w)) = (a, \<sigma>1)" by fastforce
  let ?w1 = "w\<lparr>eng := (eng w)\<lparr>st := \<sigma>1\<rparr>\<rparr>"
  show ?thesis
  proof (cases "\<exists>exes. a = Inr exes \<and> exes \<noteq> []")
    case False
    have "same_session (st (eng w)) \<sigma>1"
      using query_result [of _ "st (eng w)"] a
      by (auto simp: exec_AcquireForWorker_def read_executions_def db_result_def split: prod.splits sum.splits)
    with False assms(1) a show ?thesis
      by (cases a) (auto simp: poll_body_def on_eng_def same_session_def)
  next
    case True
    then obtain exes where ex: "a = Inr exes" "exes \<noteq> []" by blast
    note A = acquired_rows [OF a [unfolded ex(1)] assms(2)]
    obtain exes' \<sigma>2 where c: "claim_executions exes \<sigma>1 = (exes', \<sigma>2)" by fastforce
    have inv1: "execution_inv \<sigma>1" "execution_row \<sigma>1 = execution_row (st (eng w))" "snap \<sigma>1 = snap (st (eng w))"
      using A assms(2) by (auto simp: execution_inv_def execution_row_def same_session_def)
    note C = claim_executions_result [OF c inv1(1)]
    let ?w2 = "w\<lparr>eng := (eng w)\<lparr>st := \<sigma>2\<rparr>\<rparr>"
    obtain m w3 where m: "on_eng (Commit True) ?w2 = (m, w3)" by fastforce
    have C': "execution_inv \<sigma>2" "snap \<sigma>2 = Some (db (st (eng w)))" "aborted \<sigma>2 \<or>
        exes' = map (\<lambda>e. e\<lparr>e_Version := e_Version e + 1\<rparr>) exes \<and> (\<forall>exe \<in> set exes'. claimed \<sigma>2 exe)"
      "\<forall>j. j \<notin> e_ID ` set exes \<longrightarrow> execution_row \<sigma>2 j = execution_row (st (eng w)) j"
      using C A inv1(2,3) assms(3) by simp_all
    note M = commit_worker [OF m, of "db (st (eng w))"]
    have w': "w' = (case m of Some e \<Rightarrow> w3 | None \<Rightarrow> start_all exes' w3)"
      using assms(1) a ex c m by (auto simp: poll_body_def on_eng_def split: option.splits prod.splits)
    show ?thesis
    proof (cases m)
      case (Some e)
      with M C'(2) w' show ?thesis by simp
    next
      case None
      have fin: "db (st (eng w3)) = db \<sigma>2" "snap (st (eng w3)) = None" "started w3 = started w" "\<not> aborted \<sigma>2"
        using M C'(2) None by auto
      then have ex': "exes' = map (\<lambda>e. e\<lparr>e_Version := e_Version e + 1\<rparr>) exes" "\<forall>exe \<in> set exes'. claimed \<sigma>2 exe"
        using C'(3) by auto
      have same: "execution_inv (st (eng w3))" "execution_row (st (eng w3)) = execution_row \<sigma>2"
        using fin(1) C'(1) by (auto simp: execution_inv_def execution_row_def)
      have ids: "map e_ID exes' = map e_ID exes" using ex'(1) by simp
      have "distinct (map e_ID exes')" "\<forall>exe \<in> set exes'. claimed (st (eng w3)) exe"
        using ids A ex'(2) same(2) by (auto simp: claimed_def)
      from start_all_result [OF same(1) this] obtain new where new: "started w' = started w @ new"
        "set (map fst new) \<subseteq> set exes'" "distinct (map (\<lambda>x. e_ID (fst x)) new)" "length new \<le> length exes'"
        "forwards (st (eng w3)) (st (eng w'))" "snap (st (eng w')) = None" "\<forall>(e, wfl) \<in> set new. claimed (st (eng w')) e"
        using w' None fin(2,3) by auto
      have old: "\<exists>r. execution_row (st (eng w)) (e_ID e) = Some r \<and> e_Status r = StatusExecutionPending \<and>
          e_ID r \<notin> set (locked (st (eng w))) \<and> e_Version e = e_Version r + 1" if "e \<in> set exes'" for e
        using that ex'(1) A by auto
      have "fresh_claims (st (eng w)) (st (eng w')) new"
        unfolding fresh_claims_def using new(2,3,7) old by (auto simp: subset_iff)
      moreover have "forwards (st (eng w)) (st (eng w'))"
      proof (rule forwards_trans [OF _ new(5)], rule forwards_trans [where b = \<sigma>1])
        show "forwards (st (eng w)) \<sigma>1" by (rule forwards_same) (simp add: A)
        show "forwards \<sigma>1 (st (eng w3))"
          using claim_executions_forwards [of \<sigma>1 exes] forwards_same [of "st (eng w3)" \<sigma>2] fin(1) c
          by (auto intro: forwards_trans)
      qed
      moreover have "length new \<le> 5" using new(4) ex'(1) A by simp
      ultimately show ?thesis using new(1,6) by (auto simp: advances_def)
    qed
  qed
qed

lemma transact_advances:
  assumes t: "transact (on_eng (Begin tn)) (on_eng (Rollback True)) body w = (r, w')"
    and inv: "execution_inv (st (eng w))" and sn: "snap (st (eng w)) = None"
    and body: "\<And>s1 q s2. body s1 = (q, s2) \<Longrightarrow> execution_inv (st (eng s1)) \<Longrightarrow>
      snap (st (eng s1)) = Some (db (st (eng s1))) \<Longrightarrow>
      snap (st (eng s2)) = snap (st (eng s1)) \<and> started s2 = started s1 \<or>
      snap (st (eng s2)) = None \<and> db (st (eng s2)) = db (st (eng s1)) \<and> started s2 = started s1 \<or> advances s1 s2 n"
  shows "advances w w' n"
  using t sn
proof (cases rule: worker_tx.transact_cases)
  case (refused e)
  then show ?thesis by (intro advances_none) (auto simp: on_eng_pair)
next
  case (ran s1 s2)
  have s1: "started s1 = started w" "execution_inv (st (eng s1))" "execution_row (st (eng s1)) = execution_row (st (eng w))"
    "locked (st (eng s1)) = locked (st (eng w))" "forwards (st (eng w)) (st (eng s1))"
    using ran(1,3) inv begin_locked [of tn "st (eng w)"] forwards_same [of "st (eng s1)" "st (eng w)"]
    by (auto simp: on_eng_pair execution_inv_def execution_row_def)
  have s2: "started w' = started s2" "snap (st (eng s2)) = None \<Longrightarrow> db (st (eng w')) = db (st (eng s2))"
    using ran(5,7) by (auto simp: on_eng_pair)
  from body [OF ran(4) s1(2)] ran(2,3)
  consider "snap (st (eng s2)) = Some (db (st (eng w)))" "started s2 = started s1"
    | "snap (st (eng s2)) = None" "db (st (eng s2)) = db (st (eng s1))" "started s2 = started s1"
    | "advances s1 s2 n" by auto
  then show "advances w w' n"
  proof cases
    case 1
    then show ?thesis using ran(6,8) s1(1) s2(1) by (intro advances_none) auto
  next
    case 2
    then show ?thesis using ran(3,6) s1(1) s2 by (intro advances_none) auto
  next
    case 3
    then show ?thesis using advances_wrap [OF 3 s1(1,3,4,5) s2(1) _ ran(6)] s2(2) by (auto simp: advances_def)
  qed
qed

lemma poll_advances:
  assumes "execution_inv (st (eng w))" "snap (st (eng w)) = None"
  shows "advances w (poll w) 5"
  unfolding poll_def by (rule transact_advances [OF surjective_pairing assms]) (rule poll_body_result)

text \<open>A job from the queue.\<close>

lemma acquired_by_id:
  assumes "exec_AcquireByIDForWorker i \<sigma> = (r, \<sigma>')" "execution_inv \<sigma>"
  shows "same_session \<sigma> \<sigma>' \<and> db \<sigma>' = db \<sigma> \<and> (\<forall>x. r = Inr x \<longrightarrow> e_ID x = i \<and> execution_row \<sigma> (e_ID x) = Some x \<and>
    e_Status x = StatusExecutionPending \<and> e_ID x \<notin> set (locked \<sigma>))"
proof -
  let ?p = "\<lambda>r. e_ID r = i \<and> e_Status r = StatusExecutionPending \<and> e_ID r \<notin> set (locked \<sigma>)"
  obtain q where q: "read_executions [''id'', ''status''] (\<lambda>sc. ?p) \<sigma> = (q, \<sigma>')"
    using arg_cong [OF assms(1), of snd]
    by (cases "read_executions [''id'', ''status''] (\<lambda>sc. ?p) \<sigma>") (simp add: exec_AcquireByIDForWorker_def)
  note Q = query_result [OF q [unfolded read_executions_def]]
  have "x \<in> set (executions (db \<sigma>)) \<and> ?p x" if "r = Inr x" for x
  proof -
    have "db_result (collect_one (q, \<sigma>')) = (Inr x, \<sigma>')" using assms that q by (simp add: exec_AcquireByIDForWorker_def)
    then obtain xs where "q = Inr (x # xs)" by (auto simp: db_result_Inr collect_one_Inr)
    with Q have f: "filter ?p (executions (db \<sigma>)) = x # xs" by (auto simp: select_rows_def split: option.splits)
    from arg_cong [OF f, of set] show ?thesis by auto
  qed
  moreover have "execution_row \<sigma> (e_ID x) = Some x" if "x \<in> set (executions (db \<sigma>))" for x
    unfolding execution_row_def by (rule find_unique_key [OF _ that]) (use assms(2) in \<open>simp add: execution_inv_def\<close>)
  ultimately show ?thesis using Q by blast
qed

lemma process_body_result:
  assumes "process_body i w = (r, w')" "execution_inv (st (eng w))" "snap (st (eng w)) = Some (db (st (eng w)))"
  shows "snap (st (eng w')) = snap (st (eng w)) \<and> started w' = started w \<or>
    snap (st (eng w')) = None \<and> db (st (eng w')) = db (st (eng w)) \<and> started w' = started w \<or> advances w w' 1"
proof -
  obtain a \<sigma>1 where a: "exec_AcquireByIDForWorker i (st (eng w)) = (a, \<sigma>1)" by fastforce
  note A = acquired_by_id [OF a assms(2)]
  show ?thesis
  proof (cases a)
    case (Inl e)
    with assms(1) a A show ?thesis by (auto simp: process_body_def on_eng_def same_session_def)
  next
    case (Inr exe)
    obtain q \<sigma>2 where u: "exec_Update (e_ID exe) (e_Version exe) [(''status'', TextV StatusExecutionRunning)] \<sigma>1 = (q, \<sigma>2)"
      by fastforce
    have inv1: "execution_inv \<sigma>1" "execution_row \<sigma>1 = execution_row (st (eng w))" "snap \<sigma>1 = snap (st (eng w))"
      using A assms(2) by (auto simp: execution_inv_def execution_row_def same_session_def)
    let ?w2 = "w\<lparr>eng := (eng w)\<lparr>st := \<sigma>2\<rparr>\<rparr>"
    show ?thesis
    proof (cases q)
      case (Some e)
      with assms(1) a Inr u inv1(3) exec_Update_result [OF u] show ?thesis
        by (auto simp: process_body_def on_eng_def same_session_def)
    next
      case None
      define exe' where "exe' = exe\<lparr>e_Version := wrap64 (e_Version exe + 1)\<rparr>"
      have c: "claim_execution exe \<sigma>1 = (exe', \<sigma>2)" using u None by (simp add: claim_execution_def exe'_def)
      have row: "execution_row (st (eng w)) (e_ID exe) = Some exe"
        and pend: "e_Status exe = StatusExecutionPending" "e_ID exe \<notin> set (locked (st (eng w)))" using A Inr by blast+
      have C: "execution_inv \<sigma>2" "snap \<sigma>2 = Some (db (st (eng w)))"
        "aborted \<sigma>2 \<or> exe' = exe\<lparr>e_Version := e_Version exe + 1\<rparr> \<and> claimed \<sigma>2 exe'"
        using claim_execution_result [OF c inv1(1)] inv1(2,3) assms(3) row by simp_all
      obtain m w3 where m: "on_eng (Commit True) ?w2 = (m, w3)" by fastforce
      note M = commit_worker [OF m, of "db (st (eng w))"]
      have w': "w' = (case m of Some e \<Rightarrow> w3 | None \<Rightarrow> executeOne exe' w3)"
        using assms(1) a Inr u None m
        by (auto simp: process_body_def on_eng_def exe'_def Let_def split: option.splits prod.splits)
      show ?thesis
      proof (cases m)
        case (Some e)
        with M C(2) w' show ?thesis by simp
      next
        case None
        have fin: "db (st (eng w3)) = db \<sigma>2" "snap (st (eng w3)) = None" "started w3 = started w" "\<not> aborted \<sigma>2"
          using M C(2) None by auto
        have same: "execution_inv (st (eng w3))" "execution_row (st (eng w3)) = execution_row \<sigma>2"
          using fin(1) C(1) by (auto simp: execution_inv_def execution_row_def)
        have cl: "exe' = exe\<lparr>e_Version := e_Version exe + 1\<rparr>" "claimed (st (eng w3)) exe'"
          using C(3) fin(4) same(2) by (auto simp: claimed_def)
        from start_all_result [OF same(1), of "[exe']"] cl(2) obtain new where new: "started w' = started w @ new"
          "set (map fst new) \<subseteq> {exe'}" "distinct (map (\<lambda>x. e_ID (fst x)) new)" "length new \<le> 1"
          "forwards (st (eng w3)) (st (eng w'))" "snap (st (eng w')) = None" "\<forall>(e, wfl) \<in> set new. claimed (st (eng w')) e"
          using w' None fin(2,3) by auto
        have "fresh_claims (st (eng w)) (st (eng w')) new"
          unfolding fresh_claims_def
        proof (intro conjI ballI)
          fix x assume x: "x \<in> set new"
          obtain e wfl where e: "x = (e, wfl)" by (cases x)
          with x new(2) have "e = exe'" by auto
          with e x new(7) cl(1) row pend show "case x of (e, wfl) \<Rightarrow> claimed (st (eng w')) e \<and>
              (\<exists>r. execution_row (st (eng w)) (e_ID e) = Some r \<and> e_Status r = StatusExecutionPending \<and>
                 e_ID r \<notin> set (locked (st (eng w))) \<and> e_Version e = e_Version r + 1)" by auto
        qed (rule new(3))
        moreover have "forwards (st (eng w)) (st (eng w'))"
        proof (rule forwards_trans [OF _ new(5)], rule forwards_trans [where b = \<sigma>1])
          show "forwards (st (eng w)) \<sigma>1" by (rule forwards_same) (simp add: A)
          show "forwards \<sigma>1 (st (eng w3))"
            using claim_execution_forwards [of \<sigma>1 exe] forwards_same [of "st (eng w3)" \<sigma>2] fin(1) c
            by (auto intro: forwards_trans)
        qed
        ultimately show ?thesis using new(1,4,6) by (auto simp: advances_def)
      qed
    qed
  qed
qed

lemma process_advances:
  assumes "execution_inv (st (eng w))" "snap (st (eng w)) = None"
  shows "advances w (processExecutionByID i w) 1"
  unfolding processExecutionByID_def
  by (rule transact_advances [OF surjective_pairing assms]) (rule process_body_result)

subsection \<open>Recovery\<close>

definition stuck :: "int \<Rightarrow> time \<Rightarrow> Execution \<Rightarrow> bool" where
  "stuck seconds now r \<longleftrightarrow> e_Status r = StatusExecutionRunning \<and> e_UpdatedAt r < now - seconds"

definition unstick :: "time \<Rightarrow> Execution \<Rightarrow> Execution" where
  "unstick now r = r\<lparr>e_Status := StatusExecutionPending, e_UpdatedAt := now\<rparr>"

lemma recover_result:
  assumes "exec_RecoverStuckJobs (15 * 60 * 10 ^ 9) \<sigma> = (r, \<sigma>')"
  shows "same_session \<sigma> \<sigma>' \<and> (isl r \<longrightarrow> db \<sigma>' = db \<sigma>) \<and> (\<not> isl r \<longrightarrow>
    db \<sigma>' = (db \<sigma>)\<lparr>executions := modify_all (stuck 900 (clock \<sigma>)) (unstick (clock \<sigma>)) (executions (db \<sigma>))\<rparr>)"
proof -
  let ?cvs = "[(''status'', TextV StatusExecutionPending), (''updated_at'', NowE)]"
  have p: "(\<lambda>r. e_Status r = StatusExecutionRunning \<and> e_UpdatedAt r < now - sgn (15 * 60 * 10 ^ 9) * (\<bar>15 * 60 * 10 ^ 9\<bar> div 10 ^ 9))
      = stuck 900 now" for now by (simp add: stuck_def fun_eq_iff)
  let ?f = "\<lambda>sc now d. update_rows (execution_table sc) now ?cvs [''status'', ''updated_at''] (stuck 900 now) (executions d)"
  obtain q where q: "write_executions ?f \<sigma> = (q, \<sigma>')" "isl r = isl q"
    using assms unfolding exec_RecoverStuckJobs_def p by (auto simp: db_result_def split: prod.splits sum.splits)
  note W = write_executions_result [OF q(1)]
  show ?thesis
  proof (cases q)
    case (Inl e)
    with W q(2) show ?thesis by simp
  next
    case (Inr n)
    with W obtain rows where u: "?f (sch \<sigma>) (clock \<sigma>) (db \<sigma>) = Inr (n, rows)" "db \<sigma>' = (db \<sigma>)\<lparr>executions := rows\<rparr>" by auto
    have "put_cols (execution_table (sch \<sigma>)) (clock \<sigma>) ?cvs x = Inr (unstick (clock \<sigma>) x)" for x
      by (simp add: execution_table_def execution_put_def put_defs unstick_def)
    then have "put_row (execution_table (sch \<sigma>)) (clock \<sigma>) ?cvs x = Inr (unstick (clock \<sigma>) x) \<or>
        (\<exists>e. put_row (execution_table (sch \<sigma>)) (clock \<sigma>) ?cvs x = Inl e)" for x
      by (simp add: put_row_def split: option.split)
    moreover have "put_rows (execution_table (sch \<sigma>)) (clock \<sigma>) ?cvs (stuck 900 (clock \<sigma>)) (executions (db \<sigma>)) = Inr rows"
      using u(1) unfolding update_rows_Inr by blast
    ultimately have "rows = modify_all (stuck 900 (clock \<sigma>)) (unstick (clock \<sigma>)) (executions (db \<sigma>))" by (rule put_rows_modify)
    with W Inr u(2) q(2) show ?thesis by simp
  qed
qed

lemma unstick_fields [simp]: "e_ID (unstick now r) = e_ID r" "e_Version (unstick now r) = e_Version r"
  by (simp_all add: unstick_def)

lemma unstick_row:
  assumes "db \<sigma>' = (db \<sigma>)\<lparr>executions := modify_all p (unstick now) (executions (db \<sigma>))\<rparr>"
  shows "execution_row \<sigma>' i = map_option (\<lambda>r. if p r then unstick now r else r) (execution_row \<sigma> i)"
  by (simp add: execution_row_def assms find_modify_all)

lemma recover_forwards: "forwards \<sigma> (snd (exec_RecoverStuckJobs (15 * 60 * 10 ^ 9) \<sigma>))"
proof -
  obtain r \<sigma>' where r: "exec_RecoverStuckJobs (15 * 60 * 10 ^ 9) \<sigma> = (r, \<sigma>')" by fastforce
  note R = recover_result [OF r]
  show ?thesis
  proof (cases "isl r")
    case True
    with R r forwards_same [of \<sigma>' \<sigma>] show ?thesis by simp
  next
    case False
    then have d: "db \<sigma>' = (db \<sigma>)\<lparr>executions := modify_all (stuck 900 (clock \<sigma>)) (unstick (clock \<sigma>)) (executions (db \<sigma>))\<rparr>"
      using R by simp
    have "execution_inv \<sigma> \<longrightarrow> execution_inv \<sigma>'"
      by (auto simp: execution_inv_def d set_modify_all modify_all_cong_key)
    with unstick_row [OF d] have "forwards \<sigma> \<sigma>'" by (auto simp: forwards_def)
    then show ?thesis unfolding r by simp
  qed
qed

lemma recover_advances:
  "snap (st (eng w)) = None \<Longrightarrow> advances w (recoverStuckJobs w) 0"
proof -
  assume sn: "snap (st (eng w)) = None"
  obtain r \<sigma>' where r: "exec_RecoverStuckJobs (15 * 60 * 10 ^ 9) (st (eng w)) = (r, \<sigma>')" by fastforce
  with recover_result [OF r] recover_forwards [of "st (eng w)"] sn show ?thesis
    by (auto simp: recoverStuckJobs_def on_eng_def advances_def fresh_claims_def same_session_def)
qed

subsection \<open>Workers as a step relation\<close>

text \<open>
  Any number of workers on one database, with the API servers beside them. A step is one round of a poller or of
  a Redis loop, a recovery, the run of a started execution, or any step of another process that leaves no
  transaction open and takes no execution back to an earlier version (it may create executions, and change
  clock, locks and failures to come). Transactions of different workers do not interleave inside a step:
  \<open>FOR UPDATE SKIP LOCKED\<close> hides the rows another worker is about to claim (\<open>locked\<close>). The list beside the relation
  holds the runs the step started.
\<close>

inductive worker_step :: "worker \<Rightarrow> (Execution \<times> Workflow) list \<Rightarrow> worker \<Rightarrow> bool" where
  tick: "started (poll w) = started w @ new \<Longrightarrow> worker_step w new (poll w)"
| job: "started (redis_round w) = started w @ new \<Longrightarrow> worker_step w new (redis_round w)"
| recover: "worker_step w [] (recoverStuckJobs w)"
| run: "(exe, wfl) \<in> set (started w) \<Longrightarrow>
    worker_step w [] (w\<lparr>eng := RunExecution ro sched reg exe wfl (eng w), started := remove1 (exe, wfl) (started w)\<rparr>)"
| outside: "forwards (st (eng w)) \<sigma>' \<Longrightarrow> snap \<sigma>' = None \<Longrightarrow>
    worker_step w [] (w\<lparr>eng := (eng w)\<lparr>st := \<sigma>'\<rparr>, jobs := js\<rparr>)"

inductive worker_run :: "worker \<Rightarrow> (Execution \<times> Workflow) list \<Rightarrow> worker \<Rightarrow> bool" where
  stop: "worker_run w [] w"
| step: "worker_run w runs w1 \<Longrightarrow> worker_step w1 new w2 \<Longrightarrow> worker_run w (runs @ new) w2"

text \<open>A step moves the executions forwards, and what it starts it has claimed in this very step.\<close>

lemma worker_step_advances:
  assumes "worker_step w new w'" "execution_inv (st (eng w))" "snap (st (eng w)) = None"
  shows "forwards (st (eng w)) (st (eng w')) \<and> snap (st (eng w')) = None \<and> fresh_claims (st (eng w)) (st (eng w')) new"
  using assms
proof (cases rule: worker_step.cases)
  case tick
  with poll_advances [OF assms(2,3)] show ?thesis by (auto simp: advances_def)
next
  case job
  then show ?thesis
    using process_advances [of "w\<lparr>jobs := tl (jobs w)\<rparr>" "hd (jobs w)"] assms(2,3) forwards_same [of "st (eng w)" "st (eng w)"]
    by (cases "jobs w") (auto simp: redis_round_def advances_def fresh_claims_def)
next
  case recover
  with recover_advances [OF assms(3)] show ?thesis by (auto simp: advances_def)
next
  case (run exe wfl ro sched reg)
  then show ?thesis using RunExecution_forwards [of "eng w"] RunExecution_session [of "eng w"] assms(3)
    by (simp add: fresh_claims_def same_session_def)
next
  case (outside \<sigma>' js)
  then show ?thesis by (simp add: fresh_claims_def)
qed

lemma forwards_row:
  "forwards \<sigma> \<sigma>' \<Longrightarrow> execution_inv \<sigma> \<Longrightarrow> execution_row \<sigma> i = Some r \<Longrightarrow>
   \<exists>r'. execution_row \<sigma>' i = Some r' \<and> e_Version r \<le> e_Version r'"
  by (simp add: forwards_def)

text \<open>Every run ever started has a version the row has reached; a new claim is above it.\<close>

definition behind :: "store \<Rightarrow> (Execution \<times> Workflow) list \<Rightarrow> bool" where
  "behind \<sigma> runs \<longleftrightarrow> (\<forall>(e, wfl) \<in> set runs. \<exists>r. execution_row \<sigma> (e_ID e) = Some r \<and> e_Version e \<le> e_Version r)"

definition claim_keys :: "(Execution \<times> Workflow) list \<Rightarrow> (string \<times> int) list" where
  "claim_keys runs = map (\<lambda>(e, wfl). (e_ID e, e_Version e)) runs"

lemma worker_run_claims:
  assumes "worker_run w runs w'" "execution_inv (st (eng w))" "snap (st (eng w)) = None"
  shows "execution_inv (st (eng w')) \<and> snap (st (eng w')) = None \<and> behind (st (eng w')) runs \<and> distinct (claim_keys runs)"
  using assms
proof (induction rule: worker_run.induct)
  case (stop w)
  then show ?case by (simp add: behind_def claim_keys_def)
next
  case (step w runs w1 new w2)
  then have IH: "execution_inv (st (eng w1))" "snap (st (eng w1)) = None" "behind (st (eng w1)) runs"
    "distinct (claim_keys runs)" by auto
  note S = worker_step_advances [OF step.hyps(2) IH(1,2)]
  have inv2: "execution_inv (st (eng w2))" using S IH(1) by (simp add: forwards_def)
  have old: "\<exists>r. execution_row (st (eng w2)) (e_ID e) = Some r \<and> e_Version e \<le> e_Version r"
    if "(e, wfl) \<in> set runs" for e wfl
  proof -
    obtain r where "execution_row (st (eng w1)) (e_ID e) = Some r" "e_Version e \<le> e_Version r"
      using IH(3) \<open>(e, wfl) \<in> set runs\<close> by (auto simp: behind_def)
    with forwards_row [of "st (eng w1)" "st (eng w2)"] S IH(1) show ?thesis by fastforce
  qed
  have "(e_ID e, e_Version e) \<notin> set (claim_keys runs)" if "(e, wfl) \<in> set new" for e wfl
  proof
    assume "(e_ID e, e_Version e) \<in> set (claim_keys runs)"
    then obtain e' wfl' where o: "(e', wfl') \<in> set runs" "e_ID e' = e_ID e" "e_Version e' = e_Version e"
      by (auto simp: claim_keys_def)
    obtain r where "execution_row (st (eng w1)) (e_ID e) = Some r" "e_Version e = e_Version r + 1"
      using S \<open>(e, wfl) \<in> set new\<close> by (fastforce simp: fresh_claims_def)
    with IH(3) o show False by (fastforce simp: behind_def)
  qed
  then have "set (claim_keys runs) \<inter> set (claim_keys new) = {}"
    unfolding claim_keys_def [of new] by auto
  moreover have "distinct (claim_keys new)"
  proof -
    have "distinct (map fst (claim_keys new))"
      using S by (simp add: fresh_claims_def claim_keys_def comp_def case_prod_beta)
    then show ?thesis by (simp only: distinct_map)
  qed
  ultimately have "distinct (claim_keys (runs @ new))" using IH(4) by (simp add: claim_keys_def)
  moreover have "behind (st (eng w2)) (runs @ new)"
    using old S by (fastforce simp: behind_def fresh_claims_def claimed_def)
  ultimately show ?case using inv2 S by simp
qed

subsection \<open>Recovering a finished run\<close>

definition executions_ok :: "store \<Rightarrow> bool" where
  "executions_ok \<sigma> \<longleftrightarrow> (\<forall>r \<in> set (executions (db \<sigma>)). tb_check (execution_table (sch \<sigma>)) r = None)"

lemma put_rows_map:
  assumes "\<And>r. r \<in> set rows \<Longrightarrow> p r \<Longrightarrow> put_row t now cvs r = Inr (f r)"
  shows "put_rows t now cvs p rows = Inr (modify_all p f rows)"
  using assms by (induction rows) auto

lemma recover_healthy:
  assumes "execution_inv \<sigma>" "executions_ok \<sigma>" "healthy \<sigma>" "sch \<sigma> = struct_schema"
  shows "\<exists>n. exec_RecoverStuckJobs (15 * 60 * 10 ^ 9) \<sigma> = (Inr n, \<sigma>\<lparr>faults := tl (faults \<sigma>),
    db := (db \<sigma>)\<lparr>executions := modify_all (stuck 900 (clock \<sigma>)) (unstick (clock \<sigma>)) (executions (db \<sigma>))\<rparr>\<rparr>)"
proof -
  let ?cvs = "[(''status'', TextV StatusExecutionPending), (''updated_at'', NowE)]"
  let ?rows = "modify_all (stuck 900 (clock \<sigma>)) (unstick (clock \<sigma>)) (executions (db \<sigma>))"
  have p: "(\<lambda>r. e_Status r = StatusExecutionRunning \<and> e_UpdatedAt r < now - sgn (15 * 60 * 10 ^ 9) * (\<bar>15 * 60 * 10 ^ 9\<bar> div 10 ^ 9))
      = stuck 900 now" for now by (simp add: stuck_def fun_eq_iff)
  have "put_row (execution_table struct_schema) (clock \<sigma>) ?cvs r = Inr (unstick (clock \<sigma>) r)"
    if "r \<in> set (executions (db \<sigma>))" for r
  proof -
    have "tb_check (execution_table struct_schema) r = None" using that assms(2,4) by (simp add: executions_ok_def)
    then show ?thesis
      by (auto simp: put_row_def execution_table_def execution_put_def put_defs unstick_def struct_schema_def
          execution_statuses_def split: if_splits)
  qed
  then have rows: "put_rows (execution_table struct_schema) (clock \<sigma>) ?cvs (stuck 900 (clock \<sigma>)) (executions (db \<sigma>)) = Inr ?rows"
    by (intro put_rows_map)
  have cols: "missing_column (execution_table struct_schema) (map fst ?cvs @ [''status'', ''updated_at'']) = None"
    by (simp add: missing_column_def execution_table_def struct_schema_def execution_columns_def)
  have "distinct (map e_ID ?rows)" using assms(1) by (simp add: execution_inv_def modify_all_cong_key)
  then have "\<not> has_clash (tb_clash (execution_table struct_schema)) ?rows"
    by (simp add: execution_table_def distinct_no_clash)
  with rows cols have "update_rows (execution_table struct_schema) (clock \<sigma>) ?cvs [''status'', ''updated_at'']
      (stuck 900 (clock \<sigma>)) (executions (db \<sigma>)) = Inr (count_rows (stuck 900 (clock \<sigma>)) (executions (db \<sigma>)), ?rows)"
    by (simp add: update_rows_Inr)
  then show ?thesis
    unfolding exec_RecoverStuckJobs_def p write_executions_def run_stmt_healthy [OF assms(3)] assms(4)
    by (simp add: db_result_def)
qed

lemma acquire_by_id_healthy:
  assumes "healthy \<sigma>" "sch \<sigma> = struct_schema" "execution_inv \<sigma>" "execution_row \<sigma> i = Some r"
    and "e_Status r = StatusExecutionPending" "i \<notin> set (locked \<sigma>)"
  shows "fst (exec_AcquireByIDForWorker i \<sigma>) = Inr r"
proof -
  let ?p = "\<lambda>r. e_ID r = i \<and> e_Status r = StatusExecutionPending \<and> e_ID r \<notin> set (locked \<sigma>)"
  have r: "r \<in> set (executions (db \<sigma>))" "e_ID r = i" using find_SomeD [of _ "executions (db \<sigma>)" r] assms(4)
    by (auto simp: execution_row_def)
  have "filter ?p (executions (db \<sigma>)) \<noteq> []" using r assms(5,6) by (auto simp: filter_empty_conv)
  then obtain x xs where f: "filter ?p (executions (db \<sigma>)) = x # xs" by (cases "filter ?p (executions (db \<sigma>))") auto
  from arg_cong [OF f, of set] have "x \<in> set (executions (db \<sigma>))" "e_ID x = i" by auto
  then have "x = r" using distinct_key_eq [of e_ID "executions (db \<sigma>)" x r] r assms(3) by (simp add: execution_inv_def)
  have m: "missing_column (execution_table struct_schema) (execution_columns @ [''id'', ''status'']) = None"
    by (auto simp: missing_column_def find_None_iff2 execution_table_def struct_schema_def execution_columns_def)
  have "read_executions [''id'', ''status''] (\<lambda>sc. ?p) \<sigma> = (Inr (r # xs), \<sigma>\<lparr>faults := tl (faults \<sigma>), db := db \<sigma>\<rparr>)"
    unfolding read_executions_def query_healthy [OF assms(1)] assms(2) select_rows_def m f \<open>x = r\<close> by simp
  then show ?thesis by (simp add: exec_AcquireByIDForWorker_def db_result_def collect_one_def)
qed

subsection \<open>The claims of the poller\<close>

definition fresh_session :: "time \<Rightarrow> store \<Rightarrow> store" where
  "fresh_session now \<sigma> = \<sigma>\<lparr>clock := now, faults := [], aborted := False, locked := []\<rparr>"

definition demo_pending :: "string \<Rightarrow> Execution" where
  "demo_pending i = demo_execution\<lparr>e_ID := i, e_Status := StatusExecutionPending\<rparr>"

definition demo_worker :: "Execution list \<Rightarrow> worker" where
  "demo_worker exes = \<lparr>eng = \<lparr>st = demo_session [demo_workflow] exes [] [],
     outer = \<lparr>requests = [], replies = [], ctx_ends = []\<rparr>, version = 0, skips = [], events = [], slept = []\<rparr>,
     jobs = [], started = []\<rparr>"

lemma demo_worker_inv: "snap (st (eng (demo_worker exes))) = None"
  "execution_inv (st (eng (demo_worker [demo_pending ''x1'', demo_pending ''x2''])))"
  "execution_inv (st (eng (demo_worker [demo_execution])))"
  by (simp_all add: demo_worker_def demo_session_def demo_pending_def demo_execution_def execution_inv_def int4_def)

text \<open>C11: A claim is handed out once: in every sequence of polls, queue rounds, recoveries and runs of any number of
  workers, beside other processes that take no execution back to an earlier version, no two started runs carry the same
  execution with the same version. An execution is started again only after its row was claimed again.\<close>

theorem claims_handed_out_once:
  assumes "worker_run w runs w'" "execution_inv (st (eng w))" "snap (st (eng w)) = None"
  shows "distinct (map (\<lambda>(e, wfl). (e_ID e, e_Version e)) runs)"
  using worker_run_claims [OF assms] by (simp add: claim_keys_def)

theorem claims_handed_out_once_witness:
  "distinct (map (\<lambda>(e, wfl). (e_ID e, e_Version e)) (started (poll (demo_worker [demo_pending ''x1'', demo_pending ''x2'']))))"
proof -
  let ?w = "demo_worker [demo_pending ''x1'', demo_pending ''x2'']"
  have "started (poll ?w) = started ?w @ started (poll ?w)" by (simp add: demo_worker_def)
  from worker_run.step [OF worker_run.stop worker_step.tick [OF this]]
  have "worker_run ?w (started (poll ?w)) (poll ?w)" by simp
  from claims_handed_out_once [OF this demo_worker_inv(2,1)] show ?thesis .
qed



end
