(* ===== verification/Lifecycle.thy ===== *)
theory Lifecycle imports Poller_Properties Service_Properties begin

text \<open>
  What the API servers and the workers together promise of an execution: an abstract life cycle, and the refinement
  of it by every operation of the program that writes the table of executions.
\<close>

subsection \<open>The abstract life cycle\<close>

type_synonym lifecycles = "string \<Rightarrow> (string \<times> int) option"

text \<open>Each execution has a status and a version. It is created \<open>PENDING\<close>, a worker claims it, a claimed one fails or is
  cancelled, each time with the next version; a recovery gives running ones back without a new version.\<close>

inductive moves :: "lifecycles \<Rightarrow> lifecycles \<Rightarrow> bool" where
  create: "m i = None \<Longrightarrow> moves m (m(i \<mapsto> (StatusExecutionPending, v)))"
| claim: "m i = Some (StatusExecutionPending, v) \<Longrightarrow> moves m (m(i \<mapsto> (StatusExecutionRunning, v + 1)))"
| fail: "m i = Some (StatusExecutionRunning, v) \<Longrightarrow> moves m (m(i \<mapsto> (StatusExecutionFailed, v + 1)))"
| cancel: "m i = Some (StatusExecutionRunning, v) \<Longrightarrow> moves m (m(i \<mapsto> (StatusExecutionCancelled, v + 1)))"
| give_back: "(\<forall>i. m' i = m i \<or> (\<exists>v. m i = Some (StatusExecutionRunning, v) \<and> m' i = Some (StatusExecutionPending, v))) \<Longrightarrow>
    moves m m'"

text \<open>Failed and cancelled are the ends of a life.\<close>

lemma moves_final:
  assumes "moves\<^sup>*\<^sup>* m m'" "m i = Some (s, v)" "s = StatusExecutionFailed \<or> s = StatusExecutionCancelled"
  shows "m' i = Some (s, v)"
  using assms
proof (induction rule: rtranclp_induct)
  case (step m1 m2)
  then have "m1 i = Some (s, v)" by simp
  with step.hyps(2) step.prems(2) show ?case by (cases rule: moves.cases) (auto dest!: spec [of _ i])
qed

definition lifecycles :: "database \<Rightarrow> lifecycles" where
  "lifecycles d i = map_option (\<lambda>r. (e_Status r, e_Version r)) (find (\<lambda>r. e_ID r = i) (executions d))"

lemma lifecycles_row: "lifecycles (db \<sigma>) i = map_option (\<lambda>r. (e_Status r, e_Version r)) (execution_row \<sigma> i)"
  by (simp add: lifecycles_def execution_row_def)

lemma lifecycles_same: "executions d' = executions d \<Longrightarrow> lifecycles d' = lifecycles d"
  by (simp add: lifecycles_def fun_eq_iff)

lemma lifecycles_steps [simp]: "lifecycles (d\<lparr>step_executions := rows\<rparr>) = lifecycles d"
  by (rule lifecycles_same) simp

lemma claimed_lifecycles: "claimed \<sigma> exe \<longleftrightarrow> lifecycles (db \<sigma>) (e_ID exe) = Some (StatusExecutionRunning, e_Version exe)"
  by (auto simp: claimed_def lifecycles_row)

text \<open>A transaction relates the tables around it as its body does, when it is committed in the body.\<close>

context unit_of_work begin

lemma transact_relates:
  assumes "transact begin_tx rollback body s = (r, s')" "start s = None" "\<And>d. R d d"
    and "\<And>s1 s2. body s1 = (r, s2) \<Longrightarrow> tables s1 = tables s \<Longrightarrow> start s1 = Some (tables s) \<Longrightarrow>
      begin_tx s = (None, s1) \<Longrightarrow> start s2 = start s1 \<or> start s2 = None \<and> R (tables s1) (tables s2)"
  shows "R (tables s) (tables s')"
  using assms(1,2)
proof (cases rule: transact_cases)
  case (ran s1 s2)
  with assms(3) assms(4) [of s1 s2] show ?thesis by auto
qed (simp add: assms(3))

end

subsection \<open>One statement\<close>

lemma status_update:
  assumes u: "exec_Update i v [(''status'', TextV s)] \<sigma> = (r, \<sigma>')" and inv: "execution_inv \<sigma>"
  shows "lifecycles (db \<sigma>') = lifecycles (db \<sigma>) \<or>
    (\<exists>t. lifecycles (db \<sigma>) i = Some (t, v)) \<and> lifecycles (db \<sigma>') = (lifecycles (db \<sigma>))(i \<mapsto> (s, v + 1))"
proof (cases r)
  case (Some e)
  with exec_Update_result [OF u] show ?thesis by simp
next
  case None
  have p: "proper [(''status'', TextV s)]" by (simp add: proper_def)
  from exec_Update_row [OF inv _ u [unfolded None]] p obtain a b where
    ab: "execution_row \<sigma> i = Some a" "e_Version a = v" "execution_row \<sigma>' i = Some b" "e_Version b = v + 1"
      "put_row (execution_table (sch \<sigma>)) (clock \<sigma>) (versioned v [(''status'', TextV s)]) a = Inr b"
    and other: "\<forall>j. j \<noteq> i \<longrightarrow> execution_row \<sigma>' j = execution_row \<sigma> j" by (auto simp: proper_def)
  have "e_Status b = s" by (rule execution_assigned_status [OF ab(5) p]) simp
  with ab other have "lifecycles (db \<sigma>') = (lifecycles (db \<sigma>))(i \<mapsto> (s, v + 1))"
    by (auto simp: lifecycles_row fun_eq_iff)
  with ab show ?thesis by (simp add: lifecycles_row)
qed

lemma claim_moves:
  assumes "execution_row \<sigma> (e_ID exe) = Some exe" "e_Status exe = StatusExecutionPending" "execution_inv \<sigma>"
  shows "moves\<^sup>*\<^sup>* (lifecycles (db \<sigma>)) (lifecycles (db (snd (claim_execution exe \<sigma>))))"
proof -
  obtain r \<sigma>' where u: "exec_Update (e_ID exe) (e_Version exe) [(''status'', TextV ''RUNNING'')] \<sigma> = (r, \<sigma>')" by fastforce
  have "lifecycles (db \<sigma>) (e_ID exe) = Some (StatusExecutionPending, e_Version exe)"
    using assms(1,2) by (simp add: lifecycles_row)
  from status_update [OF u assms(3)] moves.claim [where m = "lifecycles (db \<sigma>)", OF this] u show ?thesis
    by (auto simp: claim_execution_def split: option.split)
qed

lemma executeOne_moves:
  assumes "claimed (st (eng w)) exe" "execution_inv (st (eng w))"
  shows "moves\<^sup>*\<^sup>* (lifecycles (db (st (eng w)))) (lifecycles (db (st (eng (executeOne exe w)))))"
proof -
  obtain g \<sigma>1 where g: "wf_Get [(''id'', TextV (e_WorkflowID exe))] (st (eng w)) = (g, \<sigma>1)" by fastforce
  note G = wf_Get_result [OF g]
  obtain q \<sigma>2 where u: "exec_Update (e_ID exe) (e_Version exe) [(''status'', TextV ''FAILED'')] \<sigma>1 = (q, \<sigma>2)" by fastforce
  have "execution_inv \<sigma>1" using G assms(2) by (simp add: execution_inv_def)
  from status_update [OF u this] moves.fail [where m = "lifecycles (db (st (eng w)))", OF iffD1 [OF claimed_lifecycles assms(1)]] G
  have "moves\<^sup>*\<^sup>* (lifecycles (db (st (eng w)))) (lifecycles (db \<sigma>2))" by auto
  then show ?thesis using g u G by (cases g) (auto simp: executeOne_def on_eng_def)
qed


subsection \<open>Claiming and starting\<close>

lemma claim_executions_moves:
  assumes "execution_inv \<sigma>" "snap \<sigma> \<noteq> None" "distinct (map e_ID exes)"
    and "\<forall>exe \<in> set exes. execution_row \<sigma> (e_ID exe) = Some exe \<and> e_Status exe = StatusExecutionPending"
  shows "moves\<^sup>*\<^sup>* (lifecycles (db \<sigma>)) (lifecycles (db (snd (claim_executions exes \<sigma>))))"
  using assms
proof (induction exes arbitrary: \<sigma>)
  case (Cons exe exes)
  obtain x \<sigma>1 where c: "claim_execution exe \<sigma> = (x, \<sigma>1)" by fastforce
  have row: "execution_row \<sigma> (e_ID exe) = Some exe" "e_Status exe = StatusExecutionPending" using Cons.prems(4) by auto
  note C = claim_execution_result [OF c Cons.prems(1,2) row(1)]
  have "moves\<^sup>*\<^sup>* (lifecycles (db \<sigma>)) (lifecycles (db \<sigma>1))" using claim_moves [OF row Cons.prems(1)] c by simp
  also have "moves\<^sup>*\<^sup>* (lifecycles (db \<sigma>1)) (lifecycles (db (snd (claim_executions exes \<sigma>1))))"
  proof (rule Cons.IH)
    show "\<forall>e \<in> set exes. execution_row \<sigma>1 (e_ID e) = Some e \<and> e_Status e = StatusExecutionPending"
    proof
      fix e assume e: "e \<in> set exes"
      then have "e_ID e \<noteq> e_ID exe" using Cons.prems(3) by (auto simp: image_iff)
      then show "execution_row \<sigma>1 (e_ID e) = Some e \<and> e_Status e = StatusExecutionPending" using C Cons.prems(4) e by simp
    qed
  qed (use C Cons.prems(2,3) in auto)
  finally show ?case using c by (cases "claim_executions exes \<sigma>1") simp
qed simp

lemma start_all_moves:
  assumes "execution_inv (st (eng w))" "distinct (map e_ID exes)" "\<forall>exe \<in> set exes. claimed (st (eng w)) exe"
  shows "moves\<^sup>*\<^sup>* (lifecycles (db (st (eng w)))) (lifecycles (db (st (eng (start_all exes w)))))"
  using assms
proof (induction exes arbitrary: w)
  case (Cons exe exes)
  let ?w1 = "executeOne exe w"
  note E = executeOne_result [OF Cons.prems(1), of exe, unfolded Let_def]
  have "moves\<^sup>*\<^sup>* (lifecycles (db (st (eng w)))) (lifecycles (db (st (eng ?w1))))"
    by (rule executeOne_moves) (use Cons.prems in auto)
  also have "moves\<^sup>*\<^sup>* (lifecycles (db (st (eng ?w1)))) (lifecycles (db (st (eng (start_all exes ?w1)))))"
  proof (rule Cons.IH)
    show "\<forall>e \<in> set exes. claimed (st (eng ?w1)) e"
    proof
      fix e assume e: "e \<in> set exes"
      then have "e_ID e \<noteq> e_ID exe" using Cons.prems(2) by (auto simp: image_iff)
      then have "execution_row (st (eng ?w1)) (e_ID e) = execution_row (st (eng w)) (e_ID e)" using E by blast
      from claimed_row [OF this] show "claimed (st (eng ?w1)) e" using Cons.prems(3) e by simp
    qed
  qed (use E Cons.prems(2) in auto)
  finally show ?case by simp
qed simp

text \<open>Claims that are committed, and the runs started after the commit.\<close>

lemma committed_claims_move:
  assumes c: "claim_executions exes \<sigma>1 = (exes', \<sigma>2)" and inv: "execution_inv \<sigma>1" and sn: "snap \<sigma>1 = Some d"
    and rows: "\<forall>exe \<in> set exes. execution_row \<sigma>1 (e_ID exe) = Some exe \<and> e_Status exe = StatusExecutionPending"
    and dist: "distinct (map e_ID exes)"
    and m: "on_eng (Commit True) w2 = (None, w3)" and w2: "st (eng w2) = \<sigma>2"
  shows "moves\<^sup>*\<^sup>* (lifecycles (db \<sigma>1)) (lifecycles (db (st (eng (start_all exes' w3))))) \<and>
    snap (st (eng (start_all exes' w3))) = None"
proof -
  have rows': "\<forall>exe \<in> set exes. execution_row \<sigma>1 (e_ID exe) = Some exe" using rows by blast
  have some: "snap \<sigma>1 \<noteq> None" using sn by simp
  note C = claim_executions_result [OF c inv some rows' dist]
  have "snap (st (eng w2)) = Some d" using C sn w2 by simp
  from commit_worker [OF m this] have fin: "snap (st (eng w3)) = None" "db (st (eng w3)) = db \<sigma>2" "\<not> aborted \<sigma>2"
    using w2 by auto
  with C have ex: "exes' = map (\<lambda>e. e\<lparr>e_Version := e_Version e + 1\<rparr>) exes" "\<forall>exe \<in> set exes'. claimed \<sigma>2 exe" by auto
  have "map e_ID exes' = map e_ID exes" using ex(1) by simp
  then have ready: "execution_inv (st (eng w3))" "distinct (map e_ID exes')" "\<forall>exe \<in> set exes'. claimed (st (eng w3)) exe"
    using C fin(2) dist ex(2) by (simp_all add: execution_inv_def claimed_lifecycles)
  have "moves\<^sup>*\<^sup>* (lifecycles (db \<sigma>1)) (lifecycles (db \<sigma>2))"
    using claim_executions_moves [OF inv some dist rows] c by simp
  also have "moves\<^sup>*\<^sup>* (lifecycles (db \<sigma>2)) (lifecycles (db (st (eng (start_all exes' w3)))))"
    using start_all_moves [OF ready] fin(2) by simp
  finally show ?thesis using start_all_result [OF ready] fin(1) by auto
qed



lemma poll_body_moves:
  assumes b: "poll_body w = (r, w')" and inv: "execution_inv (st (eng w))" and sn: "snap (st (eng w)) = Some d"
  shows "snap (st (eng w')) = Some d \<or> snap (st (eng w')) = None \<and>
    (db (st (eng w')) = d \<or> moves\<^sup>*\<^sup>* (lifecycles (db (st (eng w)))) (lifecycles (db (st (eng w')))))"
proof -
  obtain a \<sigma>1 where a: "exec_AcquireForWorker 5 (st (eng w)) = (a, \<sigma>1)" by fastforce
  show ?thesis
  proof (cases "\<exists>exes. a = Inr exes \<and> exes \<noteq> []")
    case False
    have "same_session (st (eng w)) \<sigma>1"
      using query_result [of _ "st (eng w)"] a
      by (auto simp: exec_AcquireForWorker_def read_executions_def db_result_def split: prod.splits sum.splits)
    with False b a sn show ?thesis by (cases a) (auto simp: poll_body_def on_eng_def same_session_def)
  next
    case True
    then obtain exes where ex: "a = Inr exes" "exes \<noteq> []" by blast
    note A = acquired_rows [OF a [unfolded ex(1)] inv]
    have row1: "execution_row \<sigma>1 = execution_row (st (eng w))" using A by (auto simp: execution_row_def)
    have pre: "execution_inv \<sigma>1" "snap \<sigma>1 = Some d" "distinct (map e_ID exes)"
      "\<forall>exe \<in> set exes. execution_row \<sigma>1 (e_ID exe) = Some exe \<and> e_Status exe = StatusExecutionPending"
      using A inv sn row1 by (auto simp: execution_inv_def same_session_def)
    obtain exes' \<sigma>2 where c: "claim_executions exes \<sigma>1 = (exes', \<sigma>2)" by fastforce
    let ?w2 = "w\<lparr>eng := (eng w)\<lparr>st := \<sigma>2\<rparr>\<rparr>"
    obtain m w3 where m: "on_eng (Commit True) ?w2 = (m, w3)" by fastforce
    have w': "w' = (case m of Some e \<Rightarrow> w3 | None \<Rightarrow> start_all exes' w3)"
      using b a ex c m by (auto simp: poll_body_def on_eng_def split: option.splits prod.splits)
    show ?thesis
    proof (cases m)
      case None
      with committed_claims_move [OF c pre(1,2,4,3) m [unfolded None]] w' A show ?thesis by simp
    next
      case (Some e)
      have "snap \<sigma>2 = Some d" using claim_executions_result [OF c pre(1)] pre by auto
      with commit_worker [OF m, of d] Some w' show ?thesis by simp
    qed
  qed
qed

lemma process_body_moves:
  assumes b: "process_body i w = (r, w')" and inv: "execution_inv (st (eng w))" and sn: "snap (st (eng w)) = Some d"
  shows "snap (st (eng w')) = Some d \<or> snap (st (eng w')) = None \<and>
    (db (st (eng w')) = d \<or> moves\<^sup>*\<^sup>* (lifecycles (db (st (eng w)))) (lifecycles (db (st (eng w')))))"
proof -
  obtain a \<sigma>1 where a: "exec_AcquireByIDForWorker i (st (eng w)) = (a, \<sigma>1)" by fastforce
  note A = acquired_by_id [OF a inv]
  show ?thesis
  proof (cases a)
    case (Inl e)
    with b a A sn show ?thesis by (auto simp: process_body_def on_eng_def same_session_def)
  next
    case (Inr exe)
    obtain q \<sigma>2 where u: "exec_Update (e_ID exe) (e_Version exe) [(''status'', TextV StatusExecutionRunning)] \<sigma>1 = (q, \<sigma>2)"
      by fastforce
    have row1: "execution_row \<sigma>1 = execution_row (st (eng w))" using A by (auto simp: execution_row_def)
    have "execution_inv \<sigma>1" "snap \<sigma>1 = Some d" using A inv sn by (auto simp: execution_inv_def same_session_def)
    note pre = this and pending = conjunct2 [OF conjunct2 [OF A], rule_format, OF Inr]
    have sn2: "snap \<sigma>2 = Some d" using exec_Update_result [OF u] pre(2) by (simp add: same_session_def)
    show ?thesis
    proof (cases q)
      case (Some e)
      with b a Inr u sn2 show ?thesis by (auto simp: process_body_def on_eng_def)
    next
      case None
      define exe' where "exe' = exe\<lparr>e_Version := wrap64 (e_Version exe + 1)\<rparr>"
      let ?w2 = "w\<lparr>eng := (eng w)\<lparr>st := \<sigma>2\<rparr>\<rparr>"
      have c: "claim_executions [exe] \<sigma>1 = ([exe'], \<sigma>2)" using u None by (simp add: claim_execution_def exe'_def)
      obtain m w3 where m: "on_eng (Commit True) ?w2 = (m, w3)" by fastforce
      have w': "w' = (case m of Some e \<Rightarrow> w3 | None \<Rightarrow> start_all [exe'] w3)"
        using b a Inr u None m
        by (auto simp: process_body_def on_eng_def exe'_def Let_def split: option.splits prod.splits)
      show ?thesis
      proof (cases m)
        case None
        with committed_claims_move [OF c pre _ _ m [unfolded None]] w' A pending row1 show ?thesis by auto
      next
        case (Some e)
        with commit_worker [OF m, of d] sn2 w' show ?thesis by simp
      qed
    qed
  qed
qed


lemma worker_transact_moves:
  assumes t: "transact (on_eng (Begin tn)) (on_eng (Rollback True)) body w = (r, w')"
    and inv: "execution_inv (st (eng w))" and sn: "snap (st (eng w)) = None"
    and body: "\<And>s1 s2 d. body s1 = (r, s2) \<Longrightarrow> execution_inv (st (eng s1)) \<Longrightarrow> snap (st (eng s1)) = Some d \<Longrightarrow>
      snap (st (eng s2)) = Some d \<or> snap (st (eng s2)) = None \<and>
        (db (st (eng s2)) = d \<or> moves\<^sup>*\<^sup>* (lifecycles (db (st (eng s1)))) (lifecycles (db (st (eng s2)))))"
  shows "moves\<^sup>*\<^sup>* (lifecycles (db (st (eng w)))) (lifecycles (db (st (eng w'))))"
proof (rule worker_tx.transact_relates [OF t sn, where R = "\<lambda>d d'. moves\<^sup>*\<^sup>* (lifecycles d) (lifecycles d')"])
  fix s1 s2
  assume s: "body s1 = (r, s2)" "db (st (eng s1)) = db (st (eng w))" "snap (st (eng s1)) = Some (db (st (eng w)))"
  with inv have "execution_inv (st (eng s1))" by (simp add: execution_inv_def)
  from body [OF s(1) this s(3)] s(2,3)
  show "snap (st (eng s2)) = snap (st (eng s1)) \<or> snap (st (eng s2)) = None \<and>
      moves\<^sup>*\<^sup>* (lifecycles (db (st (eng s1)))) (lifecycles (db (st (eng s2))))" by auto
qed simp

lemma recover_moves: "moves (lifecycles (db \<sigma>)) (lifecycles (db (snd (exec_RecoverStuckJobs (15 * 60 * 10 ^ 9) \<sigma>))))"
proof -
  obtain r \<sigma>' where r: "exec_RecoverStuckJobs (15 * 60 * 10 ^ 9) \<sigma> = (r, \<sigma>')" by fastforce
  note R = recover_result [OF r]
  show ?thesis
  proof (cases "isl r")
    case True
    with R r show ?thesis by (auto intro: moves.give_back)
  next
    case False
    with R have d: "db \<sigma>' = (db \<sigma>)\<lparr>executions := modify_all (stuck 900 (clock \<sigma>)) (unstick (clock \<sigma>)) (executions (db \<sigma>))\<rparr>"
      by simp
    have "lifecycles (db \<sigma>') i = lifecycles (db \<sigma>) i \<or> (\<exists>v. lifecycles (db \<sigma>) i = Some (StatusExecutionRunning, v) \<and>
        lifecycles (db \<sigma>') i = Some (StatusExecutionPending, v))" for i
      by (cases "execution_row \<sigma> i") (auto simp: lifecycles_row unstick_row [OF d] stuck_def unstick_def)
    then show ?thesis unfolding r snd_conv by (blast intro: moves.give_back)
  qed
qed

subsection \<open>The services\<close>


text \<open>What a transaction of a service does to the executions: moves only, and the table keeps its key and its range
  of versions.\<close>

definition keyed :: "database \<Rightarrow> bool" where
  "keyed d \<longleftrightarrow> distinct (map e_ID (executions d)) \<and> (\<forall>r \<in> set (executions d). int4 (e_Version r))"

lemma execution_inv_keyed: "execution_inv \<sigma> = keyed (db \<sigma>)"
  by (simp add: execution_inv_def keyed_def)

definition refines :: "database \<Rightarrow> database \<Rightarrow> bool" where
  "refines d d' \<longleftrightarrow> moves\<^sup>*\<^sup>* (lifecycles d) (lifecycles d') \<and> (keyed d \<longrightarrow> keyed d')"

lemma refines_same: "executions d' = executions d \<Longrightarrow> refines d d'"
  by (auto simp: refines_def keyed_def dest: lifecycles_same)

lemma refines_trans: "refines a b \<Longrightarrow> refines b c \<Longrightarrow> refines a c"
  by (auto simp: refines_def)

lemma refines_refl [simp]: "refines d d"
  by (simp add: refines_same)

lemma created_refines:
  assumes "executions d' = executions d @ [e]" "e_ID e \<notin> e_ID ` set (executions d)" "e_Status e = StatusExecutionPending"
    and "int4 (e_Version e)"
  shows "refines d d'"
proof -
  have none: "find (\<lambda>r. e_ID r = e_ID e) (executions d) = None" using assms(2) by (auto simp: find_None_iff image_iff)
  then have "lifecycles d' = (lifecycles d)(e_ID e \<mapsto> (StatusExecutionPending, e_Version e))"
    by (auto simp: lifecycles_def assms(1,3) find_append fun_eq_iff split: option.split)
  moreover have "lifecycles d (e_ID e) = None" using none by (simp add: lifecycles_def)
  ultimately have "moves (lifecycles d) (lifecycles d')" by (simp add: moves.create)
  with assms(1,2,4) show ?thesis by (auto simp: refines_def keyed_def)
qed

lemma launched_refines: "launched w e d d' \<Longrightarrow> e_Status e = StatusExecutionPending \<Longrightarrow> refines d d'"
  by (rule created_refines) (auto simp: launched_def)

lemma service_transact_refines:
  assumes "snap (ses s) = None"
    and "\<And>r s1 s2. body s1 = (r, s2) \<Longrightarrow> snap (ses s1) = Some (db (ses s1)) \<Longrightarrow> snap (ses s2) = snap (ses s1) \<or>
      snap (ses s2) = None \<and> refines (db (ses s1)) (db (ses s2))"
  shows "refines (db (ses s)) (db (ses (snd (in_tx ctx body s))))"
  unfolding in_tx_def
proof (rule svc_tx.transact_relates [OF surjective_pairing assms(1), where R = refines])
  fix s1 s2 r
  assume "body s1 = (r, s2)" "db (ses s1) = db (ses s)" "snap (ses s1) = Some (db (ses s))"
  with assms(2) [of s1 r s2] show "snap (ses s2) = snap (ses s1) \<or>
    snap (ses s2) = None \<and> refines (db (ses s1)) (db (ses s2))" by simp
qed (simp add: refines_same)

lemma trigger_body_refines:
  assumes "trigger_body tt w s = (r, s')" "snap (ses s) = Some (db (ses s))"
  shows "snap (ses s') = snap (ses s) \<or> snap (ses s') = None \<and> refines (db (ses s)) (db (ses s'))"
proof -
  have new: "e = new_execution i t f x v c \<Longrightarrow> e_Status e = StatusExecutionPending" for e i t f x v c
    by (simp add: new_execution_def)
  from trigger_body_result [OF assms] show ?thesis
    by (cases r) (auto dest!: launched_refines intro: new simp: refines_same)
qed

lemma retry_body_refines:
  assumes b: "retry_body hc tn old w s = (r, s')" and sn: "snap (ses s) = Some (db (ses s))"
  shows "snap (ses s') = snap (ses s) \<or> snap (ses s') = None \<and> refines (db (ses s)) (db (ses s'))"
proof -
  obtain i \<sigma>2 where u: "new_uuid (ses s) = (i, \<sigma>2)" by fastforce
  define e where "e = new_execution i (e_TenantID old) (e_WorkflowID old) ''MANUAL'' (e_Version old) (clock \<sigma>2)"
  obtain c \<sigma>3 where c: "exec_Create e \<sigma>2 = (c, \<sigma>3)" by fastforce
  note U = new_uuid_result [OF u] and C = exec_Create_result [OF c]
  show ?thesis
  proof (cases "\<exists>steps \<sigma>4. c = None \<and> unmarshal_steps (w_DAGDefinition w) = Inr steps \<and> create_steps tn i steps \<sigma>3 = (None, \<sigma>4)")
    case False
    then show ?thesis using b sn u c U C
      by (auto simp: retry_body_def on_ses_def Let_def e_def [symmetric] dest!: create_steps_result
          split: option.splits sum.splits prod.splits)
  next
    case True
    then obtain steps \<sigma>4 where k: "c = None" "unmarshal_steps (w_DAGDefinition w) = Inr steps"
      "create_steps tn i steps \<sigma>3 = (None, \<sigma>4)" by blast
    have mv: "refines (db (ses s)) (db \<sigma>4)"
      by (rule created_refines [of _ _ e])
        (use C k(1) U create_steps_result [OF k(3)] in \<open>auto simp: e_def new_execution_def\<close>)
    have sn4: "snap \<sigma>4 = Some (db (ses s))" using U C create_steps_result [OF k(3)] sn by simp
    obtain m s5 where m: "on_ses (Commit True) (s\<lparr>ses := \<sigma>4\<rparr>) = (m, s5)" by fastforce
    note M = commit_ses [OF m, of "db (ses s)"]
    have "ses s' = ses s5"
      using b u c [unfolded e_def] k m RPush_result [OF surjective_pairing, of i s5]
      by (auto simp: retry_body_def on_ses_def Let_def e_def split: option.splits prod.splits if_splits)
    then show ?thesis using M sn4 mv by (cases m) (auto simp: refines_same)
  qed
qed

subsection \<open>The operations refine the life cycle\<close>

text \<open>The operations that write the table of executions, as steps of the database session they run in: triggering,
  retrying and cancelling in an API server; polling, taking a job from the queue, recovering and running a claimed
  execution in a worker.\<close>

inductive operates :: "store \<Rightarrow> store \<Rightarrow> bool" where
  trigger: "operates (ses s) (ses (snd (workflow_Trigger ctx tenantID workflowID triggerType s)))"
| retry: "operates (ses s) (ses (snd (execution_Retry has_cache ctx tenantID executionID s)))"
| cancel: "operates (ses s) (ses (snd (execution_Cancel tenantID executionID s)))"
| tick: "operates (st (eng w)) (st (eng (poll w)))"
| job: "operates (st (eng w)) (st (eng (redis_round w)))"
| recover: "operates (st (eng w)) (st (eng (recoverStuckJobs w)))"
| run: "claimed (st e) exe \<Longrightarrow> operates (st e) (st (RunExecution ro sched reg exe wfl e))"

lemma trigger_refines:
  assumes "snap (ses s) = None"
  shows "refines (db (ses s)) (db (ses (snd (workflow_Trigger ctx tn i tt s))))"
proof -
  obtain g \<sigma>0 where g: "wf_Get [(''id'', TextV i), (''tenant_id'', TextV tn)] (ses s) = (g, \<sigma>0)" by fastforce
  note G = wf_Get_result [OF g]
  show ?thesis
  proof (cases g)
    case (Inl e)
    with g G show ?thesis by (simp add: workflow_Trigger_def on_ses_def)
  next
    case (Inr w)
    have "refines (db \<sigma>0) (db (ses (snd (in_tx ctx (trigger_body tt' w) (s\<lparr>ses := \<sigma>0\<rparr>)))))" for tt'
      using service_transact_refines [of "s\<lparr>ses := \<sigma>0\<rparr>" "trigger_body tt' w" ctx] trigger_body_refines G assms
      by (simp add: same_session_def)
    then show ?thesis using g G Inr by (simp add: workflow_Trigger_def on_ses_def)
  qed
qed

lemma retry_refines:
  assumes "snap (ses s) = None"
  shows "refines (db (ses s)) (db (ses (snd (execution_Retry hc ctx tn i s))))"
proof -
  obtain x \<sigma>0 where x: "exec_Get [(''id'', TextV i), (''tenant_id'', TextV tn)] (ses s) = (x, \<sigma>0)" by fastforce
  note X = exec_Get_result [OF x]
  show ?thesis
  proof (cases "\<exists>old. x = Inr old \<and> e_Status old = StatusExecutionFailed")
    case False
    with x X show ?thesis by (cases x) (auto simp: execution_Retry_def on_ses_def)
  next
    case True
    then obtain old where old: "x = Inr old" "e_Status old = StatusExecutionFailed" by blast
    obtain g \<sigma>1 where g: "wf_Get [(''id'', TextV (e_WorkflowID old)), (''version'', NumV (e_Version old)),
        (''tenant_id'', TextV tn)] \<sigma>0 = (g, \<sigma>1)" by fastforce
    note G = wf_Get_result [OF g]
    show ?thesis
    proof (cases g)
      case (Inl e)
      with g G x X old show ?thesis by (simp add: execution_Retry_def on_ses_def)
    next
      case (Inr w)
      have "refines (db \<sigma>1) (db (ses (snd (in_tx ctx (retry_body hc tn old w) (s\<lparr>ses := \<sigma>1\<rparr>)))))"
        using service_transact_refines [of "s\<lparr>ses := \<sigma>1\<rparr>" "retry_body hc tn old w" ctx] retry_body_refines G X assms
        by (simp add: same_session_def)
      then show ?thesis using g G x X old Inr by (simp add: execution_Retry_def on_ses_def)
    qed
  qed
qed

lemma cancel_refines:
  assumes "execution_inv (ses s)"
  shows "refines (db (ses s)) (db (ses (snd (execution_Cancel tn i s))))"
proof -
  obtain x \<sigma>0 where x: "exec_Get [(''id'', TextV i), (''tenant_id'', TextV tn)] (ses s) = (x, \<sigma>0)" by fastforce
  note X = exec_Get_result [OF x]
  show ?thesis
  proof (cases "\<exists>exe. x = Inr exe \<and> e_Status exe = StatusExecutionRunning")
    case False
    with x X show ?thesis by (cases x) (auto simp: execution_Cancel_def on_ses_def)
  next
    case True
    then obtain exe where exe: "x = Inr exe" "e_Status exe = StatusExecutionRunning" by blast
    obtain r \<sigma>1 where u: "exec_Update (e_ID exe) (e_Version exe) [(''status'', TextV StatusExecutionCancelled)] \<sigma>0 = (r, \<sigma>1)"
      by fastforce
    have inv0: "execution_inv \<sigma>0" and mem: "exe \<in> set (executions (db \<sigma>0))" using X exe(1) assms
      by (simp_all add: execution_inv_def)
    then have "execution_row \<sigma>0 (e_ID exe) = Some exe"
      unfolding execution_row_def by (intro find_unique_key) (simp_all add: execution_inv_def)
    then have run: "lifecycles (db \<sigma>0) (e_ID exe) = Some (StatusExecutionRunning, e_Version exe)"
      using exe(2) by (simp add: lifecycles_row)
    have "execution_inv \<sigma>1" using execs.upd_inv [OF inv0 _ u] by (simp add: proper_def)
    moreover have "moves\<^sup>*\<^sup>* (lifecycles (db \<sigma>0)) (lifecycles (db \<sigma>1))"
      using status_update [OF u inv0] moves.cancel [where m = "lifecycles (db \<sigma>0)", OF run] by auto
    ultimately have "refines (db \<sigma>0) (db \<sigma>1)" by (simp add: refines_def execution_inv_keyed)
    then show ?thesis using x X exe u by (simp add: execution_Cancel_def on_ses_def)
  qed
qed


lemma redis_round_moves:
  assumes "execution_inv (st (eng w))" "snap (st (eng w)) = None"
  shows "moves\<^sup>*\<^sup>* (lifecycles (db (st (eng w)))) (lifecycles (db (st (eng (redis_round w)))))"
proof (cases "jobs w")
  case (Cons i js)
  have "moves\<^sup>*\<^sup>* (lifecycles (db (st (eng (w\<lparr>jobs := js\<rparr>))))) (lifecycles (db (st (eng (processExecutionByID i (w\<lparr>jobs := js\<rparr>))))))"
    unfolding processExecutionByID_def
    by (rule worker_transact_moves [OF surjective_pairing _ _ process_body_moves]) (use assms in auto)
  with Cons show ?thesis by (simp add: redis_round_def)
qed (simp add: redis_round_def)

lemma operates_refines:
  assumes "operates \<sigma> \<sigma>'" "execution_inv \<sigma>" "snap \<sigma> = None"
  shows "refines (db \<sigma>) (db \<sigma>')"
proof -
  have worker: "refines (db \<sigma>1) (db \<sigma>2)"
    if "moves\<^sup>*\<^sup>* (lifecycles (db \<sigma>1)) (lifecycles (db \<sigma>2))" "forwards \<sigma>1 \<sigma>2" for \<sigma>1 \<sigma>2
    using that by (simp add: refines_def forwards_def execution_inv_keyed)
  show ?thesis
    using assms
  proof (cases rule: operates.cases)
    case (tick w)
    have "moves\<^sup>*\<^sup>* (lifecycles (db \<sigma>)) (lifecycles (db \<sigma>'))" unfolding tick poll_def
      by (rule worker_transact_moves [OF surjective_pairing _ _ poll_body_moves]) (use tick assms in auto)
    moreover have "forwards \<sigma> \<sigma>'" using poll_advances [of w] tick assms by (simp add: advances_def)
    ultimately show ?thesis by (rule worker)
  next
    case (job w)
    have "forwards \<sigma> \<sigma>'" using process_advances [of "w\<lparr>jobs := tl (jobs w)\<rparr>" "hd (jobs w)"] job assms
        forwards_same [of \<sigma> \<sigma>] by (cases "jobs w") (auto simp: redis_round_def advances_def)
    with redis_round_moves [of w] job assms show ?thesis by (intro worker) auto
  next
    case (recover w)
    have \<sigma>': "\<sigma>' = snd (exec_RecoverStuckJobs (15 * 60 * 10 ^ 9) \<sigma>)"
      unfolding recover recoverStuckJobs_def on_eng_def
      by (simp only: split: prod.split) simp
    show ?thesis unfolding \<sigma>' by (rule worker) (rule r_into_rtranclp, rule recover_moves, rule recover_forwards)
  next
    case (run e exe ro sched reg wfl)
    have "executions (db \<sigma>') = executions (db \<sigma>)" unfolding run
      by (rule RunExecution_frozen) (use run assms in \<open>auto simp: claimed_def\<close>)
    then show ?thesis by (rule refines_same)
  qed (use assms in \<open>auto intro: trigger_refines retry_refines cancel_refines\<close>)
qed



text \<open>Histories of the tables: any number of servers and workers, each operation in a session of its own that has
  no transaction open. Operations follow each other; the statements of a transaction are not interleaved with others.\<close>

inductive history :: "database \<Rightarrow> database \<Rightarrow> bool" where
  nothing: "history d d"
| operation: "history d d1 \<Longrightarrow> db \<sigma> = d1 \<Longrightarrow> snap \<sigma> = None \<Longrightarrow> operates \<sigma> \<sigma>' \<Longrightarrow> history d (db \<sigma>')"

lemma history_refines:
  assumes "history d d'" "keyed d"
  shows "refines d d'"
  using assms
proof (induction rule: history.induct)
  case (operation d d1 \<sigma>1 \<sigma>2)
  then have IH: "refines d d1" "execution_inv \<sigma>1" by (simp_all add: refines_def execution_inv_keyed)
  with operates_refines [OF operation.hyps(4)] operation.hyps have "refines d1 (db \<sigma>2)" by simp
  with IH(1) show ?case by (rule refines_trans)
qed simp



end
