(* ===== verification/Account_Repo.thy ===== *)
theory Account_Repo imports Exec_Repo Workflow_Repo begin

text \<open>
  The repositories of tenants and users, \<open>internal/repository/tenant.go\<close> and \<open>internal/repository/user.go\<close>. Both are the
  same five statements on one table. What a statement on a table does is stated once, in the locale
  \<open>table_access\<close>, and interpreted for the two tables.

  Ids are arbitrary non-empty texts here; the empty text stands for every text that is not a UUID, which an insert
  refuses. A \<open>SELECT\<close> without \<open>ORDER BY\<close> gives the rows in storage order.
\<close>

subsection \<open>Statements on one table\<close>

definition write_table :: "('r list \<Rightarrow> database \<Rightarrow> database) \<Rightarrow> (time \<Rightarrow> database \<Rightarrow> err + nat \<times> 'r list) \<Rightarrow> store \<Rightarrow>
    (err + nat) \<times> store" where
  "write_table set_rows f = run_stmt (\<lambda>sc now d.
     case f now d of Inl e \<Rightarrow> Inl e | Inr (n, rs) \<Rightarrow> Inr (n, set_rows rs d))"

definition read_table :: "(database \<Rightarrow> 'r list) \<Rightarrow> 'r tab \<Rightarrow> string list \<Rightarrow> ('r \<Rightarrow> bool) \<Rightarrow> store \<Rightarrow>
    (err + 'r list) \<times> store" where
  "read_table rows t condcols p = query (\<lambda>sc d. select_rows t (tb_cols t) condcols p (rows d))"

locale table_access =
  fixes rows :: "database \<Rightarrow> 'r list"
    and set_rows :: "'r list \<Rightarrow> database \<Rightarrow> database"
  assumes rows_set_rows: "rows (set_rows rs d) = rs"
    and set_rows_rows: "set_rows (rows d) d = d"
begin

lemma write_result:
  assumes "write_table set_rows f \<sigma> = (r, \<sigma>')"
  shows "same_session \<sigma> \<sigma>' \<and> (case r of Inl e \<Rightarrow> db \<sigma>' = db \<sigma>
    | Inr n \<Rightarrow> \<exists>rs. f (clock \<sigma>) (db \<sigma>) = Inr (n, rs) \<and> db \<sigma>' = set_rows rs (db \<sigma>))"
  using run_stmt_result [OF assms [unfolded write_table_def]] by (auto split: sum.splits)

lemma read_result:
  assumes "read_table rows t cs p \<sigma> = (r, \<sigma>')"
  shows "same_session \<sigma> \<sigma>' \<and> db \<sigma>' = db \<sigma> \<and> (\<forall>xs. r = Inr xs \<longrightarrow> xs = filter p (rows (db \<sigma>)))"
  using query_result [OF assms [unfolded read_table_def]] by (auto simp: select_rows_def split: option.splits)

lemma read_one_result:
  assumes "db_result (collect_one (read_table rows t cs p \<sigma>)) = (r, \<sigma>')"
  shows "same_session \<sigma> \<sigma>' \<and> db \<sigma>' = db \<sigma> \<and> (\<forall>x. r = Inr x \<longrightarrow> x \<in> set (rows (db \<sigma>)) \<and> p x)"
proof -
  obtain q where q: "read_table rows t cs p \<sigma> = (q, \<sigma>')"
    using arg_cong [OF assms, of snd] by (cases "read_table rows t cs p \<sigma>") simp
  note Q = read_result [OF q]
  have "x \<in> set (rows (db \<sigma>)) \<and> p x" if "r = Inr x" for x
  proof -
    from assms that q obtain xs where "q = Inr (x # xs)" by (auto simp: db_result_Inr collect_one_Inr)
    with Q have f: "filter p (rows (db \<sigma>)) = x # xs" by auto
    from arg_cong [OF f, of set] show ?thesis by auto
  qed
  with Q show ?thesis by blast
qed

lemma insert_result:
  assumes "affected none (write_table set_rows (\<lambda>now d. insert_row t cols (fk d) x (rows d)) \<sigma>) = (r, \<sigma>')"
  shows "same_session \<sigma> \<sigma>' \<and> (r \<noteq> None \<longrightarrow> db \<sigma>' = db \<sigma>) \<and>
    (r = None \<longrightarrow> db \<sigma>' = set_rows (rows (db \<sigma>) @ [x]) (db \<sigma>) \<and> tb_check t x = None \<and> fk (db \<sigma>) = None \<and>
       (\<forall>y \<in> set (rows (db \<sigma>)). \<not> tb_clash t y x))"
proof -
  obtain wr where w: "write_table set_rows (\<lambda>now d. insert_row t cols (fk d) x (rows d)) \<sigma> = (wr, \<sigma>')"
    using assms by (auto simp: affected_def split: prod.splits sum.splits if_splits)
  note W = write_result [OF w]
  show ?thesis
  proof (cases wr)
    case (Inl e)
    with assms w W show ?thesis by (auto simp: affected_def)
  next
    case (Inr n)
    then obtain rs where rs: "insert_row t cols (fk (db \<sigma>)) x (rows (db \<sigma>)) = Inr (n, rs)" "db \<sigma>' = set_rows rs (db \<sigma>)"
      using W by auto
    then have "n = 1 \<and> rs = rows (db \<sigma>) @ [x] \<and> tb_check t x = None \<and> fk (db \<sigma>) = None \<and>
        (\<forall>y \<in> set (rows (db \<sigma>)). \<not> tb_clash t y x)"
      by (auto simp: insert_row_def list_ex_iff split: option.splits if_splits)
    with assms w W Inr rs(2) show ?thesis by (auto simp: affected_def)
  qed
qed

text \<open>An update whose assignments amount to \<open>g\<close> on every row.\<close>

lemma update_result:
  assumes u: "affected none (write_table set_rows (\<lambda>now d. update_rows t now cvs cc p (rows d)) \<sigma>) = (r, \<sigma>')"
    and put: "\<And>y. put_row t (clock \<sigma>) cvs y = Inr (g y) \<or> (\<exists>e. put_row t (clock \<sigma>) cvs y = Inl e)"
  shows "same_session \<sigma> \<sigma>' \<and> (r \<noteq> None \<longrightarrow> db \<sigma>' = db \<sigma>) \<and>
    (r = None \<longrightarrow> db \<sigma>' = set_rows (modify_all p g (rows (db \<sigma>))) (db \<sigma>) \<and> (\<exists>y \<in> set (rows (db \<sigma>)). p y))"
proof -
  obtain wr where w: "write_table set_rows (\<lambda>now d. update_rows t now cvs cc p (rows d)) \<sigma> = (wr, \<sigma>')"
    using u by (auto simp: affected_def split: prod.splits sum.splits if_splits)
  note W = write_result [OF w]
  show ?thesis
  proof (cases wr)
    case (Inl e)
    with u w W show ?thesis by (auto simp: affected_def)
  next
    case (Inr n)
    then obtain rs where rs: "update_rows t (clock \<sigma>) cvs cc p (rows (db \<sigma>)) = Inr (n, rs)" "db \<sigma>' = set_rows rs (db \<sigma>)"
      using W by auto
    then have n: "n = count_rows p (rows (db \<sigma>))" "put_rows t (clock \<sigma>) cvs p (rows (db \<sigma>)) = Inr rs"
      by (auto simp: update_rows_Inr)
    from put_rows_modify [OF put n(2)] have "rs = modify_all p g (rows (db \<sigma>))" .
    moreover have "r = None \<longleftrightarrow> n \<noteq> 0" using u w Inr by (auto simp: affected_def split: if_splits)
    moreover have "modify_all p g (rows (db \<sigma>)) = rows (db \<sigma>)" if "n = 0"
      using n(1) that by (intro modify_all_none) (simp add: count_rows_0)
    ultimately show ?thesis using W rs(2) n(1) by (auto simp: set_rows_rows count_rows_0)
  qed
qed

end

interpretation tenant_rows: table_access tenants "\<lambda>rs d. d\<lparr>tenants := rs\<rparr>"
  by unfold_locales simp_all

interpretation user_rows: table_access users "\<lambda>rs d. d\<lparr>users := rs\<rparr>"
  by unfold_locales simp_all

definition missing_uuid :: "string \<Rightarrow> err" where
  "missing_uuid c = DriverError (''cannot parse UUID for '' @ c)"

text \<open>The conditions of the \<open>Get\<close> methods.\<close>

definition active_conds :: "bool \<Rightarrow> colmap \<Rightarrow> colmap" where
  "active_conds active filters = filters @ (if active then [(''is_active'', FlagV True)] else [])"

subsection \<open>Tenants\<close>

definition tenant_columns :: "string list" where
  "tenant_columns = [''id'', ''name'', ''created_at'', ''updated_at'', ''is_active'']"

definition tenant_get :: "string \<Rightarrow> Tenant \<Rightarrow> sqlval option" where
  "tenant_get c r =
     (if c = ''id'' then Some (TextV (t_ID r))
      else if c = ''name'' then Some (TextV (t_Name r))
      else if c = ''is_active'' then Some (FlagV (t_IsActive r))
      else None)"

definition tenant_put :: "time \<Rightarrow> string \<Rightarrow> sqlval \<Rightarrow> Tenant \<Rightarrow> err + Tenant" where
  "tenant_put now c v r =
     (if c = ''name'' then put_text c v (\<lambda>s. r\<lparr>t_Name := s\<rparr>)
      else if c = ''is_active'' then put_flag c v (\<lambda>b. r\<lparr>t_IsActive := b\<rparr>)
      else if c = ''updated_at'' then put_time now c v (\<lambda>t. r\<lparr>t_UpdatedAt := t\<rparr>)
      else Inl (type_mismatch c))"

definition tenant_table :: "Tenant tab" where
  "tenant_table =
     \<lparr>tb_cols = tenant_columns, tb_get = tenant_get, tb_put = tenant_put,
      tb_check = (\<lambda>r.
        if t_ID r = '''' then Some (missing_uuid ''id'')
        else if 255 < length (t_Name r) then Some (too_long ''name'')
        else None),
      tb_clash = (\<lambda>a b. t_ID a = t_ID b)\<rparr>"

definition tenant_Create :: "Tenant \<Rightarrow> store \<Rightarrow> err option \<times> store" where
  "tenant_Create tenant \<sigma> =
     affected (NewError ErrTypeNotFound ''record not found'' (Some ErrNoRows))
       (write_table (\<lambda>rs d. d\<lparr>tenants := rs\<rparr>) (\<lambda>now d.
          insert_row tenant_table tenant_columns None tenant (tenants d)) \<sigma>)"

definition tenant_Get :: "colmap \<Rightarrow> bool \<Rightarrow> store \<Rightarrow> (err + Tenant) \<times> store" where
  "tenant_Get filters active \<sigma> =
     db_result (collect_one (read_table tenants tenant_table (map fst (active_conds active filters))
       (row_eq tenant_table (active_conds active filters)) \<sigma>))"

definition tenant_List :: "nat \<Rightarrow> nat \<Rightarrow> colmap \<Rightarrow> store \<Rightarrow> (err + Tenant list \<times> nat) \<times> store" where
  "tenant_List limit offset filters \<sigma> =
     (let p = (\<lambda>r. \<forall>cv \<in> set filters. list_cond tenant_table [''id''] cv r) in
      case db_result (read_table tenants tenant_table (map fst filters) p \<sigma>) of
        (Inl e, \<sigma>1) \<Rightarrow> (Inl e, \<sigma>1)
      | (Inr rs, \<sigma>1) \<Rightarrow>
          (case db_result (read_table tenants tenant_table (map fst filters) p \<sigma>1) of
             (Inl e, \<sigma>2) \<Rightarrow> (Inl e, \<sigma>2)
           | (Inr all, \<sigma>2) \<Rightarrow> (Inr (take limit (drop offset rs), length all), \<sigma>2)))"

definition tenant_Update :: "string \<Rightarrow> colmap \<Rightarrow> store \<Rightarrow> err option \<times> store" where
  "tenant_Update i data \<sigma> =
     affected (NewError ErrTypeNotFound ''record not found'' (Some ErrNoRows))
       (write_table (\<lambda>rs d. d\<lparr>tenants := rs\<rparr>) (\<lambda>now d.
          update_rows tenant_table now (gm_set ''updated_at'' NowE data) [''id'', ''is_active'']
            (\<lambda>r. t_ID r = i \<and> t_IsActive r) (tenants d)) \<sigma>)"

definition tenant_Delete :: "string \<Rightarrow> store \<Rightarrow> err option \<times> store" where
  "tenant_Delete i \<sigma> =
     affected (NewError ErrTypeNotFound ''record not found'' (Some ErrNoRows))
       (write_table (\<lambda>rs d. d\<lparr>tenants := rs\<rparr>) (\<lambda>now d.
          update_rows tenant_table now [(''is_active'', FlagV False), (''updated_at'', NowE)] [''id'', ''is_active'']
            (\<lambda>r. t_ID r = i \<and> t_IsActive r) (tenants d)) \<sigma>)"

subsection \<open>Users\<close>

definition user_columns :: "string list" where
  "user_columns = [''id'', ''tenant_id'', ''email'', ''password_hash'', ''role'', ''version'',
     ''created_at'', ''updated_at'', ''is_active'']"

definition user_get :: "string \<Rightarrow> User \<Rightarrow> sqlval option" where
  "user_get c r =
     (if c = ''id'' then Some (TextV (u_ID r))
      else if c = ''tenant_id'' then Some (TextV (u_TenantID r))
      else if c = ''email'' then Some (TextV (u_Email r))
      else if c = ''password_hash'' then Some (TextV (u_PasswordHash r))
      else if c = ''role'' then Some (TextV (u_Role r))
      else if c = ''version'' then Some (NumV (u_Version r))
      else if c = ''is_active'' then Some (FlagV (u_IsActive r))
      else None)"

definition user_put :: "time \<Rightarrow> string \<Rightarrow> sqlval \<Rightarrow> User \<Rightarrow> err + User" where
  "user_put now c v r =
     (if c = ''email'' then put_text c v (\<lambda>s. r\<lparr>u_Email := s\<rparr>)
      else if c = ''role'' then put_text c v (\<lambda>s. r\<lparr>u_Role := s\<rparr>)
      else if c = ''password_hash'' then put_text c v (\<lambda>s. r\<lparr>u_PasswordHash := s\<rparr>)
      else if c = ''version'' then put_int c v (\<lambda>n. r\<lparr>u_Version := n\<rparr>)
      else if c = ''is_active'' then put_flag c v (\<lambda>b. r\<lparr>u_IsActive := b\<rparr>)
      else if c = ''updated_at'' then put_time now c v (\<lambda>t. r\<lparr>u_UpdatedAt := t\<rparr>)
      else Inl (type_mismatch c))"

definition user_table :: "User tab" where
  "user_table =
     \<lparr>tb_cols = user_columns, tb_get = user_get, tb_put = user_put,
      tb_check = (\<lambda>r.
        if u_ID r = '''' then Some (missing_uuid ''id'')
        else if u_TenantID r = '''' then Some (missing_uuid ''tenant_id'')
        else if 255 < length (u_Email r) then Some (too_long ''email'')
        else if 255 < length (u_PasswordHash r) then Some (too_long ''password_hash'')
        else if u_Role r \<notin> {''admin'', ''editor'', ''viewer''} then Some (check_violation ''role'')
        else if \<not> int4 (u_Version r) then Some (out_of_range ''version'')
        else None),
      tb_clash = (\<lambda>a b. u_ID a = u_ID b \<or> u_Email a = u_Email b)\<rparr>"

definition user_fk :: "database \<Rightarrow> User \<Rightarrow> err option" where
  "user_fk d r =
     (if \<not> list_ex (\<lambda>t. t_ID t = u_TenantID r) (tenants d) then Some (foreign_key_violation ''tenant_id'') else None)"

definition user_Create :: "User \<Rightarrow> store \<Rightarrow> err option \<times> store" where
  "user_Create user \<sigma> =
     affected (NewError ErrTypeNotFound ''record not found'' (Some ErrNoRows))
       (write_table (\<lambda>rs d. d\<lparr>users := rs\<rparr>) (\<lambda>now d.
          insert_row user_table user_columns (user_fk d user) user (users d)) \<sigma>)"

definition user_Get :: "colmap \<Rightarrow> bool \<Rightarrow> store \<Rightarrow> (err + User) \<times> store" where
  "user_Get filters active \<sigma> =
     db_result (collect_one (read_table users user_table (map fst (active_conds active filters))
       (row_eq user_table (active_conds active filters)) \<sigma>))"

definition user_List :: "nat \<Rightarrow> nat \<Rightarrow> colmap \<Rightarrow> store \<Rightarrow> (err + User list \<times> nat) \<times> store" where
  "user_List limit offset filters \<sigma> =
     (let p = (\<lambda>r. \<forall>cv \<in> set filters. list_cond user_table [''id'', ''tenant_id''] cv r) in
      case db_result (read_table users user_table (map fst filters) p \<sigma>) of
        (Inl e, \<sigma>1) \<Rightarrow> (Inl e, \<sigma>1)
      | (Inr rs, \<sigma>1) \<Rightarrow>
          (case db_result (read_table users user_table (map fst filters) p \<sigma>1) of
             (Inl e, \<sigma>2) \<Rightarrow> (Inl e, \<sigma>2)
           | (Inr all, \<sigma>2) \<Rightarrow> (Inr (take limit (drop offset rs), length all), \<sigma>2)))"

definition user_conflict :: err where
  "user_conflict = NewError ErrTypeConflict ''user was modified by another request, please re-fetch and retry'' None"

definition user_Update :: "string \<Rightarrow> int \<Rightarrow> colmap \<Rightarrow> store \<Rightarrow> err option \<times> store" where
  "user_Update i currentVersion data \<sigma> =
     affected user_conflict
       (write_table (\<lambda>rs d. d\<lparr>users := rs\<rparr>) (\<lambda>now d.
          update_rows user_table now (versioned currentVersion data) [''id'', ''version'', ''is_active'']
            (\<lambda>r. u_ID r = i \<and> u_Version r = currentVersion \<and> u_IsActive r) (users d)) \<sigma>)"

definition user_Delete :: "string \<Rightarrow> int \<Rightarrow> store \<Rightarrow> err option \<times> store" where
  "user_Delete i currentVersion \<sigma> =
     affected user_conflict
       (write_table (\<lambda>rs d. d\<lparr>users := rs\<rparr>) (\<lambda>now d.
          update_rows user_table now [(''is_active'', FlagV False), (''updated_at'', NowE)]
            [''id'', ''version'', ''is_active'']
            (\<lambda>r. u_ID r = i \<and> u_Version r = currentVersion \<and> u_IsActive r) (users d)) \<sigma>)"

subsection \<open>Results of the methods\<close>

lemma row_eq_active:
  "tb_get t ''is_active'' x = Some (FlagV b) \<Longrightarrow> row_eq t (active_conds active conds) x \<longleftrightarrow> row_eq t conds x \<and> (active \<longrightarrow> b)"
  by (auto simp: row_eq_def active_conds_def)

lemma tenant_Get_result:
  assumes "tenant_Get conds active \<sigma> = (r, \<sigma>')"
  shows "same_session \<sigma> \<sigma>' \<and> db \<sigma>' = db \<sigma> \<and> (\<forall>x. r = Inr x \<longrightarrow> x \<in> set (tenants (db \<sigma>)) \<and>
    row_eq tenant_table conds x \<and> (active \<longrightarrow> t_IsActive x))"
proof -
  have a: "tb_get tenant_table ''is_active'' x = Some (FlagV (t_IsActive x))" for x
    by (simp add: tenant_table_def tenant_get_def)
  show ?thesis using tenant_rows.read_one_result [OF assms [unfolded tenant_Get_def]] row_eq_active [OF a] by blast
qed

lemma user_Get_result:
  assumes "user_Get conds active \<sigma> = (r, \<sigma>')"
  shows "same_session \<sigma> \<sigma>' \<and> db \<sigma>' = db \<sigma> \<and> (\<forall>x. r = Inr x \<longrightarrow> x \<in> set (users (db \<sigma>)) \<and>
    row_eq user_table conds x \<and> (active \<longrightarrow> u_IsActive x))"
proof -
  have a: "tb_get user_table ''is_active'' x = Some (FlagV (u_IsActive x))" for x
    by (simp add: user_table_def user_get_def)
  show ?thesis using user_rows.read_one_result [OF assms [unfolded user_Get_def]] row_eq_active [OF a] by blast
qed

lemma user_Create_result:
  assumes "user_Create u \<sigma> = (r, \<sigma>')"
  shows "same_session \<sigma> \<sigma>' \<and> (r \<noteq> None \<longrightarrow> db \<sigma>' = db \<sigma>) \<and> (r = None \<longrightarrow>
    db \<sigma>' = db \<sigma>\<lparr>users := users (db \<sigma>) @ [u]\<rparr> \<and> tb_check user_table u = None \<and>
    (\<forall>y \<in> set (users (db \<sigma>)). u_ID y \<noteq> u_ID u \<and> u_Email y \<noteq> u_Email u))"
  using user_rows.insert_result [OF assms [unfolded user_Create_def]] by (auto simp: user_table_def)

lemma tenant_Create_result:
  assumes "tenant_Create x \<sigma> = (r, \<sigma>')"
  shows "same_session \<sigma> \<sigma>' \<and> (r \<noteq> None \<longrightarrow> db \<sigma>' = db \<sigma>) \<and> (r = None \<longrightarrow>
    db \<sigma>' = db \<sigma>\<lparr>tenants := tenants (db \<sigma>) @ [x]\<rparr> \<and> (\<forall>y \<in> set (tenants (db \<sigma>)). t_ID y \<noteq> t_ID x))"
  using tenant_rows.insert_result [where fk = "\<lambda>d. None", OF assms [unfolded tenant_Create_def]]
  by (auto simp: tenant_table_def)

text \<open>\<open>Delete\<close> clears the active flag and leaves the version as it is.\<close>

lemma put_row_cases:
  "put_cols t now cvs y = Inr z \<Longrightarrow> put_row t now cvs y = Inr z \<or> (\<exists>e. put_row t now cvs y = Inl e)"
  by (simp add: put_row_def split: option.split)

lemma user_Delete_result:
  assumes "user_Delete i v \<sigma> = (r, \<sigma>')"
  shows "same_session \<sigma> \<sigma>' \<and> (r \<noteq> None \<longrightarrow> db \<sigma>' = db \<sigma>) \<and> (r = None \<longrightarrow>
    db \<sigma>' = db \<sigma>\<lparr>users := modify_all (\<lambda>y. u_ID y = i \<and> u_Version y = v \<and> u_IsActive y)
      (\<lambda>y. y\<lparr>u_IsActive := False, u_UpdatedAt := Some (clock \<sigma>)\<rparr>) (users (db \<sigma>))\<rparr> \<and>
    (\<exists>y \<in> set (users (db \<sigma>)). u_ID y = i \<and> u_Version y = v \<and> u_IsActive y))"
  by (rule user_rows.update_result [OF assms [unfolded user_Delete_def]], rule put_row_cases)
    (simp add: user_table_def user_put_def put_defs)

lemma user_Update_result:
  assumes "user_Update i v [(''email'', TextV em), (''role'', TextV ro)] \<sigma> = (r, \<sigma>')" "int4 v"
  shows "same_session \<sigma> \<sigma>' \<and> (r \<noteq> None \<longrightarrow> db \<sigma>' = db \<sigma>) \<and> (r = None \<longrightarrow>
    db \<sigma>' = db \<sigma>\<lparr>users := modify_all (\<lambda>y. u_ID y = i \<and> u_Version y = v \<and> u_IsActive y)
      (\<lambda>y. y\<lparr>u_Email := em, u_Role := ro, u_Version := v + 1, u_UpdatedAt := Some (clock \<sigma>)\<rparr>) (users (db \<sigma>))\<rparr> \<and>
    (\<exists>y \<in> set (users (db \<sigma>)). u_ID y = i \<and> u_Version y = v \<and> u_IsActive y))"
proof (rule user_rows.update_result [OF assms(1) [unfolded user_Update_def]])
  fix y
  show "put_row user_table (clock \<sigma>) (versioned v [(''email'', TextV em), (''role'', TextV ro)]) y =
      Inr (y\<lparr>u_Email := em, u_Role := ro, u_Version := v + 1, u_UpdatedAt := Some (clock \<sigma>)\<rparr>) \<or>
    (\<exists>e. put_row user_table (clock \<sigma>) (versioned v [(''email'', TextV em), (''role'', TextV ro)]) y = Inl e)"
    using int4_wrap [OF assms(2)]
    by (auto simp: put_row_def versioned_def user_table_def user_put_def put_defs split: option.split)
qed


end
