(* ===== verification/Typing.thy ===== *)
theory Typing imports Account_Repo Examples begin

text \<open>
  The tables are well typed, always: every row satisfies the length, range and \<open>CHECK\<close> constraints of its table, and no
  two rows break a uniqueness constraint. \<open>statement\<close> names every repository method and the three methods of the
  unit of work; \<open>perform\<close> runs one on a session. Whatever a program sends, in whatever order and with whatever
  failures, the tables stay well typed, and so does the copy a rollback would restore.
\<close>

definition table_typed :: "'r tab \<Rightarrow> 'r list \<Rightarrow> bool" where
  "table_typed t rows \<longleftrightarrow> (\<forall>r \<in> set rows. tb_check t r = None) \<and> \<not> has_clash (tb_clash t) rows"

definition database_typed :: "schema \<Rightarrow> database \<Rightarrow> bool" where
  "database_typed sc d \<longleftrightarrow> table_typed (execution_table sc) (executions d) \<and>
     table_typed (step_table sc) (step_executions d) \<and> table_typed workflow_table (workflows d) \<and>
     table_typed tenant_table (tenants d) \<and> table_typed user_table (users d)"

definition session_typed :: "store \<Rightarrow> bool" where
  "session_typed \<sigma> \<longleftrightarrow> database_typed (sch \<sigma>) (db \<sigma>) \<and>
     (\<forall>d. snap \<sigma> = Some d \<longrightarrow> database_typed (sch \<sigma>) d)"

lemma insert_row_typed:
  assumes "insert_row t cols fk r rows = Inr (n, rows')" "table_typed t rows"
  shows "table_typed t rows'"
  using assms by (auto simp: insert_row_def table_typed_def has_clash_append list_ex_iff split: option.splits if_splits)

lemma update_rows_typed:
  assumes u: "update_rows t now cvs cc p rows = Inr (n, rows')" and typed: "table_typed t rows"
  shows "table_typed t rows'"
proof -
  have put: "put_rows t now cvs p rows = Inr rows'" and n: "n = count_rows p rows" "n \<noteq> 0 \<longrightarrow> \<not> has_clash (tb_clash t) rows'"
    using u by (auto simp: update_rows_Inr)
  have "\<forall>r \<in> set rows'. tb_check t r = None"
    using put typed unfolding put_rows_list_all2 table_typed_def
    by (elim conjE, induction rows rows' rule: list_all2_induct)
      (auto simp: put_row_def split: if_splits sum.splits option.splits)
  moreover have "rows' = rows" if "n = 0" using put n(1) that put_rows_none [of rows p t now cvs] by (simp add: count_rows_0)
  ultimately show ?thesis using n(2) typed by (cases "n = 0") (auto simp: table_typed_def)
qed

text \<open>A statement that keeps the tables well typed where it succeeds keeps the session well typed.\<close>

lemma run_stmt_typed:
  assumes "\<And>d x d'. f (sch \<sigma>) (clock \<sigma>) d = Inr (x, d') \<Longrightarrow> database_typed (sch \<sigma>) d \<Longrightarrow> database_typed (sch \<sigma>) d'"
    and "session_typed \<sigma>"
  shows "session_typed (snd (run_stmt f \<sigma>))"
proof -
  obtain r \<sigma>' where r: "run_stmt f \<sigma> = (r, \<sigma>')" by fastforce
  from run_stmt_result [OF r] assms show ?thesis
    by (auto simp: r session_typed_def same_session_def split: sum.splits)
qed

lemma query_typed: "session_typed \<sigma> \<Longrightarrow> session_typed (snd (query f \<sigma>))"
  unfolding query_def by (rule run_stmt_typed) (auto split: sum.splits)

lemma result_session [simp]:
  "snd (affected none r) = snd r" "snd (db_result q) = snd q" "snd (collect_one s) = snd s"
  by (auto simp: affected_def db_result_def collect_one_def split: prod.split sum.split list.split)

subsection \<open>The statements of the program\<close>

datatype statement =
    ExecCreate Execution | ExecGet colmap | ExecList nat nat colmap | ExecUpdate string int colmap
  | ExecAcquire nat | ExecAcquireByID string | ExecRecover int
  | StepCreate StepExecution | StepGet colmap | StepListByExecution string | StepList string nat nat
  | StepUpdate string int colmap | StepGetByStep string string
  | WfCreate Workflow | WfGet colmap | WfGetForUpdate string string int bool | WfList nat nat colmap
  | WfListVersions string string | WfUpdate string colmap | WfDelete string string
  | TenantCreate Tenant | TenantGet colmap bool | TenantList nat nat colmap | TenantUpdate string colmap | TenantDelete string
  | UserCreate User | UserGet colmap bool | UserList nat nat colmap | UserUpdate string int colmap | UserDelete string int
  | BeginTx string | CommitTx bool | RollbackTx bool

fun perform :: "statement \<Rightarrow> store \<Rightarrow> store" where
  "perform (ExecCreate e) \<sigma> = snd (exec_Create e \<sigma>)"
| "perform (ExecGet fs) \<sigma> = snd (exec_Get fs \<sigma>)"
| "perform (ExecList l off fs) \<sigma> = snd (exec_List l off fs \<sigma>)"
| "perform (ExecUpdate i v data) \<sigma> = snd (exec_Update i v data \<sigma>)"
| "perform (ExecAcquire l) \<sigma> = snd (exec_AcquireForWorker l \<sigma>)"
| "perform (ExecAcquireByID i) \<sigma> = snd (exec_AcquireByIDForWorker i \<sigma>)"
| "perform (ExecRecover t) \<sigma> = snd (exec_RecoverStuckJobs t \<sigma>)"
| "perform (StepCreate s) \<sigma> = snd (step_Create s \<sigma>)"
| "perform (StepGet fs) \<sigma> = snd (step_Get fs \<sigma>)"
| "perform (StepListByExecution i) \<sigma> = snd (step_ListByExecution i \<sigma>)"
| "perform (StepList i l off) \<sigma> = snd (step_List i l off \<sigma>)"
| "perform (StepUpdate i v data) \<sigma> = snd (step_Update i v data \<sigma>)"
| "perform (StepGetByStep e s) \<sigma> = snd (step_GetByExecutionAndStep e s \<sigma>)"
| "perform (WfCreate w) \<sigma> = snd (wf_Create w \<sigma>)"
| "perform (WfGet fs) \<sigma> = snd (wf_Get fs \<sigma>)"
| "perform (WfGetForUpdate t n v c) \<sigma> = snd (wf_GetForUpdate t n v c \<sigma>)"
| "perform (WfList l off fs) \<sigma> = snd (wf_List l off fs \<sigma>)"
| "perform (WfListVersions t n) \<sigma> = snd (wf_ListVersions t n \<sigma>)"
| "perform (WfUpdate i data) \<sigma> = snd (wf_Update i data \<sigma>)"
| "perform (WfDelete t n) \<sigma> = snd (wf_Delete t n \<sigma>)"
| "perform (TenantCreate t) \<sigma> = snd (tenant_Create t \<sigma>)"
| "perform (TenantGet fs a) \<sigma> = snd (tenant_Get fs a \<sigma>)"
| "perform (TenantList l off fs) \<sigma> = snd (tenant_List l off fs \<sigma>)"
| "perform (TenantUpdate i data) \<sigma> = snd (tenant_Update i data \<sigma>)"
| "perform (TenantDelete i) \<sigma> = snd (tenant_Delete i \<sigma>)"
| "perform (UserCreate u) \<sigma> = snd (user_Create u \<sigma>)"
| "perform (UserGet fs a) \<sigma> = snd (user_Get fs a \<sigma>)"
| "perform (UserList l off fs) \<sigma> = snd (user_List l off fs \<sigma>)"
| "perform (UserUpdate i v data) \<sigma> = snd (user_Update i v data \<sigma>)"
| "perform (UserDelete i v) \<sigma> = snd (user_Delete i v \<sigma>)"
| "perform (BeginTx t) \<sigma> = snd (Begin t \<sigma>)"
| "perform (CommitTx has_tx) \<sigma> = snd (Commit has_tx \<sigma>)"
| "perform (RollbackTx has_tx) \<sigma> = snd (Rollback has_tx \<sigma>)"

text \<open>The writes, table by table.\<close>

lemma write_executions_typed:
  assumes "\<And>d n rows. f (sch \<sigma>) (clock \<sigma>) d = Inr (n, rows) \<Longrightarrow> table_typed (execution_table (sch \<sigma>)) (executions d) \<Longrightarrow>
      table_typed (execution_table (sch \<sigma>)) rows" "session_typed \<sigma>"
  shows "session_typed (snd (write_executions f \<sigma>))"
  unfolding write_executions_def
  by (rule run_stmt_typed [OF _ assms(2)]) (auto simp: database_typed_def dest: assms(1) split: sum.splits)

lemma write_steps_typed:
  assumes "\<And>d n rows. f (sch \<sigma>) (clock \<sigma>) d = Inr (n, rows) \<Longrightarrow> table_typed (step_table (sch \<sigma>)) (step_executions d) \<Longrightarrow>
      table_typed (step_table (sch \<sigma>)) rows" "session_typed \<sigma>"
  shows "session_typed (snd (write_steps f \<sigma>))"
  unfolding write_steps_def
  by (rule run_stmt_typed [OF _ assms(2)]) (auto simp: database_typed_def dest: assms(1) split: sum.splits)

lemma write_workflows_typed:
  assumes "\<And>d n rows. f (clock \<sigma>) d = Inr (n, rows) \<Longrightarrow> table_typed workflow_table (workflows d) \<Longrightarrow>
      table_typed workflow_table rows" "session_typed \<sigma>"
  shows "session_typed (snd (write_workflows f \<sigma>))"
  unfolding write_workflows_def
  by (rule run_stmt_typed [OF _ assms(2)]) (auto simp: database_typed_def dest: assms(1) split: sum.splits)

lemma write_accounts_typed:
  assumes "\<And>d n rows. f (clock \<sigma>) d = Inr (n, rows) \<Longrightarrow> database_typed (sch \<sigma>) d \<Longrightarrow> database_typed (sch \<sigma>) (set_rows rows d)"
    "session_typed \<sigma>"
  shows "session_typed (snd (write_table set_rows f \<sigma>))"
  unfolding write_table_def
  by (rule run_stmt_typed [OF _ assms(2)]) (auto dest: assms(1) split: sum.splits)

lemmas typed_writes = write_executions_typed write_steps_typed write_workflows_typed write_accounts_typed

lemmas typed_rows = insert_row_typed update_rows_typed

lemma reads_typed:
  assumes "session_typed \<sigma>"
  shows "session_typed (snd (read_executions cs p \<sigma>))" "session_typed (snd (read_steps cs ps \<sigma>))"
    "session_typed (snd (read_workflows cs q \<sigma>))" "session_typed (snd (read_table rows t cs p' \<sigma>))"
  using assms by (simp_all add: read_executions_def read_steps_def read_workflows_def read_table_def query_typed)

lemma snd_db_result_case: "session_typed (snd (db_result r)) \<Longrightarrow> db_result r = (x, \<sigma>) \<Longrightarrow> session_typed \<sigma>"
  by simp

lemma accounts_typed:
  "database_typed sc d \<Longrightarrow> table_typed tenant_table rows \<Longrightarrow> database_typed sc (d\<lparr>tenants := rows\<rparr>)"
  "database_typed sc d \<Longrightarrow> table_typed user_table rows' \<Longrightarrow> database_typed sc (d\<lparr>users := rows'\<rparr>)"
  "database_typed sc d \<Longrightarrow> table_typed tenant_table (tenants d)"
  "database_typed sc d \<Longrightarrow> table_typed user_table (users d)"
  by (simp_all add: database_typed_def)

lemma writes_typed:
  assumes "session_typed \<sigma>"
  shows "session_typed (snd (exec_Create e \<sigma>))" "session_typed (snd (exec_Update i v data \<sigma>))"
    "session_typed (snd (exec_RecoverStuckJobs t \<sigma>))" "session_typed (snd (step_Create s \<sigma>))"
    "session_typed (snd (step_Update i v data \<sigma>))" "session_typed (snd (wf_Create w \<sigma>))"
    "session_typed (snd (wf_Update i data \<sigma>))" "session_typed (snd (wf_Delete tn n \<sigma>))"
    "session_typed (snd (tenant_Create tnt \<sigma>))" "session_typed (snd (tenant_Update i data \<sigma>))"
    "session_typed (snd (tenant_Delete i \<sigma>))" "session_typed (snd (user_Create u \<sigma>))"
    "session_typed (snd (user_Update i v data \<sigma>))" "session_typed (snd (user_Delete i v \<sigma>))"
  unfolding exec_Create_def exec_Update_def exec_RecoverStuckJobs_def step_Create_def step_Update_def wf_Create_def
    wf_Update_def wf_Delete_def tenant_Create_def tenant_Update_def tenant_Delete_def user_Create_def user_Update_def
    user_Delete_def result_session
  by (-, (rule typed_writes, (erule (1) typed_rows | blast intro: accounts_typed typed_rows), rule assms)+)

lemma queries_typed:
  assumes "session_typed \<sigma>"
  shows "session_typed (perform (ExecGet fs) \<sigma>)" "session_typed (perform (ExecAcquireByID i) \<sigma>)"
    "session_typed (perform (StepGet fs) \<sigma>)" "session_typed (perform (StepGetByStep e s) \<sigma>)"
    "session_typed (perform (WfGet fs) \<sigma>)" "session_typed (perform (TenantGet fs a) \<sigma>)"
    "session_typed (perform (UserGet fs a) \<sigma>)"
  by (simp_all add: exec_Get_def exec_AcquireByIDForWorker_def step_Get_def step_GetByExecutionAndStep_def wf_Get_def
      tenant_Get_def user_Get_def reads_typed [OF assms])


text \<open>A method that looks at the result of a statement before it goes on.\<close>

lemma then_typed:
  "session_typed (snd q) \<Longrightarrow> (\<And>x \<sigma>. session_typed \<sigma> \<Longrightarrow> session_typed (snd (k x \<sigma>))) \<Longrightarrow>
   session_typed (snd (case q of (Inl e, \<sigma>) \<Rightarrow> (Inl e, \<sigma>) | (Inr x, \<sigma>) \<Rightarrow> k x \<sigma>))"
  by (cases q; cases "fst q") auto

lemma then_typed':
  "session_typed (snd q) \<Longrightarrow> (\<And>x \<sigma>. session_typed \<sigma> \<Longrightarrow> session_typed (snd (k x \<sigma>))) \<Longrightarrow>
   (\<And>e \<sigma>. session_typed \<sigma> \<Longrightarrow> session_typed (snd (h e \<sigma>))) \<Longrightarrow>
   session_typed (snd (case q of (Inl e, \<sigma>) \<Rightarrow> h e \<sigma> | (Inr x, \<sigma>) \<Rightarrow> k x \<sigma>))"
  by (cases q; cases "fst q") auto

lemma lists_typed:
  assumes "session_typed \<sigma>"
  shows "session_typed (perform (ExecList l off fs) \<sigma>)" "session_typed (perform (ExecAcquire l) \<sigma>)"
    "session_typed (perform (StepListByExecution i) \<sigma>)" "session_typed (perform (StepList i l off) \<sigma>)"
    "session_typed (perform (WfList l off fs) \<sigma>)"
    "session_typed (perform (WfListVersions t n) \<sigma>)" "session_typed (perform (TenantList l off fs) \<sigma>)"
    "session_typed (perform (UserList l off fs) \<sigma>)"
  unfolding perform.simps exec_List_def exec_AcquireForWorker_def step_ListByExecution_def step_List_def wf_List_def
    wf_ListVersions_def tenant_List_def user_List_def Let_def
  apply -
  apply (rule then_typed | (rule reads_typed, (assumption | rule assms)) | (simp only: result_session snd_conv))+
  done

lemma get_for_update_typed:
  assumes "session_typed \<sigma>"
  shows "session_typed (perform (WfGetForUpdate t n v c) \<sigma>)"
  unfolding perform.simps wf_GetForUpdate_def
  by (rule then_typed', simp only: result_session, rule reads_typed, rule assms) (simp_all split: if_split)

lemma tx_typed:
  assumes "session_typed \<sigma>"
  shows "session_typed (perform (BeginTx t) \<sigma>)" "session_typed (perform (CommitTx h) \<sigma>)" "session_typed (perform (RollbackTx h) \<sigma>)"
proof -
  let ?noop = "\<lambda>sc now d. Inr ((), d)"
  obtain r1 \<sigma>1 where one: "run_stmt ?noop \<sigma> = (r1, \<sigma>1)" by fastforce
  then have "session_typed \<sigma>1" using run_stmt_typed [of ?noop \<sigma>] assms by simp
  then have open_tx: "session_typed (\<sigma>1\<lparr>snap := Some (db \<sigma>1), aborted := False\<rparr>)" by (simp add: session_typed_def)
  obtain r2 \<sigma>2 where two: "run_stmt ?noop (\<sigma>1\<lparr>snap := Some (db \<sigma>1), aborted := False\<rparr>) = (r2, \<sigma>2)" by fastforce
  then have "session_typed \<sigma>2" using run_stmt_typed [OF _ open_tx, of ?noop] by simp
  then have "session_typed (\<sigma>2\<lparr>snap := None, aborted := False\<rparr>)" by (simp add: session_typed_def)
  with \<open>session_typed \<sigma>1\<close> \<open>session_typed \<sigma>2\<close> open_tx show "session_typed (perform (BeginTx t) \<sigma>)"
    by (simp add: Begin_def Let_def one two split: sum.split)
  show "session_typed (perform (CommitTx h) \<sigma>)" "session_typed (perform (RollbackTx h) \<sigma>)"
    using assms by (auto simp: Commit_def Rollback_def session_typed_def Let_def split: option.split list.split)
qed

lemma perform_typed: "session_typed \<sigma> \<Longrightarrow> session_typed (perform st \<sigma>)"
  by (cases st; simp only: queries_typed lists_typed get_for_update_typed tx_typed) (simp_all only: perform.simps writes_typed)



end
