(* ===== verification/Redis.thy ===== *)
theory Redis imports Model begin

text \<open>
  The cache of \<open>pkg/redis/redis.go\<close>: string keys with an expiry, the token buckets of the rate limiter, and the
  commands the code sends. Redis itself is what its documentation says of \<open>GET\<close>, \<open>SET\<close>, \<open>SETNX\<close>, \<open>DEL\<close>, \<open>HMGET\<close>,
  \<open>HMSET\<close> and \<open>EXPIRE\<close>; the Lua script of the rate limiter is translated.

  Time is in nanoseconds here, as Go's \<open>time.Duration\<close>; \<open>time.Now().Unix()\<close> is its quotient by \<open>10 ^ 9\<close>. A
  command can fail for outside reasons and then has no effect: \<open>failures\<close> lists the outcomes of the coming ones.

  A stored value is the text the code passed, or the text \<open>json.Marshal\<close> made of a value. The code never decodes
  a text of the first kind that is JSON.
\<close>

datatype cached = Plain string | Marshalled any

primrec cached_text :: "cached \<Rightarrow> string" where
  "cached_text (Plain s) = s"
| "cached_text (Marshalled v) = json_marshal v"

primrec cached_json :: "cached \<Rightarrow> json_text" where
  "cached_json (Plain s) = None"
| "cached_json (Marshalled v) = Some (json_roundtrip v)"

record entry =
  en_value :: cached
  en_expiry :: "int option"

record bucket =
  b_tokens :: int
  b_last_refill :: int
  b_expiry :: int

record redis =
  entries :: "(string \<times> entry) list"
  token_buckets :: "(string \<times> bucket) list"
  now_ns :: int
  failures :: "err option list"
  published :: "(string \<times> any) list"

definition second :: int where
  "second = 10 ^ 9"

definition unix :: "redis \<Rightarrow> int" where
  "unix c = now_ns c div second"

text \<open>One command: an outside failure, or its effect.\<close>

definition command :: "(redis \<Rightarrow> 'a \<times> redis) \<Rightarrow> redis \<Rightarrow> (err + 'a) \<times> redis" where
  "command f c =
     (let c' = c\<lparr>failures := tl (failures c)\<rparr> in
      case failures c of
        Some e # es \<Rightarrow> (Inl e, c')
      | _ \<Rightarrow> (case f c' of (x, c'') \<Rightarrow> (Inr x, c'')))"

definition live :: "redis \<Rightarrow> string \<Rightarrow> cached option" where
  "live c k = (case map_of (entries c) k of
      None \<Rightarrow> None
    | Some en \<Rightarrow> (case en_expiry en of
          None \<Rightarrow> Some (en_value en)
        | Some t \<Rightarrow> if t \<le> now_ns c then None else Some (en_value en)))"

text \<open>A time to live of zero is none. \<open>remove_keys\<close> is \<open>DEL\<close>.\<close>

definition put_entry :: "string \<Rightarrow> cached \<Rightarrow> int \<Rightarrow> redis \<Rightarrow> redis" where
  "put_entry k v ttl c = c\<lparr>entries := gm_set k
     \<lparr>en_value = v, en_expiry = (if ttl = 0 then None else Some (now_ns c + ttl))\<rparr> (entries c)\<rparr>"

definition remove_keys :: "string list \<Rightarrow> redis \<Rightarrow> redis" where
  "remove_keys ks c = c\<lparr>entries := filter (\<lambda>kv. fst kv \<notin> set ks) (entries c),
     token_buckets := filter (\<lambda>kv. fst kv \<notin> set ks) (token_buckets c)\<rparr>"

definition failed :: "(err + 'a) \<times> redis \<Rightarrow> err option \<times> redis" where
  "failed r = (case r of (Inl e, c) \<Rightarrow> (Some e, c) | (Inr x, c) \<Rightarrow> (None, c))"

definition cache_Set :: "string \<Rightarrow> cached \<Rightarrow> int \<Rightarrow> redis \<Rightarrow> err option \<times> redis" where
  "cache_Set key v ttl c = failed (command (\<lambda>c. ((), put_entry key v ttl c)) c)"

definition cache_Get :: "string \<Rightarrow> redis \<Rightarrow> (err + cached) \<times> redis" where
  "cache_Get key c =
     (case command (\<lambda>c. (live c key, c)) c of
        (Inl e, c1) \<Rightarrow> (Inl e, c1)
      | (Inr None, c1) \<Rightarrow> (Inl ErrCacheMiss, c1)
      | (Inr (Some v), c1) \<Rightarrow> (Inr v, c1))"

definition cache_GetStruct :: "string \<Rightarrow> redis \<Rightarrow> (err + any) \<times> redis" where
  "cache_GetStruct key c =
     (case cache_Get key c of
        (Inl e, c1) \<Rightarrow> (Inl e, c1)
      | (Inr v, c1) \<Rightarrow> ((case cached_json v of
            None \<Rightarrow> Inl (ErrorString ''invalid character'') | Some j \<Rightarrow> Inr j), c1))"

definition cache_Delete :: "string list \<Rightarrow> redis \<Rightarrow> err option \<times> redis" where
  "cache_Delete keys c =
     (if keys = [] then (None, c) else failed (command (\<lambda>c. ((), remove_keys keys c)) c))"

definition cache_SetNX :: "string \<Rightarrow> cached \<Rightarrow> int \<Rightarrow> redis \<Rightarrow> (err + bool) \<times> redis" where
  "cache_SetNX key v ttl c =
     command (\<lambda>c. case live c key of None \<Rightarrow> (True, put_entry key v ttl c) | Some x \<Rightarrow> (False, c)) c"

definition cache_Publish :: "string \<Rightarrow> any \<Rightarrow> redis \<Rightarrow> err option \<times> redis" where
  "cache_Publish channel message c =
     failed (command (\<lambda>c. ((), c\<lparr>published := published c @ [(channel, message)]\<rparr>)) c)"

text \<open>\<open>DeleteByPattern\<close>: \<open>scanned\<close> is what the iterator yields, key by key, before it ends or fails with \<open>scan_err\<close>; the
  matching of the pattern is the server's. A batch is deleted when it has 100 keys, the rest at the end.\<close>

fun delete_scanned :: "err option \<Rightarrow> string list \<Rightarrow> string list \<Rightarrow> redis \<Rightarrow> err option \<times> redis" where
  "delete_scanned scan_err keys [] c =
     (case scan_err of
        Some e \<Rightarrow> (Some e, c)
      | None \<Rightarrow> if keys \<noteq> [] then failed (command (\<lambda>c. ((), remove_keys keys c)) c) else (None, c))"
| "delete_scanned scan_err keys (k # ks) c =
     (if 100 \<le> length (keys @ [k]) then
        (case failed (command (\<lambda>c. ((), remove_keys (keys @ [k]) c)) c) of
           (Some e, c1) \<Rightarrow> (Some e, c1)
         | (None, c1) \<Rightarrow> delete_scanned scan_err [] ks c1)
      else delete_scanned scan_err (keys @ [k]) ks c)"

definition cache_DeleteByPattern :: "string list \<Rightarrow> err option \<Rightarrow> redis \<Rightarrow> err option \<times> redis" where
  "cache_DeleteByPattern scanned scan_err c = delete_scanned scan_err [] scanned c"

subsection \<open>The rate limiter\<close>

definition live_bucket :: "redis \<Rightarrow> string \<Rightarrow> bucket option" where
  "live_bucket c k = (case map_of (token_buckets c) k of
     None \<Rightarrow> None | Some b \<Rightarrow> if b_expiry b \<le> now_ns c then None else Some b)"

text \<open>The script; its numbers are integers far below the precision of Lua's floats.\<close>

definition refilled :: "int \<Rightarrow> int \<Rightarrow> int \<Rightarrow> bucket option \<Rightarrow> int" where
  "refilled capacity rate now b =
     (case b of
        None \<Rightarrow> capacity
      | Some b \<Rightarrow> (let elapsed = max 0 (now - b_last_refill b) in min capacity (b_tokens b + elapsed * rate)))"

definition rateLimitScript :: "string \<Rightarrow> int \<Rightarrow> int \<Rightarrow> int \<Rightarrow> int \<Rightarrow> redis \<Rightarrow> (int \<times> int) \<times> redis" where
  "rateLimitScript key capacity rate now requested c =
     (let tokens = refilled capacity rate now (live_bucket c key);
          allowed = (if requested \<le> tokens then 1 else 0);
          tokens' = (if requested \<le> tokens then tokens - requested else tokens) in
      ((allowed, tokens'), c\<lparr>token_buckets := gm_set key
         \<lparr>b_tokens = tokens', b_last_refill = now, b_expiry = now_ns c + 60 * second\<rparr> (token_buckets c)\<rparr>))"

definition cache_Allow :: "string \<Rightarrow> int \<Rightarrow> int \<Rightarrow> redis \<Rightarrow> (err + bool) \<times> redis" where
  "cache_Allow key limit rate c =
     (case command (rateLimitScript key limit rate (unix c) 1) c of
        (Inl e, c1) \<Rightarrow> (Inl e, c1)
      | (Inr (allowed, tokens), c1) \<Rightarrow> (Inr (allowed = 1), c1))"

subsection \<open>Facts\<close>

lemma command_healthy: "set (failures c) \<subseteq> {None} \<Longrightarrow>
    command f c = (case f (c\<lparr>failures := tl (failures c)\<rparr>) of (x, c') \<Rightarrow> (Inr x, c'))"
  by (auto simp: command_def Let_def split: list.splits option.splits)

lemma command_cases:
  assumes "command f c = (r, c')"
  obtains (fails) e where "r = Inl e" "c' = c\<lparr>failures := tl (failures c)\<rparr>"
    | (works) x where "r = Inr x" "f (c\<lparr>failures := tl (failures c)\<rparr>) = (x, c')"
  using assms by (auto simp: command_def Let_def split: list.splits option.splits prod.splits)

lemma live_put_entry:
  "live (put_entry k v ttl c) k' = (if k' = k then (if ttl < 0 then None else Some v) else live c k')"
  by (auto simp: live_def put_entry_def split: option.split)

lemma live_remove_keys: "live (remove_keys ks c) k = (if k \<in> set ks then None else live c k)"
proof -
  have m: "map_of (filter (\<lambda>kv. fst kv \<notin> set ks) xs) k = (if k \<in> set ks then None else map_of xs k)"
    for xs :: "(string \<times> entry) list" by (induction xs) auto
  show ?thesis by (auto simp: live_def remove_keys_def m split: option.split)
qed

lemma live_failures [simp]: "live (c\<lparr>failures := x\<rparr>) k = live c k"
  by (simp add: live_def split: option.split)

text \<open>Whatever the batches, exactly the scanned keys are gone when \<open>DeleteByPattern\<close> reports success.\<close>

lemma delete_scanned_ok:
  "delete_scanned scan_err keys ks c = (None, c') \<Longrightarrow>
   scan_err = None \<and> live c' k = (if k \<in> set keys \<union> set ks then None else live c k)"
proof (induction scan_err keys ks c rule: delete_scanned.induct)
  case (1 scan_err keys c)
  from 1 show ?case
    by (auto simp: failed_def live_remove_keys split: option.splits if_splits sum.splits prod.splits elim!: command_cases)
next
  case (2 scan_err keys x ks c)
  show ?case
  proof (cases "100 \<le> length (keys @ [x])")
    case True
    then obtain c1 where c1: "failed (command (\<lambda>c. ((), remove_keys (keys @ [x]) c)) c) = (None, c1)"
      "delete_scanned scan_err [] ks c1 = (None, c')"
      using 2(3) by (auto split: prod.splits option.splits)
    have "live c1 k = (if k \<in> set (keys @ [x]) then None else live c k)"
      using c1(1) by (auto simp: failed_def live_remove_keys split: sum.splits prod.splits elim!: command_cases)
    with 2(1) [OF True c1(1) [symmetric] refl c1(2)] show ?thesis by auto
  next
    case False
    with 2(3) have "delete_scanned scan_err (keys @ [x]) ks c = (None, c')" by simp
    from 2(2) [OF False this] show ?thesis by auto
  qed
qed

end
