(* ===== verification/Rate_Limit.thy ===== *)
theory Rate_Limit imports Redis begin

text \<open>
  The bound of the token bucket: however the calls of many clients interleave, the calls \<open>Allow\<close> lets through for a
  key are at most the capacity plus what the rate refills between the first and the last call. The bucket's
  60-second expiry does not loosen this as long as a minute refills the bucket.
\<close>

text \<open>Calls of \<open>Allow\<close> with one limit and rate, each at a time and for a key.\<close>

fun allow_calls :: "int \<Rightarrow> int \<Rightarrow> (int \<times> string) list \<Rightarrow> redis \<Rightarrow> (err + bool) list" where
  "allow_calls limit rate [] c = []"
| "allow_calls limit rate ((t, k) # calls) c =
     (case cache_Allow k limit rate (c\<lparr>now_ns := t\<rparr>) of (r, c1) \<Rightarrow> r # allow_calls limit rate calls c1)"

fun passed :: "string \<Rightarrow> (int \<times> string) list \<Rightarrow> (err + bool) list \<Rightarrow> int" where
  "passed k ((t, k') # calls) (r # rs) = (if k' = k \<and> r = Inr True then 1 else 0) + passed k calls rs"
| "passed k _ _ = 0"

text \<open>What a key's bucket holds at second \<open>n\<close>, and what keeps it meaningful: it was filled in the past, within its
  capacity, and does not expire within the next minute.\<close>

definition level :: "int \<Rightarrow> int \<Rightarrow> redis \<Rightarrow> string \<Rightarrow> int \<Rightarrow> int" where
  "level limit rate c k n =
     (case map_of (token_buckets c) k of
        None \<Rightarrow> limit
      | Some b \<Rightarrow> min limit (b_tokens b + (n - b_last_refill b) * rate))"

definition bucket_ok :: "int \<Rightarrow> int \<Rightarrow> bucket \<Rightarrow> bool" where
  "bucket_ok limit n b \<longleftrightarrow> 0 \<le> b_tokens b \<and> b_tokens b \<le> limit \<and> b_last_refill b \<le> n \<and>
     (b_last_refill b + 60) * second \<le> b_expiry b"

definition buckets_ok :: "int \<Rightarrow> int \<Rightarrow> redis \<Rightarrow> string \<Rightarrow> bool" where
  "buckets_ok limit n c k \<longleftrightarrow> (\<forall>b. map_of (token_buckets c) k = Some b \<longrightarrow> bucket_ok limit n b)"

lemma second_div: "0 < second" "t div second * second \<le> t" "t < (t div second + 1) * second"
  by (simp_all add: second_def)

text \<open>The script finds in the bucket exactly its level, expired or not.\<close>

lemma refilled_level:
  assumes "buckets_ok limit (unix c) c k" "0 \<le> rate" "limit \<le> 60 * rate"
  shows "refilled limit rate (unix c) (live_bucket c k) = level limit rate c k (unix c)"
proof (cases "map_of (token_buckets c) k")
  case (Some b)
  then have ok: "bucket_ok limit (unix c) b" using assms(1) by (simp add: buckets_ok_def)
  show ?thesis
  proof (cases "b_expiry b \<le> now_ns c")
    case True
    then have "(b_last_refill b + 60) * second \<le> now_ns c" using ok by (simp add: bucket_ok_def)
    then have "b_last_refill b + 60 \<le> unix c"
      unfolding unix_def using zdiv_mono1 [of "(b_last_refill b + 60) * second" "now_ns c" second] second_div(1) by simp
    then have "60 * rate \<le> (unix c - b_last_refill b) * rate" using assms(2) by (intro mult_right_mono) auto
    with assms(3) ok have "level limit rate c k (unix c) = limit" by (simp add: level_def Some bucket_ok_def)
    with True Some show ?thesis by (simp add: refilled_def live_bucket_def)
  next
    case False
    with ok Some show ?thesis by (simp add: refilled_def live_bucket_def level_def bucket_ok_def)
  qed
qed (simp add: refilled_def live_bucket_def level_def)

lemma level_mono:
  assumes "buckets_ok limit n c k" "n \<le> n'" "0 \<le> rate"
  shows "buckets_ok limit n' c k" "level limit rate c k n' \<le> level limit rate c k n + rate * (n' - n)"
proof -
  show "buckets_ok limit n' c k" using assms by (auto simp: buckets_ok_def bucket_ok_def)
  have "0 \<le> rate * (n' - n)" using assms by simp
  then show "level limit rate c k n' \<le> level limit rate c k n + rate * (n' - n)"
    by (auto simp: level_def algebra_simps min_def split: option.split)
qed

lemma level_nonneg: "buckets_ok limit n c k \<Longrightarrow> 0 \<le> limit \<Longrightarrow> 0 \<le> rate \<Longrightarrow> 0 \<le> level limit rate c k n"
  by (auto simp: level_def buckets_ok_def bucket_ok_def split: option.split)

text \<open>One call, in terms of the level.\<close>

lemma allow_level:
  assumes a: "cache_Allow k' limit rate c = (r, c')" and ok: "buckets_ok limit (unix c) c k"
    and lim: "0 \<le> limit" "0 \<le> rate" "limit \<le> 60 * rate"
  shows "buckets_ok limit (unix c) c' k \<and>
    level limit rate c' k (unix c) + (if k' = k \<and> r = Inr True then 1 else 0) = level limit rate c k (unix c)"
proof -
  obtain q where q: "command (rateLimitScript k' limit rate (unix c) 1) c = (q, c')"
    "r = (case q of Inl e \<Rightarrow> Inl e | Inr (al, tk) \<Rightarrow> Inr (al = 1))"
    using a by (auto simp: cache_Allow_def split: prod.splits sum.splits)
  from q(1) show ?thesis
  proof (cases rule: command_cases)
    case (fails e)
    then show ?thesis using q(2) ok by (simp add: buckets_ok_def level_def)
  next
    case (works x)
    let ?c = "c\<lparr>failures := tl (failures c)\<rparr>"
    have same: "live_bucket ?c k = live_bucket c k" "unix ?c = unix c"
      by (simp_all add: live_bucket_def unix_def split: option.split)
    show ?thesis
    proof (cases "k' = k")
      case False
      then have "map_of (token_buckets c') k = map_of (token_buckets c) k"
        using works by (auto simp: rateLimitScript_def Let_def)
      with False ok show ?thesis by (simp add: buckets_ok_def level_def)
    next
      case True
      define l where "l = level limit rate c k (unix c)"
      have l: "refilled limit rate (unix c) (live_bucket ?c k) = l" "0 \<le> l" "l \<le> limit"
        using refilled_level [OF ok lim(2,3)] level_nonneg [OF ok lim(1,2)] same(1)
        by (auto simp: l_def level_def split: option.split)
      have e: "(unix c + 60) * second \<le> now_ns c + 60 * second"
        using second_div(2) [of "now_ns c"] by (simp add: unix_def distrib_right)
      have w: "x = (if 1 \<le> l then 1 else 0, if 1 \<le> l then l - 1 else l)"
        "c' = ?c\<lparr>token_buckets := gm_set k \<lparr>b_tokens = (if 1 \<le> l then l - 1 else l), b_last_refill = unix c,
           b_expiry = now_ns c + 60 * second\<rparr> (token_buckets c)\<rparr>"
        using works(2) True unfolding rateLimitScript_def Let_def True l(1) by auto
      have b: "map_of (token_buckets c') k =
          Some \<lparr>b_tokens = (if 1 \<le> l then l - 1 else l), b_last_refill = unix c, b_expiry = now_ns c + 60 * second\<rparr>"
        "r = Inr (1 \<le> l)"
        using works(1) q(2) w by auto
      then have "level limit rate c' k (unix c) = (if 1 \<le> l then l - 1 else l)" "buckets_ok limit (unix c) c' k"
        using l(2,3) e by (auto simp: level_def buckets_ok_def bucket_ok_def)
      with b(2) True show ?thesis unfolding l_def by auto
    qed
  qed
qed

lemma passed_bound:
  assumes "buckets_ok limit n c k" "0 \<le> limit" "0 \<le> rate" "limit \<le> 60 * rate"
    and "sorted (map fst calls)" "\<forall>call \<in> set calls. n \<le> fst call div second \<and> fst call div second \<le> m" "n \<le> m"
  shows "passed k calls (allow_calls limit rate calls c) \<le> level limit rate c k n + rate * (m - n)"
  using assms
proof (induction calls arbitrary: c n)
  case Nil
  have "0 \<le> rate * (m - n)" using Nil by simp
  then show ?case using level_nonneg [OF Nil(1-3)] by simp
next
  case (Cons call calls)
  obtain t k' where call: "call = (t, k')" by (cases call)
  let ?c = "c\<lparr>now_ns := t\<rparr>"
  have u: "unix ?c = t div second" by (simp add: unix_def)
  have n: "n \<le> unix ?c" "unix ?c \<le> m" using Cons.prems(6) call u by auto
  have same: "buckets_ok limit x ?c k = buckets_ok limit x c k" "level limit rate ?c k x = level limit rate c k x" for x
    by (simp_all add: buckets_ok_def level_def)
  note up = level_mono [OF Cons.prems(1) n(1) Cons.prems(3)]
  obtain r c1 where a: "cache_Allow k' limit rate ?c = (r, c1)" by fastforce
  have A: "buckets_ok limit (unix ?c) c1 k" "level limit rate c1 k (unix ?c) + (if k' = k \<and> r = Inr True then 1 else 0)
      = level limit rate c k (unix ?c)"
    using allow_level [OF a, of k] up(1) same Cons.prems(2-4) by auto
  have later: "\<forall>call \<in> set calls. unix ?c \<le> fst call div second \<and> fst call div second \<le> m"
    using Cons.prems(5,6) second_div(1) call u by (auto intro!: zdiv_mono1)
  have "passed k calls (allow_calls limit rate calls c1) \<le> level limit rate c1 k (unix ?c) + rate * (m - unix ?c)"
    using Cons.IH [OF A(1) Cons.prems(2-4) _ later n(2)] Cons.prems(5) by simp
  with A(2) up(2) show ?case using call a by (simp add: algebra_simps)
qed


definition demo_redis :: redis where
  "demo_redis = \<lparr>entries = [], token_buckets = [], now_ns = 0, failures = [], published = []\<rparr>"


end
