(* ===== verification/Account_Service.thy ===== *)
theory Account_Service imports Account_Repo Workflow_Service Redis begin

text \<open>
  Accounts: the token functions of \<open>pkg/jwt\<close> and the services of users and tenants, \<open>internal/services/user.go\<close> and
  \<open>internal/services/tenant.go\<close>.

  The libraries for password hashes and signed tokens are parameters (\<open>crypto\<close>). A request context is the five
  values the middleware puts into it. Both clocks of the world stand for \<open>time.Now()\<close>: the session's in seconds, the
  cache's in nanoseconds. Logging is left out.
\<close>

subsection \<open>Libraries, configuration, context\<close>

text \<open>\<open>bcrypt.CompareHashAndPassword\<close>, \<open>bcrypt.GenerateFromPassword\<close>, signing claims with \<open>HS256\<close> under a key, and
  \<open>jwt.Parse\<close> with a key function that gives the key for tokens of an HMAC method and an error for others, at a
  given second.\<close>

record crypto =
  compare_password :: "string \<Rightarrow> string \<Rightarrow> err option"
  hash_password :: "string \<Rightarrow> err + string"
  sign_claims :: "string \<Rightarrow> gomap \<Rightarrow> err + string"
  parse_token :: "string \<Rightarrow> string \<Rightarrow> int \<Rightarrow> err + gomap"
  token_expired :: "err \<Rightarrow> bool"

record cfg =
  RefreshTokenKey :: string
  AccessTokenKey :: string
  RefreshTokenExp :: int
  AccessTokenExp :: int

record ctx =
  RoleKey :: "string option"
  UserKey :: "string option"
  TenantKey :: "string option"
  RefUuidKey :: "string option"
  AccUuidKey :: "string option"

definition GetContext :: "string option \<Rightarrow> string" where
  "GetContext v = (case v of None \<Rightarrow> '''' | Some s \<Rightarrow> s)"

record accounts =
  adb :: store
  cache :: redis

definition on_adb :: "(store \<Rightarrow> 'a \<times> store) \<Rightarrow> accounts \<Rightarrow> 'a \<times> accounts" where
  "on_adb f a = (case f (adb a) of (x, \<sigma>) \<Rightarrow> (x, a\<lparr>adb := \<sigma>\<rparr>))"

definition on_cache :: "(redis \<Rightarrow> 'a \<times> redis) \<Rightarrow> accounts \<Rightarrow> 'a \<times> accounts" where
  "on_cache f a = (case f (cache a) of (x, c) \<Rightarrow> (x, a\<lparr>cache := c\<rparr>))"

subsection \<open>Tokens\<close>

definition ErrInvalidToken :: err where
  "ErrInvalidToken = ErrorString ''invalid token''"

definition ErrExpiredToken :: err where
  "ErrExpiredToken = ErrorString ''token has expired''"

text \<open>\<open>jwt.Parse\<close> gives \<open>MapClaims\<close>, so the type assertion after it never fails.\<close>

definition TokenValid :: "crypto \<Rightarrow> string \<Rightarrow> string \<Rightarrow> int \<Rightarrow> err + gomap" where
  "TokenValid cr t key now =
     (case parse_token cr t key now of
        Inl e \<Rightarrow> (if token_expired cr e then Inl ErrExpiredToken else Inl ErrInvalidToken)
      | Inr claims \<Rightarrow> Inr claims)"

fun apply_options :: "gomap \<Rightarrow> gomap \<Rightarrow> gomap" where
  "apply_options [] claims = claims"
| "apply_options ((k, v) # opts) claims = apply_options opts (gm_set k v claims)"

definition token_claims :: "string \<Rightarrow> int \<Rightarrow> gomap \<Rightarrow> int \<Rightarrow> gomap" where
  "token_claims uuid duration opts now =
     apply_options opts [(''jti'', StrV uuid), (''iat'', IntV (now div second)), (''exp'', IntV ((now + duration) div second))]"

definition generateToken :: "crypto \<Rightarrow> string \<Rightarrow> string \<Rightarrow> int \<Rightarrow> gomap \<Rightarrow> int \<Rightarrow> err + string" where
  "generateToken cr uuid key duration opts now = sign_claims cr key (token_claims uuid duration opts now)"

record BaseRequest =
  br_RefUuid :: string
  br_AccUuid :: string
  br_RefKey :: string
  br_AccKey :: string
  br_RefDuration :: int
  br_AccDuration :: int

definition TokenPair :: "crypto \<Rightarrow> BaseRequest \<Rightarrow> gomap \<Rightarrow> int \<Rightarrow> err + string \<times> string" where
  "TokenPair cr payload opts now =
     (case generateToken cr (br_AccUuid payload) (br_AccKey payload) (br_AccDuration payload) opts now of
        Inl e \<Rightarrow> Inl e
      | Inr acc \<Rightarrow>
          (case generateToken cr (br_RefUuid payload) (br_RefKey payload) (br_RefDuration payload) opts now of
             Inl e \<Rightarrow> Inl e
           | Inr ref \<Rightarrow> Inr (acc, ref)))"

definition AccessToken :: "crypto \<Rightarrow> BaseRequest \<Rightarrow> gomap \<Rightarrow> int \<Rightarrow> err + string" where
  "AccessToken cr payload opts now =
     generateToken cr (br_AccUuid payload) (br_AccKey payload) (br_AccDuration payload) opts now"

definition RefKey :: "string \<Rightarrow> string" where
  "RefKey uuid = ''rt:'' @ uuid"

definition BlacklistKey :: "string \<Rightarrow> string" where
  "BlacklistKey uuid = ''blacklist:'' @ uuid"

subsection \<open>Login, Logout, Refresh\<close>

definition session_value :: "string \<Rightarrow> string \<Rightarrow> string \<Rightarrow> cached" where
  "session_value accUuid userID tenantID =
     Marshalled (ObjV [(''acc_uuid'', StrV accUuid), (''user_id'', StrV userID), (''tenant_id'', StrV tenantID)])"

definition token_options :: "string \<Rightarrow> string \<Rightarrow> string \<Rightarrow> string \<Rightarrow> gomap" where
  "token_options userID role tenantID refUuid =
     [(''user_id'', StrV userID), (''role'', StrV role), (''tenant_id'', StrV tenantID), (''ref_uuid'', StrV refUuid)]"

definition Login :: "crypto \<Rightarrow> cfg \<Rightarrow> string \<Rightarrow> string \<Rightarrow> accounts \<Rightarrow> (err + string \<times> string) \<times> accounts" where
  "Login cr conf email password a =
     (case on_adb (user_Get [(''email'', TextV email)] True) a of
        (Inl e, a1) \<Rightarrow> (Inl e, a1)
      | (Inr user, a1) \<Rightarrow>
          (case compare_password cr (u_PasswordHash user) password of
             Some e \<Rightarrow> (Inl (NewValidationError [(''password'', ''invalid password'')]), a1)
           | None \<Rightarrow>
               (case on_adb new_uuid a1 of (refUuid, a2) \<Rightarrow>
                (case on_adb new_uuid a2 of (accUuid, a3) \<Rightarrow>
                   (let baseToken = \<lparr>br_RefUuid = refUuid, br_AccUuid = accUuid, br_RefKey = RefreshTokenKey conf,
                          br_AccKey = AccessTokenKey conf, br_RefDuration = RefreshTokenExp conf,
                          br_AccDuration = AccessTokenExp conf\<rparr> in
                    case TokenPair cr baseToken (token_options (u_ID user) (u_Role user) (u_TenantID user) refUuid)
                        (now_ns (cache a3)) of
                      Inl e \<Rightarrow> (Inl (NewError ErrTypeInternal ''failed create token'' (Some e)), a3)
                    | Inr (acc, ref) \<Rightarrow>
                        (case on_cache (cache_Set (RefKey refUuid)
                            (session_value accUuid (u_ID user) (u_TenantID user)) (RefreshTokenExp conf)) a3 of
                           (Some e, a4) \<Rightarrow> (Inl (NewError ErrTypeInternal ''failed to store refresh auth'' (Some e)), a4)
                         | (None, a4) \<Rightarrow> (Inr (acc, ref), a4)))))))"

definition Logout :: "cfg \<Rightarrow> string \<Rightarrow> string \<Rightarrow> accounts \<Rightarrow> err option \<times> accounts" where
  "Logout conf accUUID refUUID a =
     (case on_cache (cache_Delete [RefKey refUUID]) a of
        (Some e, a1) \<Rightarrow> (Some (NewError ErrTypeInternal ''failed to delete auth'' (Some e)), a1)
      | (None, a1) \<Rightarrow>
          (case on_cache (cache_Set (BlacklistKey accUUID) (Plain ''revoked'') (AccessTokenExp conf)) a1 of
             (Some e, a2) \<Rightarrow> (Some (NewError ErrTypeInternal ''failed to store refresh auth'' (Some e)), a2)
           | (None, a2) \<Rightarrow> (None, a2)))"

text \<open>\<open>json.Unmarshal\<close> of the cached text into a \<open>map[string]any\<close>: an object, or \<open>null\<close>, which leaves the map nil.\<close>

definition unmarshal_map :: "cached \<Rightarrow> err + gomap" where
  "unmarshal_map v =
     (case cached_json v of
        None \<Rightarrow> Inl (ErrorString ''invalid character'')
      | Some (ObjV m) \<Rightarrow> Inr m
      | Some NilV \<Rightarrow> Inr []
      | Some _ \<Rightarrow> Inl (ErrorString ''json: cannot unmarshal''))"

definition Refresh :: "crypto \<Rightarrow> cfg \<Rightarrow> string \<Rightarrow> string \<Rightarrow> string \<Rightarrow> string \<Rightarrow> accounts \<Rightarrow>
    (err + string) \<times> accounts" where
  "Refresh cr conf refUUID userID role tenantID a =
     (case on_cache (cache_Get (RefKey refUUID)) a of
        (Inl e, a1) \<Rightarrow> (Inl (NewError ErrTypeUnauthorized ''token invalid'' (Some e)), a1)
      | (Inr value, a1) \<Rightarrow>
          (if cached_text value = '''' then
             (Inl (NewError ErrTypeUnauthorized ''token invalid'' (Some (ErrorString ''refresh token value is empty''))), a1)
           else
             (case unmarshal_map value of
                Inl e \<Rightarrow> (Inl (NewError ErrTypeInternal ''internal server error'' (Some e)), a1)
              | Inr m \<Rightarrow>
                  (case as_string (gm_get m ''acc_uuid'') of
                     None \<Rightarrow> (Inl (NewError ErrTypeUnauthorized ''token invalid'' None), a1)
                   | Some accUuid \<Rightarrow>
                       (case on_cache (cache_Set (BlacklistKey accUuid) (Plain ''revoked'') (AccessTokenExp conf)) a1 of
                          (Some e, a2) \<Rightarrow> (Inl (NewError ErrTypeInternal ''failed to store refresh auth'' (Some e)), a2)
                        | (None, a2) \<Rightarrow>
                            (case on_adb new_uuid a2 of (newUuid, a3) \<Rightarrow>
                               (let baseToken = \<lparr>br_RefUuid = '''', br_AccUuid = newUuid, br_RefKey = '''',
                                      br_AccKey = AccessTokenKey conf, br_RefDuration = RefreshTokenExp conf,
                                      br_AccDuration = AccessTokenExp conf\<rparr> in
                                case AccessToken cr baseToken
                                    [(''user_id'', StrV userID), (''role'', StrV role), (''ref_uuid'', StrV refUUID),
                                     (''tenant_id'', StrV tenantID)] (now_ns (cache a3)) of
                                  Inl e \<Rightarrow> (Inl (NewError ErrTypeInternal ''failed create token'' (Some e)), a3)
                                | Inr acc \<Rightarrow>
                                    (case on_cache (cache_Set (RefKey refUUID) (session_value newUuid userID tenantID)
                                        (RefreshTokenExp conf)) a3 of
                                       (Some e, a4) \<Rightarrow>
                                         (Inl (NewError ErrTypeInternal ''failed to store refresh auth'' (Some e)), a4)
                                     | (None, a4) \<Rightarrow> (Inr acc, a4)))))))))"

end
