(* ===== verification/User_Service.thy ===== *)
theory User_Service imports Account_Service Pagination begin

text \<open>
  The rest of \<open>internal/services/user.go\<close> (\<open>Create\<close>, \<open>Get\<close>, \<open>List\<close>, \<open>Update\<close>, \<open>Delete\<close>) and \<open>internal/services/tenant.go\<close>.
  The methods read the caller's role and tenant from the request context.
\<close>

record UserRequest =
  ur_UserID :: string
  ur_TenantID :: string
  ur_Email :: string
  ur_Password :: string
  ur_Role :: string

record UserUpdateRequest =
  uu_UserID :: string
  uu_TenantID :: string
  uu_Email :: string
  uu_Password :: string
  uu_Role :: string

record UserResponse =
  us_UserID :: string
  us_TenantID :: string
  us_TenantName :: string
  us_Email :: string
  us_Role :: string
  us_CreatedAt :: time
  us_UpdatedAt :: "time option"
  us_IsActive :: bool

definition user_response :: "User \<Rightarrow> Tenant \<Rightarrow> UserResponse" where
  "user_response u t =
     \<lparr>us_UserID = u_ID u, us_TenantID = u_TenantID u, us_TenantName = t_Name t, us_Email = u_Email u,
      us_Role = u_Role u, us_CreatedAt = u_CreatedAt u, us_UpdatedAt = u_UpdatedAt u, us_IsActive = u_IsActive u\<rparr>"

definition unauthorized_request :: err where
  "unauthorized_request = NewError ErrTypeUnauthorized ''unauthorized request'' None"

subsection \<open>Create\<close>

text \<open>The role an executor may give.\<close>

definition role_refused :: "string \<Rightarrow> string \<Rightarrow> err option" where
  "role_refused executorRole role =
     (if executorRole = ''admin'' then
        (if role \<noteq> ''editor'' \<and> role \<noteq> ''viewer'' \<and> role \<noteq> ''admin''
         then Some (NewValidationError [(''role'', ''admin can only create admin, editor or viewer role'')]) else None)
      else if executorRole = ''editor'' then
        (if role \<noteq> ''viewer''
         then Some (NewValidationError [(''role'', ''editor can only create user with viewer role'')]) else None)
      else if executorRole = ''viewer'' then Some (NewError ErrTypeUnauthorized ''viewer cannot create users'' None)
      else Some (NewError ErrTypeUnauthorized ''invalid executor role'' None))"

text \<open>\<open>var user model.User\<close>, which a failed \<open>Get\<close> leaves at its zero value.\<close>

definition zero_user :: User where
  "zero_user = \<lparr>u_ID = '''', u_TenantID = '''', u_Email = '''', u_PasswordHash = '''', u_Role = '''', u_Version = 0,
     u_CreatedAt = 0, u_UpdatedAt = None, u_IsActive = False\<rparr>"

definition user_service_Create :: "crypto \<Rightarrow> ctx \<Rightarrow> UserRequest \<Rightarrow> accounts \<Rightarrow> (err + UserResponse) \<times> accounts" where
  "user_service_Create cr cx req a =
     (case (RoleKey cx, TenantKey cx) of
        (Some executorRole, Some executorTenant) \<Rightarrow>
          (if executorTenant \<noteq> ur_TenantID req then
             (Inl (NewError ErrTypeValidation ''forbidden to cross-create users in another tenant'' None), a)
           else case role_refused executorRole (ur_Role req) of
             Some e \<Rightarrow> (Inl e, a)
           | None \<Rightarrow>
               (case hash_password cr (ur_Password req) of
                  Inl e \<Rightarrow> (Inl (NewError ErrTypeInternal ''failed processing request'' (Some e)), a)
                | Inr hashPass \<Rightarrow>
                    (case on_adb (user_Get [(''email'', TextV (ur_Email req))] True) a of (r, a1) \<Rightarrow>
                       (let user = (case r of Inl e \<Rightarrow> zero_user | Inr u \<Rightarrow> u) in
                        if \<not> isl r \<and> u_ID user \<noteq> '''' then
                          (Inl (NewError ErrTypeConflict ''email already registered'' None), a1)
                        else
                          (case on_adb (tenant_Get [(''id'', TextV (ur_TenantID req))] True) a1 of
                             (Inl e, a2) \<Rightarrow> (Inl e, a2)
                           | (Inr tenant, a2) \<Rightarrow>
                               (case on_adb new_uuid a2 of (i, a3) \<Rightarrow>
                                  (let user' = user\<lparr>u_ID := i, u_Email := ur_Email req, u_Role := ur_Role req,
                                         u_PasswordHash := hashPass, u_CreatedAt := clock (adb a3),
                                         u_UpdatedAt := None, u_Version := 1\<rparr> in
                                   case on_adb (user_Create user') a3 of
                                     (Some e, a4) \<Rightarrow> (Inl e, a4)
                                   | (None, a4) \<Rightarrow> (Inr (user_response user' tenant), a4))))))))
      | _ \<Rightarrow> (Inl unauthorized_request, a))"

subsection \<open>Get, List, Update, Delete\<close>

definition access_denied :: err where
  "access_denied = NewError ErrTypeUnauthorized ''access denied'' None"

definition user_service_Get :: "ctx \<Rightarrow> string \<Rightarrow> accounts \<Rightarrow> (err + UserResponse) \<times> accounts" where
  "user_service_Get cx i a =
     (case TenantKey cx of
        None \<Rightarrow> (Inl unauthorized_request, a)
      | Some ctxTenantID \<Rightarrow>
          (case on_adb (user_Get [(''id'', TextV i)] True) a of
             (Inl e, a1) \<Rightarrow> (Inl e, a1)
           | (Inr user, a1) \<Rightarrow>
               (if u_TenantID user \<noteq> ctxTenantID then (Inl access_denied, a1)
                else case on_adb (tenant_Get [(''id'', TextV (u_TenantID user))] True) a1 of
                  (Inl e, a2) \<Rightarrow> (Inl e, a2)
                | (Inr tenant, a2) \<Rightarrow> (Inr (user_response user tenant), a2))))"

record UserListRequest =
  ul_PageSize :: nat
  ul_PageToken :: string
  ul_Role :: string
  ul_Email :: string

definition user_filters :: "string \<Rightarrow> UserListRequest \<Rightarrow> colmap" where
  "user_filters ctxTenantID req =
     (''tenant_id'', TextV ctxTenantID)
       # (if ul_Role req \<noteq> '''' then [(''role'', TextV (ul_Role req))] else [])
       @ (if ul_Email req \<noteq> '''' then [(''email'', TextV (ul_Email req))] else [])"

definition user_service_List :: "ctx \<Rightarrow> UserListRequest \<Rightarrow> accounts \<Rightarrow>
    (err + UserResponse list \<times> nat \<times> string) \<times> accounts" where
  "user_service_List cx req a =
     (case page_request (ul_PageToken req) (ul_PageSize req) of
        Inl e \<Rightarrow> (Inl e, a)
      | Inr (offset, pageSize) \<Rightarrow>
          (case TenantKey cx of
             None \<Rightarrow> (Inl unauthorized_request, a)
           | Some ctxTenantID \<Rightarrow>
               (case on_adb (user_List pageSize offset (user_filters ctxTenantID req)) a of
                  (Inl e, a1) \<Rightarrow> (Inl e, a1)
                | (Inr (us, found), a1) \<Rightarrow>
                    (case on_adb (tenant_Get [(''id'', TextV ctxTenantID)] True) a1 of
                       (Inl e, a2) \<Rightarrow> (Inl e, a2)
                     | (Inr tenant, a2) \<Rightarrow>
                         (Inr (map (\<lambda>u. user_response u tenant) us, found, next_page_token found offset pageSize), a2)))))"

text \<open>The second \<open>Get\<close> of \<open>Update\<close> reads into the same variable, but when it succeeds the method returns; when it fails
  the variable keeps the user. The answer shows the user as it was before the update.\<close>

definition user_service_Update :: "ctx \<Rightarrow> UserUpdateRequest \<Rightarrow> accounts \<Rightarrow> (err + UserResponse) \<times> accounts" where
  "user_service_Update cx req a =
     (case TenantKey cx of
        None \<Rightarrow> (Inl unauthorized_request, a)
      | Some ctxTenantID \<Rightarrow>
          (case on_adb (user_Get [(''id'', TextV (uu_UserID req))] True) a of
             (Inl e, a1) \<Rightarrow> (Inl e, a1)
           | (Inr user, a1) \<Rightarrow>
               (if u_TenantID user \<noteq> ctxTenantID then (Inl access_denied, a1)
                else if u_TenantID user \<noteq> uu_TenantID req then
                  (Inl (NewError ErrTypeConflict ''access denied'' None), a1)
                else
                  (case (if u_Email user \<noteq> uu_Email req
                         then on_adb (user_Get [(''email'', TextV (uu_Email req))] True) a1
                         else (Inl ErrNoRows, a1)) of
                     (Inr other, a2) \<Rightarrow> (Inl (NewError ErrTypeConflict ''email already taken'' None), a2)
                   | (Inl x, a2) \<Rightarrow>
                       (case on_adb (user_Update (u_ID user) (u_Version user)
                           [(''email'', TextV (uu_Email req)), (''role'', TextV (uu_Role req))]) a2 of
                          (Some e, a3) \<Rightarrow> (Inl e, a3)
                        | (None, a3) \<Rightarrow>
                            (case on_adb (tenant_Get [(''id'', TextV (u_TenantID user))] True) a3 of
                               (Inl e, a4) \<Rightarrow> (Inl e, a4)
                             | (Inr tenant, a4) \<Rightarrow> (Inr (user_response user tenant), a4)))))))"

definition user_service_Delete :: "ctx \<Rightarrow> string \<Rightarrow> accounts \<Rightarrow> err option \<times> accounts" where
  "user_service_Delete cx i a =
     (case on_adb (user_Get [(''id'', TextV i)] True) a of
        (Inl e, a1) \<Rightarrow> (Some e, a1)
      | (Inr user, a1) \<Rightarrow> on_adb (user_Delete (u_ID user) (u_Version user)) a1)"

subsection \<open>Tenants\<close>

record TenantRequest =
  tr_ID :: string
  tr_Name :: string
  tr_IsActive :: bool

record TenantResponse =
  tp_ID :: string
  tp_Name :: string
  tp_IsActive :: bool
  tp_CreatedAt :: time
  tp_UpdatedAt :: "time option"

definition tenant_response :: "Tenant \<Rightarrow> TenantResponse" where
  "tenant_response t = \<lparr>tp_ID = t_ID t, tp_Name = t_Name t, tp_IsActive = t_IsActive t,
     tp_CreatedAt = t_CreatedAt t, tp_UpdatedAt = t_UpdatedAt t\<rparr>"

text \<open>\<open>Create\<close> never sets the creation time: the row gets Go's zero time, \<open>0\<close> here.\<close>

definition zero_tenant :: Tenant where
  "zero_tenant = \<lparr>t_ID = '''', t_Name = '''', t_CreatedAt = 0, t_UpdatedAt = None, t_IsActive = False\<rparr>"

definition tenant_service_Create :: "TenantRequest \<Rightarrow> accounts \<Rightarrow> (err + TenantResponse) \<times> accounts" where
  "tenant_service_Create req a =
     (case on_adb (tenant_Get [(''name'', TextV (tr_Name req))] True) a of (r, a1) \<Rightarrow>
        (let tenant = (case r of Inl e \<Rightarrow> zero_tenant | Inr t \<Rightarrow> t) in
         if \<not> isl r \<and> t_ID tenant \<noteq> '''' then (Inl (NewError ErrTypeConflict ''name already registered'' None), a1)
         else (case on_adb new_uuid a1 of (i, a2) \<Rightarrow>
           (let tenant' = tenant\<lparr>t_ID := i, t_Name := tr_Name req, t_IsActive := tr_IsActive req\<rparr> in
            case on_adb (tenant_Create tenant') a2 of
              (Some e, a3) \<Rightarrow> (Inl e, a3)
            | (None, a3) \<Rightarrow> (Inr ((tenant_response tenant')\<lparr>tp_UpdatedAt := None\<rparr>), a3)))))"

definition tenant_service_Get :: "string \<Rightarrow> accounts \<Rightarrow> (err + TenantResponse) \<times> accounts" where
  "tenant_service_Get i a =
     (case on_adb (tenant_Get [(''id'', TextV i)] True) a of
        (Inl e, a1) \<Rightarrow> (Inl e, a1)
      | (Inr tenant, a1) \<Rightarrow> (Inr (tenant_response tenant), a1))"

definition tenant_service_List :: "nat \<Rightarrow> string \<Rightarrow> string \<Rightarrow> accounts \<Rightarrow>
    (err + TenantResponse list \<times> nat \<times> string) \<times> accounts" where
  "tenant_service_List pageSize pageToken tenantName a =
     (case page_request pageToken pageSize of
        Inl e \<Rightarrow> (Inl e, a)
      | Inr (offset, pageSize') \<Rightarrow>
          (case on_adb (tenant_List pageSize' offset
              (if tenantName \<noteq> '''' then [(''name'', TextV tenantName)] else [])) a of
             (Inl e, a1) \<Rightarrow> (Inl e, a1)
           | (Inr (ts, found), a1) \<Rightarrow>
               (Inr (map tenant_response ts, found, next_page_token found offset pageSize'), a1)))"

definition tenant_service_Update :: "TenantRequest \<Rightarrow> accounts \<Rightarrow> (err + TenantResponse) \<times> accounts" where
  "tenant_service_Update req a =
     (case on_adb (tenant_Get [(''id'', TextV (tr_ID req))] True) a of
        (Inl e, a1) \<Rightarrow> (Inl e, a1)
      | (Inr tenant, a1) \<Rightarrow>
          (case on_adb (tenant_Update (tr_ID req) [(''name'', TextV (tr_Name req))]) a1 of
             (Some e, a2) \<Rightarrow> (Inl e, a2)
           | (None, a2) \<Rightarrow> (Inr (tenant_response tenant), a2)))"

definition tenant_service_Delete :: "string \<Rightarrow> accounts \<Rightarrow> err option \<times> accounts" where
  "tenant_service_Delete i a = on_adb (tenant_Delete i) a"

end
