(* ===== verification/AI_Service.thy ===== *)
theory AI_Service imports Model begin

text \<open>
  The AI service, \<open>internal/services/ai_service.go\<close>: asking a language model for a workflow or for the analysis of a
  failure, and cutting the JSON text out of its answer.

  The client is a parameter: \<open>generate n prompt\<close> is what \<open>GenerateContent\<close> answers to the service's call number \<open>n\<close>, an
  error or the texts of the parts of each candidate. Parsing the JSON text (\<open>parse_json\<close>, \<open>None\<close> for bytes that are not
  JSON) is a parameter too. The number of calls made is threaded as the state.
\<close>

type_synonym genai = "nat \<Rightarrow> string \<Rightarrow> err + string list list"

subsection \<open>extractJSON\<close>

text \<open>One of the two loops: the block from the first opening bracket to the position where the count of brackets
  returns to zero. Both brackets are one-byte characters, so runes and bytes give the same positions.\<close>

fun scan_block :: "char \<Rightarrow> char \<Rightarrow> string \<Rightarrow> nat \<Rightarrow> nat option \<Rightarrow> int \<Rightarrow> (nat \<times> nat) option" where
  "scan_block opening closing [] i start braceCount = None"
| "scan_block opening closing (c # s) i None braceCount =
     (if c = opening then scan_block opening closing s (i + 1) (Some i) 1
      else scan_block opening closing s (i + 1) None braceCount)"
| "scan_block opening closing (c # s) i (Some start) braceCount =
     (let opened = (if c = opening then braceCount + 1 else braceCount) in
      if c = closing then
        (let closed = opened - 1 in
         if closed = 0 then Some (start, i + 1) else scan_block opening closing s (i + 1) (Some start) closed)
      else scan_block opening closing s (i + 1) (Some start) opened)"

definition slice :: "string \<Rightarrow> nat \<Rightarrow> nat \<Rightarrow> string" where
  "slice s start stop = take (stop - start) (drop start s)"

definition extractJSON :: "string \<Rightarrow> string" where
  "extractJSON s =
     (case scan_block (CHR ''['') (CHR '']'') s 0 None 0 of
        Some (start, stop) \<Rightarrow> slice s start stop
      | None \<Rightarrow>
          (case scan_block (CHR 0x7B) (CHR 0x7D) s 0 None 0 of
             Some (start, stop) \<Rightarrow> slice s start stop
           | None \<Rightarrow> s))"

subsection \<open>The calls\<close>

definition not_configured :: err where
  "not_configured = ErrorString ''AI service not configured: missing Gemini API key''"

definition empty_response :: err where
  "empty_response = ErrorString ''empty response from AI''"

text \<open>The text of the first part of the first candidate.\<close>

definition first_text :: "string list list \<Rightarrow> string option" where
  "first_text candidates = (case candidates of [] \<Rightarrow> None | [] # cs \<Rightarrow> None | (t # ts) # cs \<Rightarrow> Some t)"

fun generate_attempts :: "(string \<Rightarrow> json_text) \<Rightarrow> genai \<Rightarrow> string \<Rightarrow> nat \<Rightarrow> err option \<Rightarrow> nat \<Rightarrow>
    (err + StepDefinition list) \<times> nat" where
  "generate_attempts parse_json generate prompt 0 lastErr n =
     ((case lastErr of None \<Rightarrow> Inr [] | Some e \<Rightarrow> Inl e), n)"
| "generate_attempts parse_json generate prompt (Suc left) lastErr n =
     (case generate n prompt of
        Inl e \<Rightarrow> generate_attempts parse_json generate prompt left (Some e) (n + 1)
      | Inr candidates \<Rightarrow>
          (case first_text candidates of
             None \<Rightarrow> generate_attempts parse_json generate prompt left (Some empty_response) (n + 1)
           | Some result \<Rightarrow>
               (case unmarshal_steps (parse_json (extractJSON result)) of
                  Inl e \<Rightarrow> generate_attempts parse_json generate prompt left (Some e) (n + 1)
                | Inr steps \<Rightarrow> (Inr steps, n + 1))))"

text \<open>The system prompt. Its own example is not JSON: the body of the third step is an expression, \<open>"New user: " + input.name\<close>.\<close>

fun lines_of :: "string list \<Rightarrow> string" where
  "lines_of [] = []"
| "lines_of [l] = l"
| "lines_of (l # ls) = l @ [CHR 0x0A] @ lines_of ls"

definition dagSystemPrompt :: string where
  \<open>dagSystemPrompt = lines_of [
     ''You are a workflow automation expert. Convert the user's natural language description into a valid JSON array of workflow steps (DAG).'',
     '''',
     ''Each step must have:'',
     ''- id: unique identifier (e.g., "step_1")'',
     ''- action: one of HTTP, SCRIPT, DELAY, SWITCH, LOOP'',
     ''- parameters: action-specific parameters'',
     ''- depends_on: array of step IDs this step depends on'',
     ''- max_retries: number of retry attempts'',
     '''',
     ''Example output for "When new user signs up, send welcome email and notify Slack":'',
     ''['',
     ''  {'',
     ''    "id": "step_1",'',
     ''    "action": "HTTP",'',
     ''    "parameters": {"url": "https://api.example.com/users", "method": "GET"},'',
     ''    "depends_on": [],'',
     ''    "max_retries": 2'',
     ''  },'',
     ''  {'',
     ''    "id": "step_2",'',
     ''    "action": "SCRIPT",'',
     ''    "parameters": {"script": "return 'Welcome ' + input.name"},'',
     ''    "depends_on": ["step_1"],'',
     ''    "max_retries": 0'',
     ''  },'',
     ''  {'',
     ''    "id": "step_3",'',
     ''    "action": "HTTP",'',
     ''    "parameters": {"url": "https://slack.com/api/chat.postMessage", "method": "POST", "body": {"text": "New user: " + input.name}},'',
     ''    "depends_on": ["step_1"],'',
     ''    "max_retries": 3'',
     ''  }'',
     '']'',
     '''',
     ''Output only valid JSON array, no additional text.'']\<close>

definition GenerateDAGFromText :: "(string \<Rightarrow> json_text) \<Rightarrow> genai option \<Rightarrow> string \<Rightarrow> nat \<Rightarrow>
    (err + StepDefinition list) \<times> nat" where
  "GenerateDAGFromText parse_json client prompt n =
     (case client of
        None \<Rightarrow> (Inl not_configured, n)
      | Some generate \<Rightarrow>
          generate_attempts parse_json generate
            (dagSystemPrompt @ [CHR 0x0A, CHR 0x0A] @ ''User request: '' @ prompt) 3 None n)"

definition AnalyzeFailure :: "genai option \<Rightarrow> string \<Rightarrow> nat \<Rightarrow> (err + string) \<times> nat" where
  "AnalyzeFailure client errorLog n =
     (case client of
        None \<Rightarrow> (Inl not_configured, n)
      | Some generate \<Rightarrow>
          ((case generate n (''Analyze the following error and provide a plain-English explanation with actionable fix recommendations:''
               @ [CHR 0x0A, CHR 0x0A] @ errorLog) of
              Inl e \<Rightarrow> Inl e
            | Inr candidates \<Rightarrow> (case first_text candidates of None \<Rightarrow> Inl empty_response | Some t \<Rightarrow> Inr t)), n + 1))"

subsection \<open>The block that is cut out\<close>

text \<open>The depth of a text: opening brackets less closing ones. A block is a text that starts at depth 0 with an opening
  bracket and reaches depth 0 again exactly at its end.\<close>

definition depth :: "char \<Rightarrow> char \<Rightarrow> string \<Rightarrow> int" where
  "depth opening closing s = int (count_list s opening) - int (count_list s closing)"

definition is_block :: "char \<Rightarrow> char \<Rightarrow> string \<Rightarrow> bool" where
  "is_block opening closing b \<longleftrightarrow> b \<noteq> [] \<and> hd b = opening \<and> depth opening closing b = 0 \<and>
     (\<forall>n. 0 < n \<and> n < length b \<longrightarrow> 0 < depth opening closing (take n b))"

lemma depth_simps [simp]:
  "depth p q [] = 0"
  "p \<noteq> q \<Longrightarrow> depth p q (c # s) = (if c = p then 1 else if c = q then - 1 else 0) + depth p q s"
  "depth p q (xs @ ys) = depth p q xs + depth p q ys"
  by (auto simp: depth_def)

lemma scan_open:
  assumes "p \<noteq> q" "0 < d" "d + depth p q b = 0" "\<And>n. n < length b \<Longrightarrow> 0 < d + depth p q (take n b)" "b \<noteq> []"
  shows "scan_block p q (b @ rest) i (Some st) d = Some (st, i + length b)"
  using assms(2-)
proof (induction b arbitrary: i d)
  case (Cons c b)
  have first: "b \<noteq> [] \<Longrightarrow> 0 < d + (if c = p then 1 else if c = q then - 1 else 0)"
    using Cons.prems(3) [of 1] assms(1) by (cases b) auto
  have later: "0 < d + (if c = p then 1 else if c = q then - 1 else 0) + depth p q (take n b)" if "n < length b" for n
    using Cons.prems(3) [of "Suc n"] that assms(1) by (simp add: algebra_simps)
  show ?case
  proof (cases "b = []")
    case True
    with Cons.prems assms(1) show ?thesis by (auto split: if_splits)
  next
    case False
    with Cons.IH [of "d + (if c = p then 1 else if c = q then - 1 else 0)" "Suc i"] first later Cons.prems(2) assms(1)
    show ?thesis by (auto simp: algebra_simps)
  qed
qed simp

lemma scan_before:
  assumes "p \<notin> set pre"
  shows "scan_block p q (pre @ s) i None d = scan_block p q s (i + length pre) None d"
  using assms by (induction pre arbitrary: i) auto

lemma scan_finds:
  assumes "p \<noteq> q" "p \<notin> set pre" "is_block p q b"
  shows "scan_block p q (pre @ b @ rest) i None d = Some (i + length pre, i + length pre + length b)"
proof -
  obtain b' where b: "b = p # b'" using assms(3) by (cases b) (auto simp: is_block_def)
  have z: "1 + depth p q b' = 0" using assms(1,3) by (simp add: is_block_def b)
  moreover have "0 < 1 + depth p q (take n b')" if "n < length b'" for n
  proof -
    have "0 < depth p q (take (Suc n) b)" using assms(3) that unfolding is_block_def by (auto simp: b)
    with assms(1) show ?thesis by (simp add: b)
  qed
  moreover have "b' \<noteq> []" using z by auto
  ultimately have "scan_block p q (b' @ rest) (i + length pre + 1) (Some (i + length pre)) 1
      = Some (i + length pre, i + length pre + 1 + length b')"
    by (intro scan_open [OF assms(1)]) auto
  with assms(2) show ?thesis by (simp add: scan_before b)
qed

text \<open>A loop that finds nothing: the text has no opening bracket, or what follows the first one never closes it.\<close>

lemma scan_none: "p \<notin> set s \<Longrightarrow> scan_block p q s i None d = None"
  using scan_before [of p s q "[]"] by simp

lemma slice_middle: "slice (pre @ b @ rest) (length pre) (length pre + length b) = b"
  by (simp add: slice_def)

text \<open>Text around the JSON does no harm: from an answer whose first opening square bracket starts a block of balanced
  brackets, exactly that block is cut out, whatever stands before it (without such brackets) and after it; an
  answer with no square bracket is treated the same way for braces; an answer with neither is passed on whole.
  Brackets inside JSON strings count, so this is balance of the text, not of the JSON.\<close>

lemma extract_json_block:
  assumes "CHR ''['' \<notin> set pre"
  shows "(is_block (CHR ''['') (CHR '']'') b \<longrightarrow> extractJSON (pre @ b @ rest) = b) \<and>
    (CHR ''['' \<notin> set (b @ rest) \<longrightarrow> CHR 0x7B \<notin> set pre \<longrightarrow> is_block (CHR 0x7B) (CHR 0x7D) b \<longrightarrow>
      extractJSON (pre @ b @ rest) = b) \<and>
    (CHR 0x7B \<notin> set pre \<longrightarrow> extractJSON pre = pre)"
proof (intro conjI impI)
  show "extractJSON (pre @ b @ rest) = b" if "is_block (CHR ''['') (CHR '']'') b"
    using scan_finds [OF _ assms that, of rest 0 0] by (simp add: extractJSON_def slice_middle)
  show "extractJSON (pre @ b @ rest) = b" if "CHR ''['' \<notin> set (b @ rest)" "CHR 0x7B \<notin> set pre"
    "is_block (CHR 0x7B) (CHR 0x7D) b"
  proof -
    have "scan_block (CHR ''['') (CHR '']'') (pre @ b @ rest) 0 None 0 = None"
      by (rule scan_none) (use assms that(1) in auto)
    with scan_finds [OF _ that(2,3), of rest 0 0] show ?thesis by (simp add: extractJSON_def slice_middle)
  qed
  show "extractJSON pre = pre" if "CHR 0x7B \<notin> set pre" using that assms by (simp add: extractJSON_def scan_none)
qed

end
