(* ===== verification/Handlers.thy ===== *)
theory Handlers imports User_Service Execution_Service AI_Service begin

text \<open>
  The HTTP handlers of \<open>internal/handler\<close> (auth, user, tenant, workflow, execution, AI): what they take from the request
  context, the path and the body, the service they call, and the answer they write (\<open>pkg/response/http.go\<close> and
  \<open>errorx.MapError\<close>).

  A body is what \<open>json.Decode\<close> makes of it, \<open>None\<close> when it does not decode. Fields that JSON cannot set (\<open>json:"-"\<close>) are
  set by the handler. An answer carries the status, the message and the data; the JSON encoding of it is the library's.
\<close>

datatype 'a answer = Success nat string "'a option" | Failure HTTPError | Panic

definition HttpNewError :: "nat \<Rightarrow> string \<Rightarrow> 'a answer" where
  "HttpNewError code message = Failure \<lparr>h_Code = code, h_Message = message, h_Fields = []\<rparr>"

definition write_error :: "err \<Rightarrow> 'a answer" where
  "write_error e = (case MapError (Some e) of Some h \<Rightarrow> Failure h | None \<Rightarrow> Panic)"

definition SuccessWithData :: "nat \<Rightarrow> string \<Rightarrow> (err + 'a) \<times> 's \<Rightarrow> 'a answer \<times> 's" where
  "SuccessWithData code message r =
     (case r of (Inl e, s) \<Rightarrow> (write_error e, s) | (Inr x, s) \<Rightarrow> (Success code message (Some x), s))"

definition SuccessMessage :: "nat \<Rightarrow> string \<Rightarrow> err option \<times> 's \<Rightarrow> unit answer \<times> 's" where
  "SuccessMessage code message r =
     (case r of (Some e, s) \<Rightarrow> (write_error e, s) | (None, s) \<Rightarrow> (Success code message None, s))"

definition no_value :: "(err + unit) \<times> 's \<Rightarrow> err option \<times> 's" where
  "no_value r = (case r of (Inl e, s) \<Rightarrow> (Some e, s) | (Inr _, s) \<Rightarrow> (None, s))"

text \<open>The guards the handlers begin with.\<close>

definition required :: "string option \<Rightarrow> (string \<Rightarrow> 's \<Rightarrow> 'a answer \<times> 's) \<Rightarrow> 's \<Rightarrow> 'a answer \<times> 's" where
  "required v k s = (if GetContext v = '''' then (HttpNewError 401 ''invalid request'', s) else k (GetContext v) s)"

definition decoded :: "'r option \<Rightarrow> ('r \<Rightarrow> 's \<Rightarrow> 'a answer \<times> 's) \<Rightarrow> 's \<Rightarrow> 'a answer \<times> 's" where
  "decoded body k s = (case body of None \<Rightarrow> (HttpNewError 400 ''invalid request body'', s) | Some req \<Rightarrow> k req s)"

text \<open>\<open>r.Context().Value(key).(string)\<close> without \<open>ok\<close>, then the test for the empty string.\<close>

definition asserted :: "string option \<Rightarrow> (string \<Rightarrow> 's \<Rightarrow> 'a answer \<times> 's) \<Rightarrow> 's \<Rightarrow> 'a answer \<times> 's" where
  "asserted v k s =
     (case v of None \<Rightarrow> (Panic, s)
      | Some x \<Rightarrow> if x = '''' then (HttpNewError 403 ''access denied'', s) else k x s)"

subsection \<open>auth.go\<close>

definition handle_Login :: "crypto \<Rightarrow> cfg \<Rightarrow> (string \<times> string) option \<Rightarrow> accounts \<Rightarrow> (string \<times> string) answer \<times> accounts" where
  "handle_Login cr conf body =
     decoded body (\<lambda>(email, password) a. SuccessWithData 200 ''login success'' (Login cr conf email password a))"

definition handle_Refresh :: "crypto \<Rightarrow> cfg \<Rightarrow> ctx \<Rightarrow> accounts \<Rightarrow> string answer \<times> accounts" where
  "handle_Refresh cr conf cx =
     required (RefUuidKey cx) (\<lambda>refUuid. required (UserKey cx) (\<lambda>userID. required (RoleKey cx) (\<lambda>role.
       required (TenantKey cx) (\<lambda>tenantID a.
         SuccessWithData 200 ''refresh success'' (Refresh cr conf refUuid userID role tenantID a)))))"

definition handle_Logout :: "cfg \<Rightarrow> ctx \<Rightarrow> accounts \<Rightarrow> unit answer \<times> accounts" where
  "handle_Logout conf cx =
     required (RefUuidKey cx) (\<lambda>refUuid. required (AccUuidKey cx) (\<lambda>accUuid a.
       SuccessMessage 200 ''logout success'' (Logout conf accUuid refUuid a)))"

subsection \<open>user.go\<close>

definition handle_user_Create :: "crypto \<Rightarrow> ctx \<Rightarrow> UserRequest option \<Rightarrow> accounts \<Rightarrow> UserResponse answer \<times> accounts" where
  "handle_user_Create cr cx body =
     decoded body (\<lambda>req a. SuccessWithData 201 ''success'' (user_service_Create cr cx req a))"

definition handle_user_Get :: "ctx \<Rightarrow> string \<Rightarrow> accounts \<Rightarrow> UserResponse answer \<times> accounts" where
  "handle_user_Get cx i a = SuccessWithData 200 ''success'' (user_service_Get cx i a)"

text \<open>The page token of the answer is dropped.\<close>

definition handle_user_List :: "ctx \<Rightarrow> UserListRequest option \<Rightarrow> accounts \<Rightarrow> (UserResponse list \<times> nat) answer \<times> accounts" where
  "handle_user_List cx body =
     asserted (RoleKey cx) (\<lambda>role. asserted (TenantKey cx) (\<lambda>tenant. decoded body (\<lambda>req a.
       (let size = (if ul_PageSize req = 0 then 20 else ul_PageSize req) in
        if 100 < size then (HttpNewError 400 ''max page size is 100'', a)
        else SuccessWithData 200 ''success''
          (case user_service_List cx (req\<lparr>ul_Role := role, ul_PageSize := size\<rparr>) a of
             (Inl e, a1) \<Rightarrow> (Inl e, a1)
           | (Inr (us, found, token), a1) \<Rightarrow> (Inr (us, found), a1))))))"

text \<open>\<open>Update\<close> fills the request with the tenant and the role of the caller; the body gives the user id, the email and
  the password, which the service does not use.\<close>

definition handle_user_Update :: "ctx \<Rightarrow> (string \<times> string \<times> string) option \<Rightarrow> accounts \<Rightarrow> UserResponse answer \<times> accounts" where
  "handle_user_Update cx body =
     asserted (RoleKey cx) (\<lambda>role. asserted (TenantKey cx) (\<lambda>tenant. decoded body (\<lambda>(userID, email, password) a.
       SuccessWithData 200 ''success'' (user_service_Update cx
         \<lparr>uu_UserID = userID, uu_TenantID = tenant, uu_Email = email, uu_Password = password, uu_Role = role\<rparr> a))))"

definition handle_user_Delete :: "ctx \<Rightarrow> string \<Rightarrow> accounts \<Rightarrow> unit answer \<times> accounts" where
  "handle_user_Delete cx i a = SuccessMessage 200 ''success'' (user_service_Delete cx i a)"

subsection \<open>tenant.go\<close>

definition handle_tenant_Create :: "TenantRequest option \<Rightarrow> accounts \<Rightarrow> TenantResponse answer \<times> accounts" where
  "handle_tenant_Create body = decoded body (\<lambda>req a. SuccessWithData 201 ''success'' (tenant_service_Create req a))"

definition handle_tenant_Get :: "string \<Rightarrow> accounts \<Rightarrow> TenantResponse answer \<times> accounts" where
  "handle_tenant_Get i a = SuccessWithData 200 ''success'' (tenant_service_Get i a)"

definition handle_tenant_List :: "accounts \<Rightarrow> (TenantResponse list \<times> nat) answer \<times> accounts" where
  "handle_tenant_List a = SuccessWithData 200 ''success''
     (case tenant_service_List 50 '''' '''' a of
        (Inl e, a1) \<Rightarrow> (Inl e, a1)
      | (Inr (ts, found, token), a1) \<Rightarrow> (Inr (ts, found), a1))"

definition handle_tenant_Update :: "TenantRequest option \<Rightarrow> accounts \<Rightarrow> TenantResponse answer \<times> accounts" where
  "handle_tenant_Update body = decoded body (\<lambda>req a. SuccessWithData 200 ''success'' (tenant_service_Update req a))"

definition handle_tenant_Delete :: "string \<Rightarrow> accounts \<Rightarrow> unit answer \<times> accounts" where
  "handle_tenant_Delete i a = SuccessMessage 200 ''success'' (tenant_service_Delete i a)"

subsection \<open>workflow.go\<close>

definition handle_workflow_Create :: "(string list \<Rightarrow> string list) \<Rightarrow> ctx \<Rightarrow> WorkflowRequest option \<Rightarrow> svc \<Rightarrow>
    WorkflowResponse answer \<times> svc" where
  "handle_workflow_Create ro cx body =
     required (TenantKey cx) (\<lambda>tenantID. decoded body (\<lambda>req s.
       SuccessWithData 201 ''success'' (workflow_Create ro tenantID req s)))"

definition handle_workflow_Get :: "ctx \<Rightarrow> string \<Rightarrow> svc \<Rightarrow> WorkflowResponse answer \<times> svc" where
  "handle_workflow_Get cx i =
     required (TenantKey cx) (\<lambda>tenantID s. SuccessWithData 200 ''success'' (workflow_Get tenantID i s))"

definition handle_workflow_List :: "ctx \<Rightarrow> svc \<Rightarrow> (WorkflowResponse list \<times> nat) answer \<times> svc" where
  "handle_workflow_List cx =
     required (TenantKey cx) (\<lambda>tenantID s. SuccessWithData 200 ''success''
       (case workflow_List 0 '''' tenantID '''' s of
          (Inl e, s1) \<Rightarrow> (Inl e, s1)
        | (Inr (ws, found, token), s1) \<Rightarrow> (Inr (ws, found), s1)))"

definition handle_workflow_Trigger :: "ctx \<Rightarrow> string \<Rightarrow> svc \<Rightarrow> Execution answer \<times> svc" where
  "handle_workflow_Trigger cx i =
     required (TenantKey cx) (\<lambda>tenantID s.
       SuccessWithData 202 ''triggered'' (workflow_Trigger (GetContext (TenantKey cx)) tenantID i ''MANUAL'' s))"

text \<open>\<open>Update\<close> and \<open>Rollback\<close> take the tenant from the body, unlike the others.\<close>

definition handle_workflow_Update :: "(string list \<Rightarrow> string list) \<Rightarrow> ctx \<Rightarrow> WorkflowRequest option \<Rightarrow> svc \<Rightarrow>
    unit answer \<times> svc" where
  "handle_workflow_Update ro cx body =
     decoded body (\<lambda>req s.
       SuccessMessage 200 ''success'' (no_value (workflow_Update ro (GetContext (TenantKey cx)) req s)))"

definition handle_workflow_Delete :: "ctx \<Rightarrow> string \<Rightarrow> svc \<Rightarrow> unit answer \<times> svc" where
  "handle_workflow_Delete cx name =
     required (TenantKey cx) (\<lambda>tenantID s. SuccessMessage 200 ''success'' (workflow_Delete tenantID name s))"

definition handle_workflow_Rollback :: "ctx \<Rightarrow> WorkflowRollbackRequest option \<Rightarrow> svc \<Rightarrow> unit answer \<times> svc" where
  "handle_workflow_Rollback cx body =
     decoded body (\<lambda>req s.
       SuccessMessage 200 ''success'' (no_value (workflow_Rollback (GetContext (TenantKey cx)) req s)))"

definition handle_workflow_ListVersions :: "ctx \<Rightarrow> string \<Rightarrow> svc \<Rightarrow> WorkflowVersion list answer \<times> svc" where
  "handle_workflow_ListVersions cx name =
     required (TenantKey cx) (\<lambda>tenantID s. SuccessWithData 200 ''success'' (workflow_ListVersions tenantID name s))"

subsection \<open>execution.go\<close>

definition handle_execution_Get :: "ctx \<Rightarrow> string \<Rightarrow> svc \<Rightarrow> ExecutionResponse answer \<times> svc" where
  "handle_execution_Get cx i =
     required (TenantKey cx) (\<lambda>tenantID s. SuccessWithData 200 ''success'' (execution_Get tenantID i s))"

definition handle_execution_List :: "ctx \<Rightarrow> svc \<Rightarrow> (ExecutionResponse list \<times> nat) answer \<times> svc" where
  "handle_execution_List cx =
     required (TenantKey cx) (\<lambda>tenantID s. SuccessWithData 200 ''success''
       (case execution_List \<lparr>le_TenantID = tenantID, le_WorkflowID = '''', le_Status = '''', le_TriggerType = '''',
          le_PageSize = 0, le_PageToken = ''''\<rparr> s of
          (Inl e, s1) \<Rightarrow> (Inl e, s1)
        | (Inr (es, found, token), s1) \<Rightarrow> (Inr (es, found), s1)))"

definition handle_execution_Retry :: "bool \<Rightarrow> ctx \<Rightarrow> string \<Rightarrow> svc \<Rightarrow> unit answer \<times> svc" where
  "handle_execution_Retry has_cache cx i =
     required (TenantKey cx) (\<lambda>tenantID s. SuccessMessage 200 ''retry triggered''
       (no_value (execution_Retry has_cache (GetContext (TenantKey cx)) tenantID i s)))"

definition handle_execution_Cancel :: "ctx \<Rightarrow> string \<Rightarrow> svc \<Rightarrow> unit answer \<times> svc" where
  "handle_execution_Cancel cx i =
     required (TenantKey cx) (\<lambda>tenantID s. SuccessMessage 200 ''execution cancelled'' (execution_Cancel tenantID i s))"

subsection \<open>ai.go\<close>

definition handle_GenerateDAG :: "(string \<Rightarrow> json_text) \<Rightarrow> genai option \<Rightarrow> string option \<Rightarrow> nat \<Rightarrow>
    StepDefinition list answer \<times> nat" where
  "handle_GenerateDAG parse_json client body =
     decoded body (\<lambda>prompt n. SuccessWithData 200 ''success'' (GenerateDAGFromText parse_json client prompt n))"

definition handle_AnalyzeFailure :: "genai option \<Rightarrow> string option \<Rightarrow> nat \<Rightarrow> string answer \<times> nat" where
  "handle_AnalyzeFailure client body =
     decoded body (\<lambda>errorLog n. SuccessWithData 200 ''success'' (AnalyzeFailure client errorLog n))"

end
