(* ===== verification/Router.thy ===== *)
theory Router imports Account_Service begin

text \<open>
  The way of a request to its handler, \<open>internal/handler/router.go\<close> and \<open>internal/handler/middleware.go\<close>: the rate
  limiter, the input sanitizer, the check of the bearer token and the check of the role, in the order \<open>NewRouter\<close>
  installs them. A middleware refuses with a status and a message, passes the request on, or panics, which
  \<open>middleware.Recoverer\<close> turns into a 500. The CORS and logging middleware of the libraries are left out.

  \<open>rq_url\<close> is \<open>r.URL.String()\<close>, query included. \<open>lower\<close> is \<open>bytes.ToLower\<close>; \<open>strings.TrimSpace\<close> is taken on ASCII.
\<close>

record request =
  rq_method :: string
  rq_url :: string
  rq_authorization :: string
  rq_forwarded :: string
  rq_remote :: string
  rq_body :: "err + string"

datatype 'a verdict = Refused nat string | Panicked | Passed 'a

definition no_ctx :: ctx where
  "no_ctx = \<lparr>RoleKey = None, UserKey = None, TenantKey = None, RefUuidKey = None, AccUuidKey = None\<rparr>"

subsection \<open>Rate limiter and sanitizer\<close>

definition ascii_space :: "char \<Rightarrow> bool" where
  "ascii_space c \<longleftrightarrow> c \<in> {CHR '' '', CHR 0x09, CHR 0x0A, CHR 0x0B, CHR 0x0C, CHR 0x0D}"

definition trim_space :: "string \<Rightarrow> string" where
  "trim_space s = rev (dropWhile ascii_space (rev (dropWhile ascii_space s)))"

text \<open>What precedes the last colon, if there is one.\<close>

definition without_port :: "string \<Rightarrow> string" where
  "without_port s = (if CHR '':'' \<in> set s then rev (tl (dropWhile (\<lambda>c. c \<noteq> CHR '':'') (rev s))) else s)"

definition client_ip :: "request \<Rightarrow> string" where
  "client_ip r =
     (if rq_forwarded r = '''' then without_port (rq_remote r)
      else trim_space (hd (split_at (CHR '','') (rq_forwarded r))))"

definition scope_key :: "ctx \<Rightarrow> request \<Rightarrow> string" where
  "scope_key cx r =
     (let tenantID = GetContext (TenantKey cx) in
      if tenantID \<noteq> '''' then ''rate_limit:tenant:'' @ tenantID else ''rate_limit:ip:'' @ client_ip r)"

definition RateLimiter :: "int \<Rightarrow> int \<Rightarrow> int \<Rightarrow> int \<Rightarrow> ctx \<Rightarrow> request \<Rightarrow> redis \<Rightarrow> ctx verdict \<times> redis" where
  "RateLimiter tenantLimit tenantRate globalLimit globalRate cx r c =
     (case cache_Allow ''rate_limit:global'' globalLimit globalRate c of (g, c1) \<Rightarrow>
        (if g = Inr False then (Refused 429 ''Global rate limit exceeded'', c1)
         else case cache_Allow (scope_key cx r) tenantLimit tenantRate c1 of (s, c2) \<Rightarrow>
           (if s = Inr False then (Refused 429 ''Rate limit exceeded'', c2) else (Passed cx, c2))))"

definition InputSanitizer :: "(string \<Rightarrow> string) \<Rightarrow> ctx \<Rightarrow> request \<Rightarrow> ctx verdict" where
  "InputSanitizer lower cx r =
     (if rq_method r = ''POST'' \<or> rq_method r = ''PUT'' then
        (case rq_body r of
           Inl e \<Rightarrow> Refused 500 ''Error reading request body''
         | Inr body \<Rightarrow>
             (if str_contains (lower body) ''<script'' then Refused 400 ''Malicious input detected'' else Passed cx))
      else Passed cx)"

subsection \<open>The bearer token\<close>

definition is_refresh :: "request \<Rightarrow> bool" where
  "is_refresh r = str_contains (rq_url r) ''refresh''"

definition auth_header :: "request \<Rightarrow> string verdict" where
  "auth_header r =
     (if rq_authorization r = '''' then Refused 401 ''missing authorization header''
      else let parts = split_at (CHR '' '') (rq_authorization r) in
        if length parts \<noteq> 2 \<or> parts ! 0 \<noteq> ''Bearer'' then Refused 401 ''invalid authorization header format''
        else Passed (parts ! 1))"

text \<open>\<open>cache.Get\<close> gives the empty string with every error, so the second test of the code never decides.\<close>

definition get_value :: "(err + cached) \<Rightarrow> string" where
  "get_value v = (case v of Inl e \<Rightarrow> '''' | Inr x \<Rightarrow> cached_text x)"

text \<open>\<open>claims[k].(string)\<close> with and without the \<open>ok\<close> result.\<close>

definition claim_string :: "gomap \<Rightarrow> string \<Rightarrow> string option" where
  "claim_string claims k = as_string (gm_get claims k)"

definition authMiddleware :: "crypto \<Rightarrow> cfg \<Rightarrow> ctx \<Rightarrow> request \<Rightarrow> redis \<Rightarrow> ctx verdict \<times> redis" where
  "authMiddleware cr conf cx r c =
     (case auth_header r of
        Refused n m \<Rightarrow> (Refused n m, c)
      | Panicked \<Rightarrow> (Panicked, c)
      | Passed token \<Rightarrow>
          (let secretKey = (if is_refresh r then RefreshTokenKey conf else AccessTokenKey conf) in
           case TokenValid cr token secretKey (unix c) of
             Inl e \<Rightarrow> (Refused 401 ''invalid token'', c)
           | Inr claims \<Rightarrow>
               (case claim_string claims ''jti'' of
                  None \<Rightarrow> (Refused 401 ''invalid token'', c)
                | Some jti \<Rightarrow>
                    (case cache_Get (if is_refresh r then RefKey jti else BlacklistKey jti) c of (val, c1) \<Rightarrow>
                       (if get_value val = '''' then (Refused 401 ''token has been revoked'', c1)
                        else if isl val \<and> val \<noteq> Inl ErrCacheMiss then (Refused 401 ''internal auth error'', c1)
                        else
                          (case (if is_refresh r then Some (jti, '''')
                                 else map_option (\<lambda>u. (u, jti)) (claim_string claims ''ref_uuid'')) of
                             None \<Rightarrow> (Panicked, c1)
                           | Some (refUuid, accUuid) \<Rightarrow>
                               (case (claim_string claims ''user_id'', claim_string claims ''tenant_id'',
                                      claim_string claims ''role'') of
                                  (Some userID, Some tenantID, Some role) \<Rightarrow>
                                    (Passed (cx\<lparr>UserKey := Some userID, TenantKey := Some tenantID,
                                       RoleKey := Some role, AccUuidKey := Some accUuid, RefUuidKey := Some refUuid\<rparr>), c1)
                                | _ \<Rightarrow> (Panicked, c1))))))))"

definition RBACMiddleware :: "string list \<Rightarrow> ctx \<Rightarrow> ctx verdict" where
  "RBACMiddleware requiredRoles cx =
     (if GetContext (RoleKey cx) \<in> set requiredRoles then Passed cx else Refused 403 ''Forbidden'')"

subsection \<open>Routes\<close>

text \<open>A route: method, pattern, handler, whether the token is checked, and the roles it is limited to.\<close>

record route =
  rt_method :: string
  rt_pattern :: string
  rt_auth :: bool
  rt_roles :: "string list option"

definition group_routes :: "string list option \<Rightarrow> (string \<times> string) list \<Rightarrow> route list" where
  "group_routes roles = map (\<lambda>(m, p). \<lparr>rt_method = m, rt_pattern = p, rt_auth = True, rt_roles = roles\<rparr>)"

definition routes :: "route list" where
  "routes =
     \<lparr>rt_method = ''POST'', rt_pattern = ''/api/v1/auth/login'', rt_auth = False, rt_roles = None\<rparr>
     # group_routes None
         [(''GET'', ''/api/v1/auth/refresh''), (''GET'', ''/api/v1/auth/logout''), (''GET'', ''/api/v1/monitor/stream'')]
     @ group_routes (Some [''admin'', ''editor''])
         [(''POST'', ''/api/v1/workflows/''), (''PUT'', ''/api/v1/workflows/{id}''), (''DELETE'', ''/api/v1/workflows/{name}''),
          (''POST'', ''/api/v1/workflows/{id}/trigger''), (''POST'', ''/api/v1/workflows/{id}/rollback'')]
     @ group_routes None
         [(''GET'', ''/api/v1/workflows/''), (''GET'', ''/api/v1/workflows/{id}''), (''GET'', ''/api/v1/workflows/{name}/versions'')]
     @ group_routes (Some [''admin'', ''editor''])
         [(''POST'', ''/api/v1/executions/{id}/retry''), (''POST'', ''/api/v1/executions/{id}/cancel'')]
     @ group_routes None [(''GET'', ''/api/v1/executions/''), (''GET'', ''/api/v1/executions/{id}'')]
     @ group_routes (Some [''admin'', ''editor'']) [(''POST'', ''/api/v1/ai/generate''), (''POST'', ''/api/v1/ai/analyze'')]
     @ group_routes (Some [''admin''])
         [(''POST'', ''/api/v1/tenants/''), (''GET'', ''/api/v1/tenants/''), (''GET'', ''/api/v1/tenants/{id}''),
          (''PUT'', ''/api/v1/tenants/{id}''), (''DELETE'', ''/api/v1/tenants/{id}''),
          (''POST'', ''/api/v1/users/''), (''GET'', ''/api/v1/users/''), (''GET'', ''/api/v1/users/{id}''),
          (''PUT'', ''/api/v1/users/{id}''), (''DELETE'', ''/api/v1/users/{id}'')]"

text \<open>The middleware chain in front of the handler of a route; what passes is the handler's context.\<close>

definition admit :: "crypto \<Rightarrow> cfg \<Rightarrow> (string \<Rightarrow> string) \<Rightarrow> route \<Rightarrow> request \<Rightarrow> redis \<Rightarrow> ctx verdict \<times> redis" where
  "admit cr conf lower rt r c =
     (case RateLimiter 50 50 1000 1000 no_ctx r c of
        (Passed cx, c1) \<Rightarrow>
          (case InputSanitizer lower cx r of
             Passed cx' \<Rightarrow>
               (if rt_auth rt then
                  (case authMiddleware cr conf cx' r c1 of
                     (Passed cx'', c2) \<Rightarrow>
                       ((case rt_roles rt of None \<Rightarrow> Passed cx'' | Some roles \<Rightarrow> RBACMiddleware roles cx''), c2)
                   | v \<Rightarrow> v)
                else (Passed cx', c1))
           | v \<Rightarrow> (v, c1))
      | v \<Rightarrow> v)"

end
