(* ===== verification/Router_Properties.thy ===== *)
theory Router_Properties imports Router Examples begin

text \<open>
  Properties of the way of a request to its handler and of sessions: what is known of a caller whose request
  reaches a handler, what a login is good for, and what a logout ends.
\<close>

subsection \<open>The cache as the middleware sees it\<close>

lemma cache_Get_result:
  assumes "cache_Get k c = (r, c')"
  shows "c' = c\<lparr>failures := tl (failures c)\<rparr> \<and> (\<forall>v. r = Inr v \<longrightarrow> live c k = Some v) \<and>
    (failures c = [] \<longrightarrow> r = (case live c k of None \<Rightarrow> Inl ErrCacheMiss | Some v \<Rightarrow> Inr v))"
proof -
  obtain q where q: "command (\<lambda>c. (live c k, c)) c = (q, c')"
    using assms by (auto simp: cache_Get_def split: prod.splits sum.splits option.splits)
  from q show ?thesis
  proof (cases rule: command_cases)
    case (fails e)
    with assms q show ?thesis by (auto simp: cache_Get_def command_def Let_def)
  next
    case (works x)
    with assms q show ?thesis by (auto simp: cache_Get_def split: option.splits)
  qed
qed

lemma cache_Set_ok:
  "cache_Set k v ttl c = (None, c') \<Longrightarrow> live c' k' = (if k' = k then (if ttl < 0 then None else Some v) else live c k')"
  by (auto simp: cache_Set_def failed_def live_put_entry split: sum.splits prod.splits if_splits elim!: command_cases)

lemma cache_Delete_ok: "cache_Delete ks c = (None, c') \<Longrightarrow> live c' k = (if k \<in> set ks then None else live c k)"
  by (auto simp: cache_Delete_def failed_def live_remove_keys split: sum.splits prod.splits if_splits elim!: command_cases)

lemma cache_Set_time: "cache_Set k v ttl c = (r, c') \<Longrightarrow> now_ns c' = now_ns c"
  by (auto simp: cache_Set_def failed_def put_entry_def split: sum.splits prod.splits elim!: command_cases)

lemma cache_Delete_time: "cache_Delete ks c = (r, c') \<Longrightarrow> now_ns c' = now_ns c"
  by (auto simp: cache_Delete_def failed_def remove_keys_def split: sum.splits prod.splits if_splits elim!: command_cases)

lemma cache_failures:
  "cache_Set k v ttl c = (r, c') \<Longrightarrow> failures c' = tl (failures c)"
  "ks \<noteq> [] \<Longrightarrow> cache_Delete ks c = (r, c') \<Longrightarrow> failures c' = tl (failures c)"
  by (auto simp: cache_Set_def cache_Delete_def failed_def put_entry_def remove_keys_def
      split: sum.splits prod.splits elim!: command_cases)

lemma Allow_time: "cache_Allow k l ra c = (r, c') \<Longrightarrow> now_ns c' = now_ns c \<and> entries c' = entries c"
  by (auto simp: cache_Allow_def rateLimitScript_def Let_def split: sum.splits prod.splits elim!: command_cases)

lemma live_cong: "entries c' = entries c \<Longrightarrow> now_ns c' = now_ns c \<Longrightarrow> live c' = live c"
  by (auto simp: live_def fun_eq_iff split: option.split)

subsection \<open>The header and the chain\<close>

lemma auth_header_iff:
  "auth_header r = Passed t \<longleftrightarrow> rq_authorization r = ''Bearer '' @ t \<and> CHR '' '' \<notin> set t"
proof
  assume "auth_header r = Passed t"
  then have p: "length (split_at (CHR '' '') (rq_authorization r)) = 2" "split_at (CHR '' '') (rq_authorization r) ! 0 = ''Bearer''"
    "t = split_at (CHR '' '') (rq_authorization r) ! 1"
    by (auto simp: auth_header_def Let_def split: if_splits)
  then have s: "split_at (CHR '' '') (rq_authorization r) = [''Bearer'', t]" by (auto simp: length_Suc_conv numeral_2_eq_2)
  then have "CHR '' '' \<notin> set t" using split_at_parts [of t "CHR '' ''" "rq_authorization r"] by simp
  moreover have "rq_authorization r = ''Bearer '' @ t" using split_at_join [of "CHR '' ''" "rq_authorization r"] s by simp
  ultimately show "rq_authorization r = ''Bearer '' @ t \<and> CHR '' '' \<notin> set t" by blast
next
  assume a: "rq_authorization r = ''Bearer '' @ t \<and> CHR '' '' \<notin> set t"
  have "split_at (CHR '' '') (''Bearer'' @ CHR '' '' # t) = [''Bearer'', t]"
    using a split_at_no_sep [of "CHR '' ''" t] by (subst split_at_append_sep) auto
  with a show "auth_header r = Passed t" by (simp add: auth_header_def)
qed

definition token_key :: "cfg \<Rightarrow> request \<Rightarrow> string" where
  "token_key conf r = (if is_refresh r then RefreshTokenKey conf else AccessTokenKey conf)"

definition session_key :: "request \<Rightarrow> string \<Rightarrow> string" where
  "session_key r jti = (if is_refresh r then RefKey jti else BlacklistKey jti)"

lemma authMiddleware_result:
  assumes h: "rq_authorization r = ''Bearer '' @ t" "CHR '' '' \<notin> set t"
    and cl: "TokenValid cr t (token_key conf r) (unix c) = Inr claims" "claim_string claims ''jti'' = Some jti"
    and f: "failures c = []"
  shows "fst (authMiddleware cr conf cx r c) =
    (case live c (session_key r jti) of
       None \<Rightarrow> Refused 401 ''token has been revoked''
     | Some v \<Rightarrow>
         (if cached_text v = '''' then Refused 401 ''token has been revoked''
          else case (if is_refresh r then Some (jti, '''') else map_option (\<lambda>u. (u, jti)) (claim_string claims ''ref_uuid'')) of
            None \<Rightarrow> Panicked
          | Some (refUuid, accUuid) \<Rightarrow>
              (case (claim_string claims ''user_id'', claim_string claims ''tenant_id'', claim_string claims ''role'') of
                 (Some userID, Some tenantID, Some role) \<Rightarrow>
                   Passed (cx\<lparr>UserKey := Some userID, TenantKey := Some tenantID, RoleKey := Some role,
                     AccUuidKey := Some accUuid, RefUuidKey := Some refUuid\<rparr>)
               | _ \<Rightarrow> Panicked)))"
proof -
  have a: "auth_header r = Passed t" using h by (simp add: auth_header_iff)
  obtain v c1 where v: "cache_Get (session_key r jti) c = (v, c1)" by fastforce
  with f cache_Get_result [OF v] have v': "v = (case live c (session_key r jti) of None \<Rightarrow> Inl ErrCacheMiss | Some v \<Rightarrow> Inr v)"
    by blast
  show ?thesis
    using v cl
    by (cases "live c (session_key r jti)")
      (auto simp: authMiddleware_def a Let_def token_key_def [symmetric] session_key_def [symmetric] v' get_value_def
        split: option.split)
qed

lemma authMiddleware_passed:
  assumes "authMiddleware cr conf cx r c = (Passed cx', c')"
  shows "\<exists>t claims jti v. rq_authorization r = ''Bearer '' @ t \<and>
    TokenValid cr t (token_key conf r) (unix c) = Inr claims \<and> claim_string claims ''jti'' = Some jti \<and>
    live c (session_key r jti) = Some v \<and> cached_text v \<noteq> '''' \<and>
    claim_string claims ''user_id'' = UserKey cx' \<and> claim_string claims ''tenant_id'' = TenantKey cx' \<and>
    claim_string claims ''role'' = RoleKey cx' \<and> UserKey cx' \<noteq> None \<and> TenantKey cx' \<noteq> None \<and> RoleKey cx' \<noteq> None"
proof -
  obtain t where t: "auth_header r = Passed t" using assms by (auto simp: authMiddleware_def split: verdict.splits)
  obtain claims jti where cl: "TokenValid cr t (token_key conf r) (unix c) = Inr claims" "claim_string claims ''jti'' = Some jti"
    using assms t by (auto simp: authMiddleware_def token_key_def Let_def split: sum.splits option.splits)
  obtain val c1 where g: "cache_Get (session_key r jti) c = (val, c1)" by fastforce
  have v: "get_value val \<noteq> ''''"
    using assms t cl g by (auto simp: authMiddleware_def token_key_def session_key_def Let_def split: if_splits)
  then obtain v where v': "val = Inr v" "cached_text v \<noteq> ''''" by (cases val) (auto simp: get_value_def)
  obtain x where x: "(if is_refresh r then Some (jti, '''') else map_option (\<lambda>u. (u, jti)) (claim_string claims ''ref_uuid'')) = Some x"
    using assms t cl g v'
    by (auto simp: authMiddleware_def token_key_def session_key_def Let_def get_value_def split: option.splits if_splits)
  have "claim_string claims ''user_id'' = UserKey cx' \<and> claim_string claims ''tenant_id'' = TenantKey cx' \<and>
      claim_string claims ''role'' = RoleKey cx' \<and> UserKey cx' \<noteq> None \<and> TenantKey cx' \<noteq> None \<and> RoleKey cx' \<noteq> None"
    using assms t cl g v' x
    by (auto simp: authMiddleware_def token_key_def [symmetric] session_key_def [symmetric] Let_def get_value_def
        split: option.splits prod.splits)
  with t cl v' g cache_Get_result [OF g] show ?thesis by (auto simp: auth_header_iff)
qed


subsection \<open>Callers that reach a handler\<close>

lemma admit_passed:
  assumes "admit cr conf lower rt r c = (Passed cx, c')" "rt_auth rt"
  obtains cx0 c1 c2 where "authMiddleware cr conf cx0 r c1 = (Passed cx, c2)" "now_ns c1 = now_ns c" "entries c1 = entries c"
    "case rt_roles rt of None \<Rightarrow> True | Some roles \<Rightarrow> GetContext (RoleKey cx) \<in> set roles"
proof -
  obtain cx0 c1 where l: "RateLimiter 50 50 1000 1000 no_ctx r c = (Passed cx0, c1)"
    using assms(1) by (auto simp: admit_def split: prod.splits verdict.splits)
  obtain cx1 where s: "InputSanitizer lower cx0 r = Passed cx1" using assms(1) l by (auto simp: admit_def split: verdict.splits)
  obtain cx2 c2 where a: "authMiddleware cr conf cx1 r c1 = (Passed cx2, c2)"
    using assms l s by (auto simp: admit_def split: prod.splits verdict.splits)
  have roles: "cx2 = cx \<and> (case rt_roles rt of None \<Rightarrow> True | Some roles \<Rightarrow> GetContext (RoleKey cx) \<in> set roles)"
    using assms l s a by (auto simp: admit_def RBACMiddleware_def split: option.splits if_splits)
  have "now_ns c1 = now_ns c \<and> entries c1 = entries c"
    using l by (auto simp: RateLimiter_def split: prod.splits if_splits dest!: Allow_time)
  with a roles that show thesis by blast
qed

text \<open>C5: A handler behind the token check runs only for a request whose bearer token verifies under the key of its URL and
  whose session entry is in the cache; user, tenant and role are the token's claims, and the role is one the route
  allows.\<close>

theorem handlers_run_authorised:
  assumes "admit cr conf lower rt r c = (Passed cx, c')" "rt_auth rt"
  shows "(\<exists>t claims jti v. rq_authorization r = ''Bearer '' @ t \<and>
      parse_token cr t (token_key conf r) (unix c) = Inr claims \<and> claim_string claims ''jti'' = Some jti \<and>
      live c (session_key r jti) = Some v \<and> cached_text v \<noteq> '''' \<and>
      claim_string claims ''user_id'' = UserKey cx \<and> claim_string claims ''tenant_id'' = TenantKey cx \<and>
      claim_string claims ''role'' = RoleKey cx) \<and> TenantKey cx \<noteq> None \<and>
    (case rt_roles rt of None \<Rightarrow> True | Some roles \<Rightarrow> GetContext (RoleKey cx) \<in> set roles)"
proof -
  obtain cx0 c1 c2 where a: "authMiddleware cr conf cx0 r c1 = (Passed cx, c2)"
    and same: "now_ns c1 = now_ns c" "entries c1 = entries c"
    and roles: "case rt_roles rt of None \<Rightarrow> True | Some roles \<Rightarrow> GetContext (RoleKey cx) \<in> set roles"
    by (rule admit_passed [OF assms])
  have u: "unix c1 = unix c" "live c1 = live c" using same(1) live_cong [OF same(2,1)] by (simp_all add: unix_def)
  have p: "parse_token cr t k n = Inr claims" if "TokenValid cr t k n = Inr claims" for t k n claims
    using that by (auto simp: TokenValid_def split: sum.splits if_splits)
  from authMiddleware_passed [OF a] obtain t claims jti v where m: "rq_authorization r = ''Bearer '' @ t"
    "TokenValid cr t (token_key conf r) (unix c) = Inr claims" "claim_string claims ''jti'' = Some jti"
    "live c (session_key r jti) = Some v" "cached_text v \<noteq> ''''" "claim_string claims ''user_id'' = UserKey cx"
    "claim_string claims ''tenant_id'' = TenantKey cx" "claim_string claims ''role'' = RoleKey cx" "TenantKey cx \<noteq> None"
    unfolding u by blast
  with p [OF m(2)] roles show ?thesis by blast
qed

text \<open>A library that knows one token of an administrator.\<close>

definition demo_claims :: gomap where
  "demo_claims = [(''jti'', StrV ''acc''), (''user_id'', StrV ''u1''), (''role'', StrV ''admin''),
     (''tenant_id'', StrV ''t1''), (''ref_uuid'', StrV ''ref'')]"

definition demo_crypto :: crypto where
  "demo_crypto = \<lparr>compare_password = (\<lambda>h p. if h = p then None else Some (ErrorString ''mismatch'')),
     hash_password = Inr, sign_claims = (\<lambda>k cl. if k = ''ak'' then Inr ''tok'' else Inr ''ref''),
     parse_token = (\<lambda>t k now. if t = ''tok'' \<and> k = ''ak'' then Inr demo_claims else Inl (ErrorString ''bad'')),
     token_expired = (\<lambda>e. False)\<rparr>"

definition demo_cfg :: cfg where
  "demo_cfg = \<lparr>RefreshTokenKey = ''rk'', AccessTokenKey = ''ak'', RefreshTokenExp = 10 ^ 12, AccessTokenExp = 10 ^ 11\<rparr>"

definition demo_request :: request where
  "demo_request = \<lparr>rq_method = ''GET'', rq_url = ''/api/v1/users/'', rq_authorization = ''Bearer tok'', rq_forwarded = '''',
     rq_remote = ''10.0.0.1:99'', rq_body = Inr ''''\<rparr>"

definition demo_cache :: "(string \<times> entry) list \<Rightarrow> redis" where
  "demo_cache es = \<lparr>entries = es, token_buckets = [], now_ns = 0, failures = [], published = []\<rparr>"

definition demo_blacklist :: "(string \<times> entry) list" where
  "demo_blacklist = [(''blacklist:acc'', \<lparr>en_value = Plain ''revoked'', en_expiry = None\<rparr>)]"

theorem handlers_run_authorised_witness:
  "let rt = \<lparr>rt_method = ''GET'', rt_pattern = ''/api/v1/users/'', rt_auth = True, rt_roles = Some [''admin'']\<rparr> in
   \<exists>cx. fst (admit demo_crypto demo_cfg id rt demo_request (demo_cache demo_blacklist)) = Passed cx \<and>
     GetContext (RoleKey cx) \<in> {''admin''} \<and> TenantKey cx \<noteq> None"
proof -
  let ?rt = "\<lparr>rt_method = ''GET'', rt_pattern = ''/api/v1/users/'', rt_auth = True, rt_roles = Some [''admin'']\<rparr>"
  let ?a = "admit demo_crypto demo_cfg id ?rt demo_request (demo_cache demo_blacklist)"
  have "case fst ?a of Passed cx \<Rightarrow> True | Refused n m \<Rightarrow> False | Panicked \<Rightarrow> False" by code_simp
  then obtain cx where cx: "fst ?a = Passed cx" by (cases "fst ?a") auto
  then have "?a = (Passed cx, snd ?a)" by (metis prod.collapse)
  from handlers_run_authorised [OF this] cx show ?thesis by (auto simp: Let_def)
qed

subsection \<open>Login and logout\<close>

lemma on_adb_pair: "on_adb f a = (x, a') \<longleftrightarrow> (\<exists>\<sigma>. f (adb a) = (x, \<sigma>) \<and> a' = a\<lparr>adb := \<sigma>\<rparr>)"
  by (auto simp: on_adb_def split: prod.splits)

lemma on_cache_pair: "on_cache f a = (x, a') \<longleftrightarrow> (\<exists>c. f (cache a) = (x, c) \<and> a' = a\<lparr>cache := c\<rparr>)"
  by (auto simp: on_cache_def split: prod.splits)

text \<open>What a login rests on and leaves behind.\<close>

lemma Login_result:
  assumes l: "Login cr conf email password a = (Inr (acc, ref), a1)" and u: "uuids (adb a) = ru # au # us"
  shows "\<exists>user. user \<in> set (users (db (adb a))) \<and> u_Email user = email \<and> u_IsActive user \<and>
    compare_password cr (u_PasswordHash user) password = None \<and>
    sign_claims cr (AccessTokenKey conf) (token_claims au (AccessTokenExp conf)
      (token_options (u_ID user) (u_Role user) (u_TenantID user) ru) (now_ns (cache a))) = Inr acc \<and>
    db (adb a1) = db (adb a) \<and> now_ns (cache a1) = now_ns (cache a) \<and>
    (\<forall>k. live (cache a1) k = (if k = RefKey ru then
       (if RefreshTokenExp conf < 0 then None else Some (session_value au (u_ID user) (u_TenantID user)))
       else live (cache a) k))"
proof -
  obtain user \<sigma>1 where g: "user_Get [(''email'', TextV email)] True (adb a) = (Inr user, \<sigma>1)"
    and p: "compare_password cr (u_PasswordHash user) password = None"
    using l by (auto simp: Login_def on_adb_def split: prod.splits sum.splits option.splits)
  note G = user_Get_result [OF g]
  have us: "uuids \<sigma>1 = ru # au # us" using G u by (simp add: same_session_def)
  let ?s = "sign_claims cr (AccessTokenKey conf) (token_claims au (AccessTokenExp conf)
      (token_options (u_ID user) (u_Role user) (u_TenantID user) ru) (now_ns (cache a)))"
  obtain c where c: "cache_Set (RefKey ru) (session_value au (u_ID user) (u_TenantID user)) (RefreshTokenExp conf) (cache a) = (None, c)"
    and a1: "a1 = a\<lparr>adb := \<sigma>1\<lparr>uuids := us\<rparr>, cache := c\<rparr>" and s: "?s = Inr acc"
    using l g p us
    by (auto simp: Login_def on_adb_def on_cache_def new_uuid_def TokenPair_def generateToken_def Let_def
        split: sum.splits prod.splits option.splits)
  have "u_Email user = email" using G by (auto simp: row_eq_def user_table_def user_get_def)
  with G p s a1 cache_Set_ok [OF c] cache_Set_time [OF c] show ?thesis by auto
qed

text \<open>The documented behaviour of the token library: a token parsed under the key it was signed with gives the claims,
  as JSON gives them back.\<close>

definition jwt_faithful :: "crypto \<Rightarrow> bool" where
  "jwt_faithful cr \<longleftrightarrow> (\<forall>key claims t now claims' k. sign_claims cr key claims = Inr t \<longrightarrow>
     parse_token cr t key now = Inr claims' \<longrightarrow> map_of claims' k = map_option json_roundtrip (map_of claims k))"

lemma token_claim_strings:
  assumes "\<And>k. map_of claims' k = map_option json_roundtrip (map_of (token_claims au d (token_options u ro t ru) now) k)"
  shows "claim_string claims' ''jti'' = Some au" "claim_string claims' ''user_id'' = Some u"
    "claim_string claims' ''role'' = Some ro" "claim_string claims' ''tenant_id'' = Some t"
    "claim_string claims' ''ref_uuid'' = Some ru"
  by (simp_all add: claim_string_def gm_get_def assms token_claims_def token_options_def)


text \<open>C30: A token is accepted only after it was revoked: the access token a login returns is refused on every URL that is not
  a refresh, with "token has been revoked", until its id is put on the blacklist; after the logout of that session
  the same token passes, with the user, tenant and role of the login. The middleware refuses when the blacklist
  has no entry, where it should refuse when it has one.\<close>

theorem token_passes_only_when_revoked:
  assumes "jwt_faithful cr" "Login cr conf email password a = (Inr (acc, ref), a1)" "uuids (adb a) = ru # au # us"
    and "live (cache a) (BlacklistKey au) = None" "failures (cache a1) = []"
    and "rq_authorization r = ''Bearer '' @ acc" "CHR '' '' \<notin> set acc" "\<not> is_refresh r"
    and "parse_token cr acc (AccessTokenKey conf) (unix (cache a1)) = Inr claims"
    and "Logout conf au ru a1 = (None, a2)" "0 \<le> AccessTokenExp conf"
  shows "fst (authMiddleware cr conf cx r (cache a1)) = Refused 401 ''token has been revoked'' \<and>
    (\<exists>user \<in> set (users (db (adb a))). u_Email user = email \<and>
       fst (authMiddleware cr conf cx r (cache a2)) = Passed (cx\<lparr>UserKey := Some (u_ID user),
         TenantKey := Some (u_TenantID user), RoleKey := Some (u_Role user), AccUuidKey := Some au, RefUuidKey := Some ru\<rparr>))"
proof -
  from Login_result [OF assms(2,3)] obtain user where us: "user \<in> set (users (db (adb a)))" "u_Email user = email"
    and s: "sign_claims cr (AccessTokenKey conf) (token_claims au (AccessTokenExp conf)
      (token_options (u_ID user) (u_Role user) (u_TenantID user) ru) (now_ns (cache a))) = Inr acc"
    and lv: "live (cache a1) (BlacklistKey au) = live (cache a) (BlacklistKey au)"
    by (fastforce simp: RefKey_def BlacklistKey_def)
  have cl: "map_of claims k = map_option json_roundtrip (map_of (token_claims au (AccessTokenExp conf)
      (token_options (u_ID user) (u_Role user) (u_TenantID user) ru) (now_ns (cache a))) k)" for k
    using assms(1,9) s unfolding jwt_faithful_def by blast
  note cs = token_claim_strings [OF cl]
  obtain c1 where c1: "cache_Delete [RefKey ru] (cache a1) = (None, c1)"
    and c2: "cache_Set (BlacklistKey au) (Plain ''revoked'') (AccessTokenExp conf) c1 = (None, cache a2)"
    using assms(10) by (auto simp: Logout_def on_cache_def split: prod.splits option.splits)
  have t2: "unix (cache a2) = unix (cache a1)" using cache_Delete_time [OF c1] cache_Set_time [OF c2] by (simp add: unix_def)
  have f2: "failures (cache a2) = []"
    using cache_failures(2) [OF _ c1] cache_failures(1) [OF c2] assms(5) by simp
  have l2: "live (cache a2) (BlacklistKey au) = Some (Plain ''revoked'')" using cache_Set_ok [OF c2] assms(11) by simp
  have tv: "TokenValid cr acc (token_key conf r) (unix (cache a1)) = Inr claims"
    using assms(8,9) by (simp add: TokenValid_def token_key_def)
  have sk: "session_key r au = BlacklistKey au" using assms(8) by (simp add: session_key_def)
  note M = authMiddleware_result [OF assms(6,7) _ cs(1)]
  have "fst (authMiddleware cr conf cx r (cache a1)) = Refused 401 ''token has been revoked''"
    unfolding M [OF tv assms(5)] sk lv assms(4) by simp
  moreover have "fst (authMiddleware cr conf cx r (cache a2)) = Passed (cx\<lparr>UserKey := Some (u_ID user),
      TenantKey := Some (u_TenantID user), RoleKey := Some (u_Role user), AccUuidKey := Some au, RefUuidKey := Some ru\<rparr>)"
    unfolding M [OF tv [folded t2] f2] sk l2 using assms(8) cs by simp
  ultimately show ?thesis using us by blast
qed

definition demo_user :: User where
  "demo_user = \<lparr>u_ID = ''u1'', u_TenantID = ''t1'', u_Email = ''e'', u_PasswordHash = ''pw'', u_Role = ''admin'', u_Version = 1,
     u_CreatedAt = 0, u_UpdatedAt = None, u_IsActive = True\<rparr>"

definition demo_accounts :: "User list \<Rightarrow> string list \<Rightarrow> accounts" where
  "demo_accounts us uu = \<lparr>adb = demo_session [] [] [] uu \<lparr>db := (db (demo_session [] [] [] uu))\<lparr>users := us\<rparr>\<rparr>,
     cache = demo_cache []\<rparr>"

text \<open>A token library for one login.\<close>

definition one_token :: crypto where
  "one_token = demo_crypto\<lparr>sign_claims := (\<lambda>k cl.
       if k = ''ak'' \<and> cl = token_claims ''acc'' (10 ^ 11) (token_options ''u1'' ''admin'' ''t1'' ''ref'') 0 then Inr ''tok''
       else if k = ''rk'' then Inr ''rtok'' else Inl (ErrorString ''no'')),
     parse_token := (\<lambda>t k now. if t = ''tok'' \<and> k = ''ak''
       then Inr (map (\<lambda>(k, v). (k, json_roundtrip v)) (token_claims ''acc'' (10 ^ 11) (token_options ''u1'' ''admin'' ''t1'' ''ref'') 0))
       else Inl (ErrorString ''bad''))\<rparr>"

lemma map_of_map_snd: "map_of (map (\<lambda>(k, v). (k, f v)) m) k = map_option f (map_of m k)"
  by (induction m) auto

lemma one_token_faithful: "jwt_faithful one_token"
  by (auto simp: jwt_faithful_def one_token_def map_of_map_snd split: if_splits)

theorem token_passes_only_when_revoked_witness:
  "fst (authMiddleware one_token demo_cfg no_ctx demo_request
     (cache (snd (Login one_token demo_cfg ''e'' ''pw'' (demo_accounts [demo_user] [''ref'', ''acc'']))))) =
   Refused 401 ''token has been revoked''"
proof -
  let ?a = "demo_accounts [demo_user] [''ref'', ''acc'']"
  let ?l = "Login one_token demo_cfg ''e'' ''pw'' ?a"
  have "fst ?l = Inr (''tok'', ''rtok'')" by code_simp
  then have l: "?l = (Inr (''tok'', ''rtok''), snd ?l)" by (metis prod.collapse)
  have u: "uuids (adb ?a) = [''ref'', ''acc'']" "live (cache ?a) (BlacklistKey ''acc'') = None"
    by (simp_all add: demo_accounts_def demo_session_def demo_cache_def live_def)
  have f: "failures (cache (snd ?l)) = []" by code_simp
  have h: "rq_authorization demo_request = ''Bearer '' @ ''tok''" "CHR '' '' \<notin> set ''tok''" by (simp_all add: demo_request_def)
  have nr: "\<not> is_refresh demo_request" by code_simp
  obtain claims where p: "parse_token one_token ''tok'' (AccessTokenKey demo_cfg) (unix (cache (snd ?l))) = Inr claims"
    by (simp add: one_token_def demo_cfg_def)
  have "fst (Logout demo_cfg ''acc'' ''ref'' (snd ?l)) = None" by code_simp
  then have o: "Logout demo_cfg ''acc'' ''ref'' (snd ?l) = (None, snd (Logout demo_cfg ''acc'' ''ref'' (snd ?l)))"
    by (metis prod.collapse)
  have "0 \<le> AccessTokenExp demo_cfg" by (simp add: demo_cfg_def)
  from token_passes_only_when_revoked [OF one_token_faithful l u(1,2) f h nr p o this] show ?thesis by blast
qed



end
