(* ===== verification/User_Properties.thy ===== *)
theory User_Properties imports Handlers Router_Properties Service_Facts begin

text \<open>
  Properties of the user service: no user can be created, and an update gives the updated user the role of the
  caller.
\<close>

definition users_ok :: "store \<Rightarrow> bool" where
  "users_ok \<sigma> \<longleftrightarrow> (\<forall>u \<in> set (users (db \<sigma>)). tb_check user_table u = None)"

lemma users_okD: "users_ok \<sigma> \<Longrightarrow> u \<in> set (users (db \<sigma>)) \<Longrightarrow> u_ID u \<noteq> '''' \<and> int4 (u_Version u)"
  by (auto simp: users_ok_def user_table_def split: if_splits)

lemma no_tenant_refused: "u_TenantID u = '''' \<Longrightarrow> tb_check user_table u \<noteq> None"
  by (simp add: user_table_def)

lemma new_uuid_db: "on_adb new_uuid a = (i, a') \<Longrightarrow> db (adb a') = db (adb a)"
  by (auto simp: on_adb_pair dest: new_uuid_result)

text \<open>C33: No user can be created: whatever the caller's role and tenant and whatever the request, \<open>Create\<close> fails and
  changes no table. The method checks role and tenant, hashes the password, and then inserts a row whose tenant it
  never sets.\<close>

theorem user_create_never_succeeds:
  assumes "users_ok (adb a)"
  shows "\<exists>e a'. user_service_Create cr cx req a = (Inl e, a') \<and> db (adb a') = db (adb a)"
proof -
  obtain r a1 where g: "on_adb (user_Get [(''email'', TextV (ur_Email req))] True) a = (r, a1)" by fastforce
  then obtain \<sigma>1 where g': "user_Get [(''email'', TextV (ur_Email req))] True (adb a) = (r, \<sigma>1)" "adb a1 = \<sigma>1"
    by (auto simp: on_adb_pair)
  note G = user_Get_result [OF g'(1)]
  obtain t a2 where t: "on_adb (tenant_Get [(''id'', TextV (ur_TenantID req))] True) a1 = (t, a2)" by fastforce
  then have db2: "db (adb a2) = db (adb a)" using G g'(2) by (auto simp: on_adb_pair dest!: tenant_Get_result)
  obtain i a3 where i: "on_adb new_uuid a2 = (i, a3)" by fastforce
  let ?user = "\<lambda>hash. (case r of Inl e \<Rightarrow> zero_user | Inr u \<Rightarrow> u)\<lparr>u_ID := i, u_Email := ur_Email req, u_Role := ur_Role req,
    u_PasswordHash := hash, u_CreatedAt := clock (adb a3), u_UpdatedAt := None, u_Version := 1\<rparr>"
  have known: "u_ID u \<noteq> ''''" if "r = Inr u" for u using G that users_okD [OF assms] by blast
  have refused: "\<exists>e a4. on_adb (user_Create (?user hash)) a3 = (Some e, a4) \<and> db (adb a4) = db (adb a)"
    if "isl r" for hash
  proof -
    obtain q \<sigma>4 where q: "user_Create (?user hash) (adb a3) = (q, \<sigma>4)" by fastforce
    have "q \<noteq> None" using user_Create_result [OF q] no_tenant_refused [of "?user hash"] that
      by (auto simp: isl_def zero_user_def)
    with user_Create_result [OF q] q db2 new_uuid_db [OF i] show ?thesis by (auto simp: on_adb_def)
  qed
  have db1: "db (adb a1) = db (adb a)" using G g'(2) by simp
  show ?thesis
  proof (cases r)
    case (Inr u)
    with known [of u] g db1 show ?thesis
      by (auto simp: user_service_Create_def Let_def split: option.split sum.split)
  next
    case (Inl e)
    show ?thesis
    proof (cases "hash_password cr (ur_Password req)")
      case (Inl x)
      then show ?thesis by (simp add: user_service_Create_def split: option.split)
    next
      case (Inr hash)
      obtain e4 a4 where c: "on_adb (user_Create (?user hash)) a3 = (Some e4, a4)" "db (adb a4) = db (adb a)"
        using refused [of hash] \<open>r = Inl e\<close> by auto
      with Inr g t i db2 \<open>r = Inl e\<close> show ?thesis
        by (simp add: user_service_Create_def split: option.split sum.split)
    qed
  qed
qed

definition demo_user_request :: UserRequest where
  "demo_user_request = \<lparr>ur_UserID = '''', ur_TenantID = ''t1'', ur_Email = ''new'', ur_Password = ''p'', ur_Role = ''viewer''\<rparr>"

definition demo_ctx :: ctx where
  "demo_ctx = \<lparr>RoleKey = Some ''admin'', UserKey = Some ''u1'', TenantKey = Some ''t1'', RefUuidKey = None, AccUuidKey = None\<rparr>"

theorem user_create_never_succeeds_witness:
  "\<exists>e a'. user_service_Create demo_crypto demo_ctx demo_user_request (demo_accounts [demo_user] [''u2'']) = (Inl e, a') \<and>
     users (db (adb a')) = [demo_user]"
proof -
  have "users_ok (adb (demo_accounts [demo_user] [''u2'']))"
    by (simp add: users_ok_def demo_accounts_def demo_session_def user_table_def demo_user_def int4_def)
  from user_create_never_succeeds [OF this] show ?thesis
    by (fastforce simp: demo_accounts_def demo_session_def)
qed

text \<open>C34: Updating a user touches only a user of the caller's tenant, at the version that was read, and raises that version;
  but it also gives the user the caller's role, which the handler puts into the request: since only administrators reach
  the handler, whoever is updated becomes an administrator.\<close>

theorem updated_user_gets_callers_role:
  assumes "handle_user_Update cx (Some (userID, email, password)) a = (Success n m x, a')" "users_ok (adb a)"
  shows "\<exists>role tenant. RoleKey cx = Some role \<and> TenantKey cx = Some tenant \<and>
    (\<exists>u \<in> set (users (db (adb a))). u_ID u = userID \<and> u_TenantID u = tenant \<and> u_IsActive u \<and>
       db (adb a') = (db (adb a))\<lparr>users :=
         modify_all (\<lambda>y. u_ID y = userID \<and> u_Version y = u_Version u \<and> u_IsActive y)
           (\<lambda>y. y\<lparr>u_Email := email, u_Role := role, u_Version := u_Version u + 1, u_UpdatedAt := Some (clock (adb a))\<rparr>)
           (users (db (adb a)))\<rparr>)"
proof -
  obtain role tenant where cx: "RoleKey cx = Some role" "TenantKey cx = Some tenant"
    using assms(1) by (auto simp: handle_user_Update_def asserted_def HttpNewError_def split: option.splits if_splits)
  let ?req = "\<lparr>uu_UserID = userID, uu_TenantID = tenant, uu_Email = email, uu_Password = password, uu_Role = role\<rparr>"
  obtain res where s: "user_service_Update cx ?req a = (Inr res, a')"
    using assms(1) cx
    by (auto simp: handle_user_Update_def asserted_def decoded_def SuccessWithData_def write_error_def HttpNewError_def
        split: if_splits prod.splits sum.splits option.splits)
  obtain u \<sigma>1 where g: "user_Get [(''id'', TextV userID)] True (adb a) = (Inr u, \<sigma>1)"
    using s cx by (auto simp: user_service_Update_def on_adb_def split: prod.splits sum.splits)
  note G = user_Get_result [OF g]
  define p where "p = (if u_Email u \<noteq> email then on_adb (user_Get [(''email'', TextV email)] True) (a\<lparr>adb := \<sigma>1\<rparr>)
      else (Inl ErrNoRows, a\<lparr>adb := \<sigma>1\<rparr>))"
  obtain q a2 where p: "p = (q, a2)" by fastforce
  have a2: "db (adb a2) = db (adb a) \<and> clock (adb a2) = clock (adb a)"
    using p G by (auto simp: p_def on_adb_pair same_session_def dest!: user_Get_result split: if_splits)
  obtain a3 a4 tn where u: "on_adb (user_Update (u_ID u) (u_Version u) [(''email'', TextV email), (''role'', TextV role)]) a2 = (None, a3)"
    and t: "on_adb (tenant_Get [(''id'', TextV (u_TenantID u))] True) a3 = (tn, a4)" "a' = a4" and tu: "u_TenantID u = tenant"
    using s cx g p unfolding p_def
    by (auto simp: user_service_Update_def on_adb_def [of "user_Get [(''id'', TextV userID)] True"]
        split: if_splits sum.splits prod.splits option.splits)
  obtain \<sigma>3 where u': "user_Update (u_ID u) (u_Version u) [(''email'', TextV email), (''role'', TextV role)] (adb a2) = (None, \<sigma>3)"
    "adb a3 = \<sigma>3" using u by (auto simp: on_adb_pair)
  have i: "int4 (u_Version u)" using G users_okD [OF assms(2)] by blast
  have id: "u_ID u = userID" using G by (auto simp: row_eq_def user_table_def user_get_def)
  have "db (adb a') = db \<sigma>3" using t u'(2) by (auto simp: on_adb_pair dest!: tenant_Get_result)
  moreover have "db \<sigma>3 = (db (adb a))\<lparr>users := modify_all (\<lambda>y. u_ID y = userID \<and> u_Version y = u_Version u \<and> u_IsActive y)
      (\<lambda>y. y\<lparr>u_Email := email, u_Role := role, u_Version := u_Version u + 1, u_UpdatedAt := Some (clock (adb a))\<rparr>)
      (users (db (adb a)))\<rparr>"
    using user_Update_result [OF u'(1) i] a2 id by simp
  ultimately show ?thesis using cx G id tu by (intro exI [of _ role] exI [of _ tenant] conjI bexI [of _ u]) auto
qed

theorem updated_user_gets_callers_role_witness:
  "users (db (adb (snd (handle_user_Update demo_ctx (Some (''u2'', ''e2'', ''p''))
     (demo_accounts [demo_user, demo_user\<lparr>u_ID := ''u2'', u_Email := ''old'', u_Role := ''viewer''\<rparr>] []))))) =
   [demo_user, demo_user\<lparr>u_ID := ''u2'', u_Email := ''e2'', u_Role := ''admin'', u_Version := 2, u_UpdatedAt := Some 2000\<rparr>]"
proof -
  let ?a = "demo_accounts [demo_user, demo_user\<lparr>u_ID := ''u2'', u_Email := ''old'', u_Role := ''viewer''\<rparr>] []"
  let ?h = "handle_user_Update demo_ctx (Some (''u2'', ''e2'', ''p'')) ?a"
  have "case fst ?h of Success n m x \<Rightarrow> True | Failure e \<Rightarrow> False | Panic \<Rightarrow> False" by code_simp
  then obtain n m x where "fst ?h = Success n m x" by (cases "fst ?h") auto
  then have h: "?h = (Success n m x, snd ?h)" by (metis prod.collapse)
  have "users_ok (adb ?a)"
    by (simp add: users_ok_def demo_accounts_def demo_session_def user_table_def demo_user_def int4_def)
  from updated_user_gets_callers_role [OF h this] show ?thesis
    by (auto simp: demo_ctx_def demo_accounts_def demo_session_def demo_user_def)
qed

end
