(* ===== verification/AI_Properties.thy ===== *)
theory AI_Properties imports AI_Service Service_Facts Examples begin

text \<open>
  \<open>CreateFromText\<close> with the AI service it is built on: two nested retry loops, and a workflow stored only after its
  validation.
\<close>

lemma generate_attempts_calls:
  "snd (generate_attempts parse_json generate prompt left lastErr n) \<le> n + left"
proof (induction left arbitrary: lastErr n)
  case (Suc left)
  have "snd (generate_attempts parse_json generate prompt left e (n + 1)) \<le> n + Suc left" for e
    using Suc [of e "n + 1"] by simp
  then show ?case by (auto split: sum.split option.split)
qed simp

lemma GenerateDAGFromText_calls: "snd (GenerateDAGFromText parse_json client prompt n) \<le> n + 3"
  using generate_attempts_calls [of parse_json _ _ 3 None n]
  by (auto simp: GenerateDAGFromText_def split: option.split)

lemma validateDAG_ok:
  "validateDAG ro steps = None \<Longrightarrow> steps \<noteq> [] \<and> (\<exists>layers. BuildExecutionPlan ro steps = Inr layers)"
  by (auto simp: validateDAG_def split: if_splits option.splits sum.splits)

definition stores_plan :: "(string list \<Rightarrow> string list) \<Rightarrow> string \<Rightarrow> string \<Rightarrow> svc \<Rightarrow> WorkflowResponse \<Rightarrow> svc \<Rightarrow> bool" where
  "stores_plan ro tenantID name s resp s' \<longleftrightarrow> (\<exists>wfl layers.
     db (ses s') = (db (ses s))\<lparr>workflows := workflows (db (ses s)) @ [wfl]\<rparr> \<and>
     w_TenantID wfl = tenantID \<and> w_Name wfl = name \<and> w_Version wfl = 1 \<and> w_IsCurrent wfl \<and> w_IsActive wfl \<and>
     w_DAGDefinition wfl = marshal_steps (ws_DAGDefinition resp) \<and> ws_DAGDefinition resp \<noteq> [] \<and>
     BuildExecutionPlan ro (ws_DAGDefinition resp) = Inr layers)"

lemma text_attempts_result:
  assumes "text_attempts ro generate tenantID name left prompt lastErr (n, s) = (r, n', s')"
    and calls: "\<And>p k. snd (generate p k) \<le> k + 3"
  shows "n' \<le> n + 3 * left \<and> (case r of Inl e \<Rightarrow> db (ses s') = db (ses s) | Inr resp \<Rightarrow> stores_plan ro tenantID name s resp s')"
  using assms(1)
proof (induction left arbitrary: prompt lastErr n)
  case 0
  then show ?case by auto
next
  case (Suc left)
  obtain g n1 where g: "generate prompt n = (g, n1)" by fastforce
  then have n1: "n1 \<le> n + 3" using calls [of prompt n] by simp
  have again: "n' \<le> n + 3 * Suc left \<and> (case r of Inl e \<Rightarrow> db (ses s') = db (ses s) | Inr resp \<Rightarrow> stores_plan ro tenantID name s resp s')"
    if "text_attempts ro generate tenantID name left p e (n1, s) = (r, n', s')" for p e
    using Suc.IH [OF that] n1 by auto
  show ?case
  proof (cases g)
    case (Inl e)
    with Suc.prems g again show ?thesis by simp
  next
    case (Inr steps)
    show ?thesis
    proof (cases "validateDAG ro steps")
      case (Some e)
      with Suc.prems g Inr again show ?thesis by simp
    next
      case None
      obtain i s2 where i: "on_ses new_uuid s = (i, s2)" by fastforce
      define wfl where "wfl = new_workflow i tenantID name (''Created from AI prompt: '' @ prompt) (marshal_steps steps) (clock (ses s2)) 1"
      obtain q s3 where q: "on_ses (wf_Create wfl) s2 = (q, s3)" by fastforce
      have r: "n' = n1" "s' = s3" "r = (case q of Some e \<Rightarrow> Inl e | None \<Rightarrow> Inr (workflow_response (activated wfl) steps))"
        using Suc.prems g Inr None i q by (auto simp: wfl_def Let_def split: option.splits)
      obtain \<sigma>3 where c: "wf_Create wfl (ses s2) = (q, \<sigma>3)" "ses s3 = \<sigma>3" using q by (auto simp: on_ses_pair)
      have d: "db (ses s2) = db (ses s)" using i by (auto simp: on_ses_pair dest: new_uuid_result)
      show ?thesis
        using wf_Create_result [OF c(1)] c(2) d r n1 validateDAG_ok [OF None]
        by (auto simp: stores_plan_def workflow_response_def activated_def wfl_def new_workflow_def split: option.splits)
    qed
  qed
qed

text \<open>C32: \<open>CreateFromText\<close> always comes back, after at most nine calls of the language model whatever it answers: three
  attempts of the workflow service around three of the AI service. When it reports success, exactly one new current
  workflow was stored, whose steps have an execution plan; when it fails no table has changed.\<close>

theorem text_to_workflow_bounded:
  assumes "workflow_CreateFromText ro (Some (GenerateDAGFromText parse_json client)) tenantID name prompt (n, s) = (r, n', s')"
  shows "n' \<le> n + 9 \<and> (case r of Inl e \<Rightarrow> db (ses s') = db (ses s) | Inr resp \<Rightarrow> stores_plan ro tenantID name s resp s')"
  using text_attempts_result [of ro "GenerateDAGFromText parse_json client" tenantID name 3 prompt _ n s r n' s',
      OF _ GenerateDAGFromText_calls] assms
  by (simp add: workflow_CreateFromText_def)

definition demo_parse :: "string \<Rightarrow> json_text" where
  "demo_parse s = (if s = ''[x]'' then marshal_steps demo_steps else None)"

definition demo_model :: genai where
  "demo_model n prompt = (if n = 0 then Inr [[''no json'']] else Inr [[''here: [x]'']])"

definition demo_svc_for_text :: svc where
  "demo_svc_for_text = \<lparr>ses = demo_session [] [] [] [''w9''], queue = [], push_faults = []\<rparr>"

theorem text_to_workflow_bounded_witness:
  "\<exists>r n' s'. workflow_CreateFromText id (Some (GenerateDAGFromText demo_parse (Some demo_model))) ''t1'' ''ai'' ''p''
     (0, demo_svc_for_text) = (Inr r, n', s') \<and> n' \<le> 9 \<and> stores_plan id ''t1'' ''ai'' demo_svc_for_text r s'"
proof -
  let ?c = "workflow_CreateFromText id (Some (GenerateDAGFromText demo_parse (Some demo_model))) ''t1'' ''ai'' ''p''
     (0, demo_svc_for_text)"
  have "\<not> isl (fst ?c)" by code_simp
  then obtain r n' s' where c: "?c = (Inr r, n', s')" by (cases ?c; cases "fst ?c") auto
  from text_to_workflow_bounded [OF c] show ?thesis using c by auto
qed

end
