(* ===== verification/Cron_Service.thy ===== *)
theory Cron_Service imports Workflow_Service Redis Examples begin

text \<open>
  The cron service, \<open>internal/services/cron_service.go\<close>: scheduling a workflow, unscheduling it, and what a tick of the
  schedule does. The world adds to that of the workflow service the cache and the entries of the cron library: an
  entry has an id, an expression and the workflow its function enqueues. \<open>AddFunc\<close> parses the expression
  (\<open>parse_expr\<close>, a parameter) and appends an entry with the next id, \<open>Remove\<close> deletes an entry.
\<close>

record cron_world =
  cron_svc :: svc
  cron_cache :: redis
  cron_entries :: "(int \<times> string \<times> string) list"
  next_entry :: int

definition in_svc :: "(svc \<Rightarrow> 'a \<times> svc) \<Rightarrow> cron_world \<Rightarrow> 'a \<times> cron_world" where
  "in_svc f c = (case f (cron_svc c) of (x, s) \<Rightarrow> (x, c\<lparr>cron_svc := s\<rparr>))"

definition in_cache :: "(redis \<Rightarrow> 'a \<times> redis) \<Rightarrow> cron_world \<Rightarrow> 'a \<times> cron_world" where
  "in_cache f c = (case f (cron_cache c) of (x, r) \<Rightarrow> (x, c\<lparr>cron_cache := r\<rparr>))"

definition AddFunc :: "(string \<Rightarrow> err option) \<Rightarrow> string \<Rightarrow> string \<Rightarrow> cron_world \<Rightarrow> (err + int) \<times> cron_world" where
  "AddFunc parse_expr cronExpr workflowID c =
     (case parse_expr cronExpr of
        Some e \<Rightarrow> (Inl e, c)
      | None \<Rightarrow> (Inr (next_entry c), c\<lparr>cron_entries := cron_entries c @ [(next_entry c, cronExpr, workflowID)],
          next_entry := next_entry c + 1\<rparr>))"

definition Remove :: "int \<Rightarrow> cron_world \<Rightarrow> cron_world" where
  "Remove entryID c = c\<lparr>cron_entries := filter (\<lambda>en. fst en \<noteq> entryID) (cron_entries c)\<rparr>"

definition schedule_lock :: "string \<Rightarrow> string" where
  "schedule_lock workflowID = ''cron:lock:'' @ workflowID"

definition execution_lock :: "string \<Rightarrow> string" where
  "execution_lock workflowID = ''cron:execution:'' @ workflowID"

text \<open>\<open>defer s.cron.Remove(entryID)\<close> is registered only when the lock has been acquired.\<close>

definition ScheduleWorkflow :: "(string \<Rightarrow> err option) \<Rightarrow> string \<Rightarrow> string \<Rightarrow> cron_world \<Rightarrow> err option \<times> cron_world" where
  "ScheduleWorkflow parse_expr workflowID cronExpr c =
     (case AddFunc parse_expr cronExpr workflowID c of
        (Inl e, c1) \<Rightarrow> (Some (NewError ErrTypeInternal ''failed to schedule cron job'' (Some e)), c1)
      | (Inr entryID, c1) \<Rightarrow>
          (case in_cache (cache_SetNX (schedule_lock workflowID) (Plain (show_int entryID)) (24 * 60 * 60 * second)) c1 of
             (Inl e, c2) \<Rightarrow> (Some (NewError ErrTypeInternal ''failed to acquire cron lock'' (Some e)), c2)
           | (Inr acquired, c2) \<Rightarrow>
               (if \<not> acquired then
                  (Some (NewError ErrTypeConflict (''could not acquire cron lock for workflow '' @ workflowID) None), c2)
                else (None, Remove entryID c2))))"

text \<open>\<open>json.Unmarshal\<close> into an \<open>int\<close>; the texts under the key are decimal entry ids.\<close>

definition unmarshal_int :: "cached \<Rightarrow> err + int" where
  "unmarshal_int v = (case ParseUint (cached_text v) of Inl e \<Rightarrow> Inl e | Inr n \<Rightarrow> Inr (int n))"

definition UnscheduleWorkflow :: "string \<Rightarrow> cron_world \<Rightarrow> err option \<times> cron_world" where
  "UnscheduleWorkflow workflowID c =
     (case in_cache (cache_Get (schedule_lock workflowID)) c of
        (Inl e, c1) \<Rightarrow> (Some (NewError ErrTypeInternal ''failed to get cron lock'' (Some e)), c1)
      | (Inr val, c1) \<Rightarrow>
          (if cached_text val = '''' then
             (Some (NewError ErrTypeUnauthorized ''token invalid'' (Some (ErrorString ''cron lock is empty''))), c1)
           else
             (case unmarshal_int val of
                Inl e \<Rightarrow> (Some (NewError ErrTypeInternal ''internal server error'' (Some e)), c1)
              | Inr entryID \<Rightarrow>
                  (case in_cache (cache_Delete [schedule_lock workflowID]) (Remove entryID c1) of
                     (Some e, c2) \<Rightarrow> (Some (NewError ErrTypeInternal ''failed to delete cron lock'' (Some e)), c2)
                   | (None, c2) \<Rightarrow> (None, c2)))))"

text \<open>What a tick does once it holds the lock. Unlike \<open>Trigger\<close> it opens no transaction.\<close>

definition enqueue_body :: "string \<Rightarrow> svc \<Rightarrow> err option \<times> svc" where
  "enqueue_body workflowID s =
     (case on_ses (wf_Get [(''id'', TextV workflowID)]) s of
        (Inl e, s1) \<Rightarrow> (Some e, s1)
      | (Inr wfl, s1) \<Rightarrow>
          (case on_ses new_uuid s1 of (i, s2) \<Rightarrow>
             (case on_ses (exec_Create (new_execution i (w_TenantID wfl) (w_ID wfl) ''CRON'' (w_Version wfl)
                 (clock (ses s2)))) s2 of
                (Some e, s3) \<Rightarrow> (Some e, s3)
              | (None, s3) \<Rightarrow>
                  (case GetSteps wfl of
                     Inl e \<Rightarrow> (Some (NewError ErrTypeInternal ''failed to parse workflow steps'' (Some e)), s3)
                   | Inr steps \<Rightarrow>
                       (case on_ses (create_steps (w_TenantID wfl) i steps) s3 of
                          (Some e, s4) \<Rightarrow> (Some e, s4)
                        | (None, s4) \<Rightarrow>
                            (case RPush i s4 of
                               (Some e, s5) \<Rightarrow> (Some (NewError ErrTypeInternal ''failed to enqueue job'' (Some e)), s5)
                             | (None, s5) \<Rightarrow> (None, s5)))))))"

definition enqueueWorkflowExecution :: "string \<Rightarrow> cron_world \<Rightarrow> err option \<times> cron_world" where
  "enqueueWorkflowExecution workflowID c =
     (case in_cache (cache_SetNX (execution_lock workflowID) (Plain ''1'') (10 * second)) c of
        (Inl e, c1) \<Rightarrow> (Some (NewError ErrTypeInternal ''failed to acquire execution lock'' (Some e)), c1)
      | (Inr acquired, c1) \<Rightarrow>
          (if \<not> acquired then (None, c1)
           else case in_svc (enqueue_body workflowID) c1 of (r, c2) \<Rightarrow>
             (r, snd (in_cache (cache_Delete [execution_lock workflowID]) c2))))"

subsection \<open>What scheduling schedules\<close>

lemma in_cache_entries: "in_cache f c = (x, c') \<Longrightarrow> cron_entries c' = cron_entries c \<and> cron_svc c' = cron_svc c"
  by (auto simp: in_cache_def split: prod.splits)

text \<open>C39: A workflow is scheduled exactly when scheduling it fails: when \<open>ScheduleWorkflow\<close> reports success its deferred
  \<open>Remove\<close> has taken the entry out again and the schedule is as before; when the lock is held by somebody else or the
  cache fails, an error is reported and the new entry stays and fires.\<close>

theorem scheduled_iff_it_fails:
  assumes "parse_expr cronExpr = None" "\<forall>en \<in> set (cron_entries c). fst en < next_entry c"
    and "ScheduleWorkflow parse_expr workflowID cronExpr c = (r, c')"
  shows "cron_entries c' = (if r = None then cron_entries c
    else cron_entries c @ [(next_entry c, cronExpr, workflowID)])"
proof -
  let ?c1 = "c\<lparr>cron_entries := cron_entries c @ [(next_entry c, cronExpr, workflowID)], next_entry := next_entry c + 1\<rparr>"
  obtain q c2 where q: "in_cache (cache_SetNX (schedule_lock workflowID) (Plain (show_int (next_entry c)))
      (24 * 60 * 60 * second)) ?c1 = (q, c2)" by fastforce
  have e: "cron_entries c2 = cron_entries c @ [(next_entry c, cronExpr, workflowID)]" using in_cache_entries [OF q] by simp
  have "filter (\<lambda>en. fst en \<noteq> next_entry c) (cron_entries c) = cron_entries c"
    using assms(2) by (auto simp: filter_id_conv)
  with assms(1,3) q e show ?thesis
    by (auto simp: ScheduleWorkflow_def AddFunc_def Remove_def split: sum.splits if_splits)
qed

definition demo_cron :: "(string \<times> entry) list \<Rightarrow> cron_world" where
  "demo_cron es = \<lparr>cron_svc = \<lparr>ses = demo_session [] [] [] [], queue = [], push_faults = []\<rparr>,
     cron_cache = \<lparr>entries = es, token_buckets = [], now_ns = 0, failures = [], published = []\<rparr>,
     cron_entries = [], next_entry = 1\<rparr>"

theorem scheduled_iff_it_fails_witness:
  "cron_entries (snd (ScheduleWorkflow (\<lambda>x. None) ''w1'' ''@daily'' (demo_cron []))) = [] \<and>
   cron_entries (snd (ScheduleWorkflow (\<lambda>x. None) ''w1'' ''@daily''
     (demo_cron [(''cron:lock:w1'', \<lparr>en_value = Plain ''7'', en_expiry = None\<rparr>)]))) = [(1, ''@daily'', ''w1'')]"
proof -
  let ?s = "\<lambda>es. ScheduleWorkflow (\<lambda>x. None) ''w1'' ''@daily'' (demo_cron es)"
  have r: "fst (?s []) = None" "fst (?s [(''cron:lock:w1'', \<lparr>en_value = Plain ''7'', en_expiry = None\<rparr>)]) \<noteq> None"
    by (simp_all add: ScheduleWorkflow_def AddFunc_def demo_cron_def in_cache_def cache_SetNX_def command_def live_def
        put_entry_def schedule_lock_def)
  have e: "\<forall>en \<in> set (cron_entries (demo_cron es)). fst en < next_entry (demo_cron es)"
    "cron_entries (demo_cron es) = []" "next_entry (demo_cron es) = 1" for es
    by (simp_all add: demo_cron_def)
  from scheduled_iff_it_fails [OF refl e(1) surjective_pairing] r e(2,3) show ?thesis by simp
qed

end
