(* ===== verification/Broadcaster.thy ===== *)
theory Broadcaster imports Redis begin

text \<open>
  The event broadcaster, \<open>internal/broadcaster/sse.go\<close>, with the stream handler that uses it, \<open>internal/handler/sse.go\<close>.
  Client channels are named; a channel is its buffered messages and whether it is closed. Sending on a closed channel
  and closing one twice panic in Go and are the left case of the results here. The mutex makes every operation one
  step.

  Every subscribed tenant has a goroutine \<open>listenRedis\<close>: \<open>listeners\<close> are the ones started so far, numbered in that order,
  each with its tenant, whether its context has been cancelled, and the place in its loop where it waits.
  \<open>subscriptions\<close> holds the cancel functions, as the numbers of the goroutines they cancel. What wakes a goroutine is
  the choice of the outside: the answer of \<open>Subscribe\<close>, a message or the end of the Redis channel, a timer, or
  \<open>ctx.Done()\<close>; where several are ready Go picks any of them.
\<close>

record channel =
  ch_buffer :: "string list"
  ch_closed :: bool

datatype listen_point = Connecting | Retrying | Receiving | Reconnecting | Returned

record listener =
  ln_tenant :: string
  ln_cancelled :: bool
  ln_at :: listen_point

text \<open>\<open>hub_cache\<close>: the Redis client \<open>Init\<close> was given is not nil.\<close>

record hub =
  tenantClients :: "(string \<times> string list) list"
  subscriptions :: "(string \<times> nat) list"
  channels :: "(string \<times> channel) list"
  listeners :: "listener list"
  hub_cache :: bool

definition gm_delete :: "'k \<Rightarrow> ('k \<times> 'v) list \<Rightarrow> ('k \<times> 'v) list" where
  "gm_delete k m = filter (\<lambda>kv. fst kv \<noteq> k) m"

lemma map_of_gm_delete [simp]: "map_of (gm_delete k m) = (map_of m)(k := None)"
  by (induction m) (auto simp: gm_delete_def)

definition Register :: "string \<Rightarrow> string \<Rightarrow> hub \<Rightarrow> hub" where
  "Register tenantID clientChan b =
     (let b1 = (case map_of (tenantClients b) tenantID of
           None \<Rightarrow> b\<lparr>tenantClients := gm_set tenantID [] (tenantClients b),
             subscriptions := gm_set tenantID (length (listeners b)) (subscriptions b),
             listeners := listeners b @ [\<lparr>ln_tenant = tenantID, ln_cancelled = False, ln_at = Connecting\<rparr>]\<rparr>
         | Some cs \<Rightarrow> b) in
      b1\<lparr>tenantClients := gm_set tenantID (List.insert clientChan (sm_list (tenantClients b1) tenantID))
           (tenantClients b1)\<rparr>)"

definition close_channel :: "string \<Rightarrow> hub \<Rightarrow> string + hub" where
  "close_channel ch b =
     (case map_of (channels b) ch of
        None \<Rightarrow> Inl ''close of nil channel''
      | Some c \<Rightarrow> (if ch_closed c then Inl ''close of closed channel''
          else Inr (b\<lparr>channels := gm_set ch (c\<lparr>ch_closed := True\<rparr>) (channels b)\<rparr>)))"

definition cancel_subscription :: "string \<Rightarrow> hub \<Rightarrow> hub" where
  "cancel_subscription tenantID b =
     (case map_of (subscriptions b) tenantID of
        None \<Rightarrow> b
      | Some n \<Rightarrow> b\<lparr>listeners := (listeners b)[n := (listeners b ! n)\<lparr>ln_cancelled := True\<rparr>],
          subscriptions := gm_delete tenantID (subscriptions b)\<rparr>)"

definition Unregister :: "string \<Rightarrow> string \<Rightarrow> hub \<Rightarrow> string + hub" where
  "Unregister tenantID clientChan b =
     (case map_of (tenantClients b) tenantID of
        None \<Rightarrow> Inr b
      | Some consumers \<Rightarrow>
          (let rest = filter (\<lambda>c. c \<noteq> clientChan) consumers;
               after = (if rest = [] then cancel_subscription tenantID (b\<lparr>tenantClients := gm_delete tenantID (tenantClients b)\<rparr>)
                 else b\<lparr>tenantClients := gm_set tenantID rest (tenantClients b)\<rparr>) in
           if clientChan \<in> set consumers then close_channel clientChan after else Inr after))"

text \<open>A client channel holds ten messages; one that is full is skipped.\<close>

definition try_send :: "string \<Rightarrow> string \<Rightarrow> hub \<Rightarrow> string + hub" where
  "try_send data ch b =
     (case map_of (channels b) ch of
        None \<Rightarrow> Inr b
      | Some c \<Rightarrow>
          (if ch_closed c then Inl ''send on closed channel''
           else if length (ch_buffer c) < 10
             then Inr (b\<lparr>channels := gm_set ch (c\<lparr>ch_buffer := ch_buffer c @ [data]\<rparr>) (channels b)\<rparr>)
           else Inr b))"

fun send_all :: "string \<Rightarrow> string list \<Rightarrow> hub \<Rightarrow> string + hub" where
  "send_all data [] b = Inr b"
| "send_all data (ch # chs) b = (case try_send data ch b of Inl e \<Rightarrow> Inl e | Inr b1 \<Rightarrow> send_all data chs b1)"

definition broadcastLocal :: "string \<Rightarrow> string \<Rightarrow> hub \<Rightarrow> string + hub" where
  "broadcastLocal tenantID data b =
     (case map_of (tenantClients b) tenantID of None \<Rightarrow> Inr b | Some consumers \<Rightarrow> send_all data consumers b)"

subsection \<open>Publishing\<close>

text \<open>The worker publishes a tenant's events on the tenant's Redis channel, the one its listeners subscribe to.\<close>

definition event_channel :: "string \<Rightarrow> string" where
  "event_channel tenantID = ''flowforge:events:tenant_'' @ tenantID"

definition BroadcastToRedis :: "string \<Rightarrow> any \<Rightarrow> redis \<Rightarrow> err option \<times> redis" where
  "BroadcastToRedis tenantID event c = cache_Publish (event_channel tenantID) event c"

lemma event_channel_inj: "event_channel t = event_channel t' \<longleftrightarrow> t = t'"
  by (simp add: event_channel_def)

lemma BroadcastToRedis_result:
  "BroadcastToRedis t event c = (r, c') \<Longrightarrow> t' \<noteq> t \<Longrightarrow>
   filter (\<lambda>p. fst p = event_channel t') (published c') = filter (\<lambda>p. fst p = event_channel t') (published c)"
  by (auto simp: BroadcastToRedis_def cache_Publish_def failed_def event_channel_inj split: prod.splits sum.splits
    elim!: command_cases)

subsection \<open>The listener of a tenant's Redis channel\<close>

text \<open>\<open>Subscribed ok\<close> is the answer of \<open>Subscribe\<close>, with \<open>ok\<close> false for nil.\<close>

datatype wake = Subscribed bool | Received string | Hangup | Tick | Done

text \<open>What the place where a goroutine waits can be woken by.\<close>

primrec awaits :: "wake \<Rightarrow> listener \<Rightarrow> bool" where
  "awaits (Subscribed ok) l = (ln_at l = Connecting)"
| "awaits (Received data) l = (ln_at l = Receiving)"
| "awaits Hangup l = (ln_at l = Receiving)"
| "awaits Tick l = (ln_at l \<in> {Retrying, Reconnecting})"
| "awaits Done l = (ln_cancelled l \<and> ln_at l \<in> {Retrying, Receiving, Reconnecting})"

definition goto :: "nat \<Rightarrow> listen_point \<Rightarrow> hub \<Rightarrow> hub" where
  "goto n p b = b\<lparr>listeners := (listeners b)[n := (listeners b ! n)\<lparr>ln_at := p\<rparr>]\<rparr>"

text \<open>One step of \<open>listenRedis\<close>. Calling \<open>Subscribe\<close> of a nil cache panics.\<close>

primrec listenRedis :: "wake \<Rightarrow> nat \<Rightarrow> hub \<Rightarrow> string + hub" where
  "listenRedis (Subscribed ok) n b =
     (if ln_cancelled (listeners b ! n) then Inr (goto n Returned b)
      else if \<not> hub_cache b then Inl ''invalid memory address or nil pointer dereference''
      else Inr (goto n (if ok then Receiving else Retrying) b))"
| "listenRedis (Received data) n b = broadcastLocal (ln_tenant (listeners b ! n)) data b"
| "listenRedis Hangup n b = Inr (goto n Reconnecting b)"
| "listenRedis Tick n b = Inr (goto n Connecting b)"
| "listenRedis Done n b = Inr (goto n Returned b)"

subsection \<open>The stream handler\<close>

text \<open>\<open>Handle\<close> makes a channel of its own, registers it, reads it until the request ends, and unregisters it. \<open>streams\<close> are
  the handlers that run, each with its tenant, its channel and what it has written.\<close>

record sse_world =
  hub_of :: hub
  streams :: "(string \<times> string) list"
  written :: "(string \<times> string list) list"

datatype sse_event =
    Open string string
  | Read string
  | Heartbeat string
  | Close string string
  | Wake nat wake

definition write_stream :: "string \<Rightarrow> string \<Rightarrow> sse_world \<Rightarrow> sse_world" where
  "write_stream ch text w = w\<lparr>written := gm_set ch (sm_list (written w) ch @ [text]) (written w)\<rparr>"

definition newline :: string where
  "newline = [CHR 0x0A, CHR 0x0A]"

primrec sse_step :: "sse_event \<Rightarrow> sse_world \<Rightarrow> string + sse_world" where
  "sse_step (Open tenantID ch) w =
     (if tenantID = '''' then Inr w
      else let b = (hub_of w)\<lparr>channels := gm_set ch \<lparr>ch_buffer = [], ch_closed = False\<rparr> (channels (hub_of w))\<rparr> in
        Inr (write_stream ch (''event: connected'' @ [CHR 0x0A] @ ''data: '' @ [CHR 0x7B] @ json_string ''status'' @ '': '' @ json_string ''connected''
            @ [CHR 0x7D] @ newline)
          (w\<lparr>hub_of := Register tenantID ch b, streams := (tenantID, ch) # streams w\<rparr>)))"
| "sse_step (Read ch) w =
     (case map_of (channels (hub_of w)) ch of
        None \<Rightarrow> Inr w
      | Some c \<Rightarrow>
          (case ch_buffer c of
             [] \<Rightarrow> Inr w
           | msg # rest \<Rightarrow> Inr (write_stream ch (''data: '' @ msg @ newline)
               (w\<lparr>hub_of := (hub_of w)\<lparr>channels := gm_set ch (c\<lparr>ch_buffer := rest\<rparr>) (channels (hub_of w))\<rparr>\<rparr>))))"
| "sse_step (Heartbeat ch) w = Inr (write_stream ch ('': heartbeat'' @ newline) w)"
| "sse_step (Close tenantID ch) w =
     (case Unregister tenantID ch (hub_of w) of
        Inl e \<Rightarrow> Inl e
      | Inr b \<Rightarrow> Inr (w\<lparr>hub_of := b, streams := filter (\<lambda>s. s \<noteq> (tenantID, ch)) (streams w)\<rparr>))"
| "sse_step (Wake n wk) w = (case listenRedis wk n (hub_of w) of Inl e \<Rightarrow> Inl e | Inr b \<Rightarrow> Inr (w\<lparr>hub_of := b\<rparr>))"

text \<open>What a handler may do: it opens with a channel nobody has had, and reads, beats and closes while it runs.\<close>

primrec enabled :: "sse_event \<Rightarrow> sse_world \<Rightarrow> bool" where
  "enabled (Open tenantID ch) w = (ch \<notin> set (map fst (channels (hub_of w))))"
| "enabled (Read ch) w = (ch \<in> set (map snd (streams w)))"
| "enabled (Heartbeat ch) w = (ch \<in> set (map snd (streams w)))"
| "enabled (Close tenantID ch) w = ((tenantID, ch) \<in> set (streams w))"
| "enabled (Wake n wk) w = (n < length (listeners (hub_of w)) \<and> awaits wk (listeners (hub_of w) ! n))"

definition sse_start :: "bool \<Rightarrow> sse_world" where
  "sse_start cache = \<lparr>hub_of = \<lparr>tenantClients = [], subscriptions = [], channels = [], listeners = [], hub_cache = cache\<rparr>,
     streams = [], written = []\<rparr>"

inductive sse_reachable :: "bool \<Rightarrow> sse_world \<Rightarrow> bool" for cache :: bool where
  start: "sse_reachable cache (sse_start cache)"
| step: "sse_reachable cache w \<Longrightarrow> enabled ev w \<Longrightarrow> sse_step ev w = Inr w' \<Longrightarrow> sse_reachable cache w'"

text \<open>Any sequence of events, stopping at one that is not enabled or panics.\<close>

fun sse_run :: "sse_event list \<Rightarrow> sse_world \<Rightarrow> (string + sse_world) option" where
  "sse_run [] w = Some (Inr w)"
| "sse_run (ev # evs) w =
     (if \<not> enabled ev w then None
      else case sse_step ev w of Inl e \<Rightarrow> Some (Inl e) | Inr w' \<Rightarrow> sse_run evs w')"

lemma sse_run_reachable: "sse_reachable cache w \<Longrightarrow> sse_run evs w = Some (Inr w') \<Longrightarrow> sse_reachable cache w'"
proof (induction evs arbitrary: w)
  case (Cons ev evs)
  then obtain w1 where "enabled ev w" "sse_step ev w = Inr w1" "sse_run evs w1 = Some (Inr w')"
    by (auto split: if_splits sum.splits)
  with Cons.IH sse_reachable.step [OF Cons.prems(1)] show ?case by blast
qed simp

subsection \<open>Invariant\<close>

text \<open>The consumers of a tenant are exactly the channels of its running handlers, each open and within its capacity; a
  tenant has consumers exactly when it has a subscription; no channel serves two handlers; the subscription is the
  only listener of the tenant whose context is not cancelled, and only a cancelled one has returned.\<close>

definition consumers_ok :: "sse_world \<Rightarrow> bool" where
  "consumers_ok w \<longleftrightarrow> (\<forall>t. set (sm_list (tenantClients (hub_of w)) t) = {ch. (t, ch) \<in> set (streams w)} \<and>
     distinct (sm_list (tenantClients (hub_of w)) t) \<and>
     map_of (tenantClients (hub_of w)) t \<noteq> Some [] \<and>
     (map_of (subscriptions (hub_of w)) t \<noteq> None \<longleftrightarrow> map_of (tenantClients (hub_of w)) t \<noteq> None))"

definition channels_ok :: "sse_world \<Rightarrow> bool" where
  "channels_ok w \<longleftrightarrow> distinct (map snd (streams w)) \<and>
     (\<forall>s \<in> set (streams w). \<exists>c. map_of (channels (hub_of w)) (snd s) = Some c \<and> \<not> ch_closed c \<and> length (ch_buffer c) \<le> 10)"

definition listeners_ok :: "hub \<Rightarrow> bool" where
  "listeners_ok b \<longleftrightarrow>
     (\<forall>t n. map_of (subscriptions b) t = Some n \<longrightarrow> n < length (listeners b) \<and> ln_tenant (listeners b ! n) = t) \<and>
     (\<forall>n < length (listeners b). (\<not> ln_cancelled (listeners b ! n)) = (map_of (subscriptions b) (ln_tenant (listeners b ! n)) = Some n) \<and>
        (ln_at (listeners b ! n) = Returned \<longrightarrow> ln_cancelled (listeners b ! n)))"

definition sse_inv :: "sse_world \<Rightarrow> bool" where
  "sse_inv w \<longleftrightarrow> consumers_ok w \<and> channels_ok w \<and> listeners_ok (hub_of w) \<and> hub_cache (hub_of w)"

lemma listeners_okD:
  assumes "listeners_ok b"
  shows "map_of (subscriptions b) t = Some n \<Longrightarrow> n < length (listeners b) \<and> ln_tenant (listeners b ! n) = t"
    and "n < length (listeners b) \<Longrightarrow> (\<not> ln_cancelled (listeners b ! n)) = (map_of (subscriptions b) (ln_tenant (listeners b ! n)) = Some n)"
    and "n < length (listeners b) \<Longrightarrow> ln_at (listeners b ! n) = Returned \<Longrightarrow> ln_cancelled (listeners b ! n)"
  using assms by (simp_all add: listeners_ok_def)

lemma listeners_ok_same:
  "listeners_ok b \<Longrightarrow> subscriptions b' = subscriptions b \<Longrightarrow> listeners b' = listeners b \<Longrightarrow> listeners_ok b'"
  by (simp add: listeners_ok_def)

lemma listeners_ok_new:
  assumes "listeners_ok b" "map_of (subscriptions b) t = None"
    and "subscriptions b' = gm_set t (length (listeners b)) (subscriptions b)"
    and "listeners b' = listeners b @ [\<lparr>ln_tenant = t, ln_cancelled = False, ln_at = Connecting\<rparr>]"
  shows "listeners_ok b'"
  using assms listeners_okD(1) [OF assms(1)] unfolding listeners_ok_def by (auto simp: nth_append less_Suc_eq)

lemma listeners_ok_goto:
  assumes "listeners_ok b" "n < length (listeners b)" "p = Returned \<Longrightarrow> ln_cancelled (listeners b ! n)"
  shows "listeners_ok (goto n p b)"
  using assms by (auto simp: listeners_ok_def goto_def nth_list_update)

lemma cancel_subscription_result:
  assumes "listeners_ok b"
  shows "listeners_ok (cancel_subscription t b) \<and> tenantClients (cancel_subscription t b) = tenantClients b \<and>
    channels (cancel_subscription t b) = channels b \<and> hub_cache (cancel_subscription t b) = hub_cache b \<and>
    map_of (subscriptions (cancel_subscription t b)) = (map_of (subscriptions b))(t := None)"
proof (cases "map_of (subscriptions b) t")
  case None
  then have "(map_of (subscriptions b))(t := None) = map_of (subscriptions b)" by (simp add: fun_upd_idem)
  with assms None show ?thesis by (simp add: cancel_subscription_def)
next
  case (Some n)
  note L = listeners_okD [OF assms]
  have "listeners_ok (cancel_subscription t b)"
    using L(1) [OF Some] Some L unfolding listeners_ok_def cancel_subscription_def
    by (auto simp: nth_list_update)
  with Some show ?thesis by (simp add: cancel_subscription_def)
qed

text \<open>Sending to open channels.\<close>

definition offered :: "string \<Rightarrow> channel \<Rightarrow> channel" where
  "offered data c = (if length (ch_buffer c) < 10 then c\<lparr>ch_buffer := ch_buffer c @ [data]\<rparr> else c)"

lemma send_all_open:
  assumes "distinct chs" "\<forall>ch \<in> set chs. \<exists>c. map_of (channels b) ch = Some c \<and> \<not> ch_closed c"
  shows "\<exists>b'. send_all data chs b = Inr b' \<and> tenantClients b' = tenantClients b \<and> subscriptions b' = subscriptions b \<and>
    listeners b' = listeners b \<and> hub_cache b' = hub_cache b \<and> (\<forall>k. map_of (channels b') k = (if k \<in> set chs then map_option (offered data) (map_of (channels b) k) else map_of (channels b) k))"
  using assms
proof (induction chs arbitrary: b)
  case (Cons ch chs)
  then obtain c where c: "map_of (channels b) ch = Some c" "\<not> ch_closed c" by auto
  define b1 where "b1 = (if length (ch_buffer c) < 10
    then b\<lparr>channels := gm_set ch (c\<lparr>ch_buffer := ch_buffer c @ [data]\<rparr>) (channels b)\<rparr> else b)"
  have s: "try_send data ch b = Inr b1" using c by (simp add: try_send_def b1_def)
  have b1: "tenantClients b1 = tenantClients b" "subscriptions b1 = subscriptions b" "listeners b1 = listeners b"
    "hub_cache b1 = hub_cache b"
    "\<And>k. map_of (channels b1) k = (if k = ch then Some (offered data c) else map_of (channels b) k)"
    using c by (auto simp: b1_def offered_def)
  have "\<forall>k \<in> set chs. \<exists>c. map_of (channels b1) k = Some c \<and> \<not> ch_closed c" using Cons.prems b1(5) by auto
  from Cons.IH [OF _ this] Cons.prems(1) obtain b' where "send_all data chs b1 = Inr b'" "tenantClients b' = tenantClients b1"
    "subscriptions b' = subscriptions b1" "listeners b' = listeners b1" "hub_cache b' = hub_cache b1"
    "\<forall>k. map_of (channels b') k = (if k \<in> set chs then map_option (offered data) (map_of (channels b1) k) else map_of (channels b1) k)"
    by auto
  with s b1 Cons.prems(1) c(1) show ?case by auto
qed simp


lemma sm_list_lookup: "sm_list m k = (case map_of m k of None \<Rightarrow> [] | Some xs \<Rightarrow> xs)"
  by (simp add: sm_list_def)

lemma consumers_okD:
  assumes "consumers_ok w" "(t, ch) \<in> set (streams w)"
  shows "\<exists>cs. map_of (tenantClients (hub_of w)) t = Some cs \<and> set cs = {ch. (t, ch) \<in> set (streams w)} \<and> distinct cs"
proof -
  have "ch \<in> set (sm_list (tenantClients (hub_of w)) t)" using assms by (simp add: consumers_ok_def)
  then obtain cs where "map_of (tenantClients (hub_of w)) t = Some cs"
    by (cases "map_of (tenantClients (hub_of w)) t") (auto simp: sm_list_lookup)
  moreover from this have "sm_list (tenantClients (hub_of w)) t = cs" by (simp add: sm_list_lookup)
  ultimately show ?thesis using assms(1) unfolding consumers_ok_def by metis
qed

lemma stream_channel:
  "sse_inv w \<Longrightarrow> s \<in> set (streams w) \<Longrightarrow>
   \<exists>c. map_of (channels (hub_of w)) (snd s) = Some c \<and> \<not> ch_closed c \<and> length (ch_buffer c) \<le> 10"
  by (simp add: sse_inv_def channels_ok_def)

lemma sse_inv_sub:
  "sse_inv w \<Longrightarrow> map_of (subscriptions (hub_of w)) t = None \<longleftrightarrow> map_of (tenantClients (hub_of w)) t = None"
  unfolding sse_inv_def consumers_ok_def by blast

lemma open_inv:
  assumes "sse_inv w" "enabled (Open t ch) w"
  shows "\<exists>w'. sse_step (Open t ch) w = Inr w' \<and> sse_inv w'"
proof (cases "t = ''''")
  case False
  have new: "ch \<notin> set (map snd (streams w))"
    using assms by (force simp: sse_inv_def channels_ok_def dest: map_of_SomeD)
  obtain w' where w': "sse_step (Open t ch) w = Inr w'" "streams w' = (t, ch) # streams w"
    "channels (hub_of w') = gm_set ch \<lparr>ch_buffer = [], ch_closed = False\<rparr> (channels (hub_of w))"
    "tenantClients (hub_of w') = gm_set t (List.insert ch (sm_list (tenantClients (hub_of w)) t))
       (if map_of (tenantClients (hub_of w)) t = None then gm_set t [] (tenantClients (hub_of w)) else tenantClients (hub_of w))"
    "if map_of (tenantClients (hub_of w)) t = None
     then subscriptions (hub_of w') = gm_set t (length (listeners (hub_of w))) (subscriptions (hub_of w)) \<and>
       listeners (hub_of w') = listeners (hub_of w) @ [\<lparr>ln_tenant = t, ln_cancelled = False, ln_at = Connecting\<rparr>]
     else subscriptions (hub_of w') = subscriptions (hub_of w) \<and> listeners (hub_of w') = listeners (hub_of w)"
    "hub_cache (hub_of w') = hub_cache (hub_of w)"
    using False by (auto simp: Register_def write_stream_def Let_def sm_list_lookup split: option.split)
  have sub: "map_of (subscriptions (hub_of w')) k = None \<longleftrightarrow>
      (if k = t then False else map_of (subscriptions (hub_of w)) k = None)" for k
    using w'(5) assms(1) by (auto simp: sse_inv_def consumers_ok_def split: if_splits)
  have look: "sm_list (tenantClients (hub_of w')) k =
      (if k = t then List.insert ch (sm_list (tenantClients (hub_of w)) t) else sm_list (tenantClients (hub_of w)) k)"
    "map_of (tenantClients (hub_of w')) k =
      (if k = t then Some (List.insert ch (sm_list (tenantClients (hub_of w)) t)) else map_of (tenantClients (hub_of w)) k)" for k
    by (auto simp: w'(4))
  have "consumers_ok w'"
    unfolding consumers_ok_def look w'(2) sub
  proof
    fix k
    have old: "set (sm_list (tenantClients (hub_of w)) k) = {x. (k, x) \<in> set (streams w)}"
      "distinct (sm_list (tenantClients (hub_of w)) k)" "map_of (tenantClients (hub_of w)) k \<noteq> Some []"
      "map_of (subscriptions (hub_of w)) k \<noteq> None \<longleftrightarrow> map_of (tenantClients (hub_of w)) k \<noteq> None"
      using assms(1) unfolding sse_inv_def consumers_ok_def by blast+
    have "List.insert ch xs \<noteq> []" for xs by (auto simp: List.insert_def)
    with old show "set (if k = t then List.insert ch (sm_list (tenantClients (hub_of w)) t) else sm_list (tenantClients (hub_of w)) k) =
        {x. (k, x) \<in> set ((t, ch) # streams w)} \<and>
      distinct (if k = t then List.insert ch (sm_list (tenantClients (hub_of w)) t) else sm_list (tenantClients (hub_of w)) k) \<and>
      (if k = t then Some (List.insert ch (sm_list (tenantClients (hub_of w)) t)) else map_of (tenantClients (hub_of w)) k) \<noteq> Some [] \<and>
      (\<not> (if k = t then False else map_of (subscriptions (hub_of w)) k = None)) =
      ((if k = t then Some (List.insert ch (sm_list (tenantClients (hub_of w)) t)) else map_of (tenantClients (hub_of w)) k) \<noteq> None)"
      by (cases "k = t") auto
  qed
  moreover have "channels_ok w'"
    using assms(1) new by (auto simp: sse_inv_def channels_ok_def w'(2,3))
  moreover have "listeners_ok (hub_of w')"
  proof (cases "map_of (tenantClients (hub_of w)) t = None")
    case True
    then have "map_of (subscriptions (hub_of w)) t = None" using sse_inv_sub [OF assms(1)] by blast
    with w'(5) True have sl: "subscriptions (hub_of w') = gm_set t (length (listeners (hub_of w))) (subscriptions (hub_of w))"
      "listeners (hub_of w') = listeners (hub_of w) @ [\<lparr>ln_tenant = t, ln_cancelled = False, ln_at = Connecting\<rparr>]" by auto
    have "listeners_ok (hub_of w)" using assms(1) by (simp add: sse_inv_def)
    from listeners_ok_new [OF this \<open>map_of (subscriptions (hub_of w)) t = None\<close> sl] show ?thesis .
  next
    case False
    with w'(5) have "subscriptions (hub_of w') = subscriptions (hub_of w)" "listeners (hub_of w') = listeners (hub_of w)" by auto
    with assms(1) listeners_ok_same [of "hub_of w"] show ?thesis by (simp add: sse_inv_def)
  qed
  ultimately show ?thesis using w'(1,6) assms(1) by (auto simp: sse_inv_def)
qed (use assms in simp)

lemma Unregister_member:
  assumes "map_of (tenantClients b) t = Some cs" "ch \<in> set cs" "map_of (channels b) ch = Some c" "\<not> ch_closed c"
    and "listeners_ok b"
  shows "\<exists>b'. Unregister t ch b = Inr b' \<and> channels b' = gm_set ch (c\<lparr>ch_closed := True\<rparr>) (channels b) \<and>
    tenantClients b' = (if filter (\<lambda>c. c \<noteq> ch) cs = [] then gm_delete t (tenantClients b)
      else gm_set t (filter (\<lambda>c. c \<noteq> ch) cs) (tenantClients b)) \<and>
    map_of (subscriptions b') = (if filter (\<lambda>c. c \<noteq> ch) cs = [] then (map_of (subscriptions b))(t := None)
      else map_of (subscriptions b)) \<and> listeners_ok b' \<and> hub_cache b' = hub_cache b"
proof (cases "filter (\<lambda>c. c \<noteq> ch) cs = []")
  case True
  let ?b = "b\<lparr>tenantClients := gm_delete t (tenantClients b)\<rparr>"
  have "listeners_ok ?b" using assms(5) by (rule listeners_ok_same) simp_all
  from cancel_subscription_result [OF this, of t] assms True show ?thesis
    by (auto simp: Unregister_def close_channel_def Let_def intro: listeners_ok_same)
next
  case False
  with assms show ?thesis by (auto simp: Unregister_def close_channel_def Let_def intro: listeners_ok_same)
qed

lemma close_inv:
  assumes "sse_inv w" "enabled (Close t ch) w"
  shows "\<exists>w'. sse_step (Close t ch) w = Inr w' \<and> sse_inv w'"
proof -
  have mem: "(t, ch) \<in> set (streams w)" using assms(2) by simp
  then obtain cs where cs: "map_of (tenantClients (hub_of w)) t = Some cs" "set cs = {ch. (t, ch) \<in> set (streams w)}" "distinct cs"
    using consumers_okD assms(1) unfolding sse_inv_def by blast
  obtain c where c: "map_of (channels (hub_of w)) ch = Some c" "\<not> ch_closed c"
    using assms(1) mem by (force simp: sse_inv_def channels_ok_def)
  define rest where "rest = filter (\<lambda>c. c \<noteq> ch) cs"
  obtain b where b: "Unregister t ch (hub_of w) = Inr b" "channels b = gm_set ch (c\<lparr>ch_closed := True\<rparr>) (channels (hub_of w))"
    "tenantClients b = (if rest = [] then gm_delete t (tenantClients (hub_of w)) else gm_set t rest (tenantClients (hub_of w)))"
    "map_of (subscriptions b) = (if rest = [] then (map_of (subscriptions (hub_of w)))(t := None) else map_of (subscriptions (hub_of w)))"
    "listeners_ok b" "hub_cache b = hub_cache (hub_of w)"
    using Unregister_member [OF cs(1) _ c] cs(2) mem assms(1) by (auto simp: rest_def [symmetric] sse_inv_def)
  let ?w' = "w\<lparr>hub_of := b, streams := filter (\<lambda>s. s \<noteq> (t, ch)) (streams w)\<rparr>"
  have other: "snd s \<noteq> ch" if "s \<in> set (streams w)" "s \<noteq> (t, ch)" for s
    using assms(1) mem that distinct_key_eq [of snd "streams w" s "(t, ch)"] by (auto simp: sse_inv_def channels_ok_def)
  have look: "map_of (tenantClients b) k = (if k = t then (if rest = [] then None else Some rest)
      else map_of (tenantClients (hub_of w)) k)" for k by (auto simp: b(3))
  have r: "set rest = {x. (t, x) \<in> set (filter (\<lambda>s. s \<noteq> (t, ch)) (streams w))}" "distinct rest"
    using cs(2,3) by (auto simp: rest_def)
  have old: "set (case map_of (tenantClients (hub_of w)) k of None \<Rightarrow> [] | Some xs \<Rightarrow> xs) = {x. (k, x) \<in> set (streams w)} \<and>
      distinct (case map_of (tenantClients (hub_of w)) k of None \<Rightarrow> [] | Some xs \<Rightarrow> xs) \<and>
      map_of (tenantClients (hub_of w)) k \<noteq> Some [] \<and>
      (map_of (subscriptions (hub_of w)) k \<noteq> None \<longleftrightarrow> map_of (tenantClients (hub_of w)) k \<noteq> None)" for k
    using assms(1) unfolding sse_inv_def consumers_ok_def sm_list_lookup by blast
  have "consumers_ok ?w'"
    unfolding consumers_ok_def sm_list_lookup
  proof
    fix k
    show "set (case map_of (tenantClients (hub_of ?w')) k of None \<Rightarrow> [] | Some xs \<Rightarrow> xs) = {x. (k, x) \<in> set (streams ?w')} \<and>
      distinct (case map_of (tenantClients (hub_of ?w')) k of None \<Rightarrow> [] | Some xs \<Rightarrow> xs) \<and>
      map_of (tenantClients (hub_of ?w')) k \<noteq> Some [] \<and>
      (map_of (subscriptions (hub_of ?w')) k \<noteq> None \<longleftrightarrow> map_of (tenantClients (hub_of ?w')) k \<noteq> None)"
    proof (cases "k = t")
      case True
      with r old [of t] cs(1) show ?thesis by (auto simp: look b(4))
    next
      case False
      with old [of k] show ?thesis by (auto simp: look b(4))
    qed
  qed
  moreover have "channels_ok ?w'"
    using assms(1) other by (auto simp: sse_inv_def channels_ok_def b(2) distinct_map_filter)
  ultimately show ?thesis using b(1,5,6) assms(1) by (auto simp: sse_inv_def)
qed

text \<open>Delivery: the open channels of the tenant's handlers are offered the message, the others are left alone.\<close>

lemma broadcast_inv:
  assumes "sse_inv w"
  shows "\<exists>b. broadcastLocal t data (hub_of w) = Inr b \<and> sse_inv (w\<lparr>hub_of := b\<rparr>) \<and>
    (\<forall>s \<in> set (streams w). map_of (channels b) (snd s) =
       (if fst s = t then map_option (offered data) (map_of (channels (hub_of w)) (snd s)) else map_of (channels (hub_of w)) (snd s)))"
proof (cases "map_of (tenantClients (hub_of w)) t")
  case None
  then have "\<And>ch. (t, ch) \<notin> set (streams w)"
    using assms by (auto simp: sse_inv_def consumers_ok_def sm_list_lookup dest: spec [of _ t])
  with assms None show ?thesis by (auto simp: broadcastLocal_def)
next
  case (Some cs)
  have "set (sm_list (tenantClients (hub_of w)) t) = {ch. (t, ch) \<in> set (streams w)} \<and> distinct (sm_list (tenantClients (hub_of w)) t)"
    using assms unfolding sse_inv_def consumers_ok_def by blast
  then have cs: "set cs = {ch. (t, ch) \<in> set (streams w)}" "distinct cs" by (auto simp: sm_list_lookup Some)
  have "\<forall>ch \<in> set cs. \<exists>c. map_of (channels (hub_of w)) ch = Some c \<and> \<not> ch_closed c"
    using assms cs(1) by (force simp: sse_inv_def channels_ok_def)
  from send_all_open [OF cs(2) this, of data] obtain b where b: "send_all data cs (hub_of w) = Inr b"
    "tenantClients b = tenantClients (hub_of w)" "subscriptions b = subscriptions (hub_of w)"
    "listeners b = listeners (hub_of w)" "hub_cache b = hub_cache (hub_of w)"
    "\<forall>k. map_of (channels b) k = (if k \<in> set cs then map_option (offered data) (map_of (channels (hub_of w)) k)
       else map_of (channels (hub_of w)) k)" by blast
  have own: "snd s \<in> set cs \<longleftrightarrow> fst s = t" if "s \<in> set (streams w)" for s
    using assms that cs(1) distinct_key_eq [of snd "streams w" s "(t, snd s)"]
    by (cases s) (auto simp: sse_inv_def channels_ok_def)
  have "\<exists>c. map_of (channels b) (snd s) = Some c \<and> \<not> ch_closed c \<and> length (ch_buffer c) \<le> 10"
    if "s \<in> set (streams w)" for s
  proof -
    obtain c where "map_of (channels (hub_of w)) (snd s) = Some c" "\<not> ch_closed c" "length (ch_buffer c) \<le> 10"
      using stream_channel [OF assms \<open>s \<in> set (streams w)\<close>] by blast
    then show ?thesis by (simp add: b(6) offered_def)
  qed
  then have "sse_inv (w\<lparr>hub_of := b\<rparr>)"
    using assms listeners_ok_same [of "hub_of w" b] by (simp add: sse_inv_def consumers_ok_def channels_ok_def b(2-5))
  moreover have "broadcastLocal t data (hub_of w) = Inr b" using b(1) Some by (simp add: broadcastLocal_def)
  ultimately show ?thesis using b(6) own by auto
qed

lemma goto_inv:
  assumes "sse_inv w" "n < length (listeners (hub_of w))" "p = Returned \<Longrightarrow> ln_cancelled (listeners (hub_of w) ! n)"
  shows "sse_inv (w\<lparr>hub_of := goto n p (hub_of w)\<rparr>)"
  using assms listeners_ok_goto [of "hub_of w" n p] unfolding sse_inv_def
  by (simp add: consumers_ok_def channels_ok_def goto_def)

lemma wake_inv:
  assumes "sse_inv w" "enabled (Wake n wk) w"
  shows "\<exists>w'. sse_step (Wake n wk) w = Inr w' \<and> sse_inv w'"
proof (cases wk)
  case (Received data)
  with broadcast_inv [OF assms(1), of "ln_tenant (listeners (hub_of w) ! n)" data] show ?thesis by auto
qed (use assms goto_inv [OF assms(1)] in \<open>auto simp: sse_inv_def\<close>)

lemma read_inv:
  assumes "sse_inv w" "enabled (Read ch) w"
  shows "\<exists>w'. sse_step (Read ch) w = Inr w' \<and> sse_inv w'"
proof -
  obtain t where "(t, ch) \<in> set (streams w)" using assms(2) by auto
  then obtain c where c: "map_of (channels (hub_of w)) ch = Some c" "\<not> ch_closed c" "length (ch_buffer c) \<le> 10"
    using assms(1) by (force simp: sse_inv_def channels_ok_def)
  show ?thesis
  proof (cases "ch_buffer c")
    case Nil
    with assms(1) c(1) show ?thesis by simp
  next
    case (Cons msg rest)
    have k: "channels_ok (w\<lparr>hub_of := (hub_of w)\<lparr>channels := gm_set ch (c\<lparr>ch_buffer := rest\<rparr>) (channels (hub_of w))\<rparr>\<rparr>)"
      using assms(1) c Cons by (auto simp: sse_inv_def channels_ok_def)
    have "listeners_ok (hub_of w\<lparr>channels := x\<rparr>)" for x
      by (rule listeners_ok_same [of "hub_of w"]) (use assms(1) in \<open>simp_all add: sse_inv_def\<close>)
    with k c(1) Cons assms(1) show ?thesis
      by (auto simp: write_stream_def sse_inv_def consumers_ok_def channels_ok_def)
  qed
qed

lemma sse_step_inv:
  assumes "sse_inv w" "enabled ev w"
  shows "\<exists>w'. sse_step ev w = Inr w' \<and> sse_inv w'"
proof (cases ev)
  case (Heartbeat ch)
  with assms(1) show ?thesis by (simp add: write_stream_def sse_inv_def consumers_ok_def channels_ok_def)
qed (use assms open_inv close_inv wake_inv read_inv in blast)+

lemma sse_reachable_inv: "sse_reachable True w \<Longrightarrow> sse_inv w"
proof (induction rule: sse_reachable.induct)
  case start
  show ?case by (simp add: sse_inv_def consumers_ok_def channels_ok_def listeners_ok_def sse_start_def sm_list_def)
next
  case (step w ev w')
  then show ?case using sse_step_inv [of w ev] by auto
qed

text \<open>The listeners of a tenant whose contexts are not cancelled: one while it has streams, none otherwise.\<close>

lemma live_listeners:
  assumes "sse_inv w"
  shows "length (filter (\<lambda>l. ln_tenant l = t \<and> \<not> ln_cancelled l) (listeners (hub_of w))) =
    (if \<exists>ch. (t, ch) \<in> set (streams w) then 1 else 0)"
proof -
  let ?b = "hub_of w"
  have ok: "listeners_ok ?b" using assms by (simp add: sse_inv_def)
  note L = listeners_okD [OF ok]
  have live: "{n. n < length (listeners ?b) \<and> ln_tenant (listeners ?b ! n) = t \<and> \<not> ln_cancelled (listeners ?b ! n)} =
      {n. map_of (subscriptions ?b) t = Some n}" (is "?A = ?B")
    using L(1) L(2) by blast
  have "set (case map_of (tenantClients ?b) t of None \<Rightarrow> [] | Some xs \<Rightarrow> xs) = {ch. (t, ch) \<in> set (streams w)} \<and>
      map_of (tenantClients ?b) t \<noteq> Some []"
    using assms unfolding sse_inv_def consumers_ok_def sm_list_lookup by blast
  then have "(\<exists>ch. (t, ch) \<in> set (streams w)) \<longleftrightarrow> map_of (subscriptions ?b) t \<noteq> None"
    using sse_inv_sub [OF assms, of t] by (cases "map_of (tenantClients ?b) t") (auto simp: neq_Nil_conv)
  with live show ?thesis
    by (cases "map_of (subscriptions ?b) t") (simp_all add: length_filter_conv_card)
qed

lemma stream_listener:
  assumes "sse_inv w" "(t, ch) \<in> set (streams w)"
  shows "\<exists>n < length (listeners (hub_of w)). ln_tenant (listeners (hub_of w) ! n) = t \<and>
    \<not> ln_cancelled (listeners (hub_of w) ! n) \<and> ln_at (listeners (hub_of w) ! n) \<noteq> Returned"
proof -
  have ok: "listeners_ok (hub_of w)" using assms(1) by (simp add: sse_inv_def)
  have "length (filter (\<lambda>l. ln_tenant l = t \<and> \<not> ln_cancelled l) (listeners (hub_of w))) \<noteq> 0"
    using live_listeners [OF assms(1), of t] assms(2) by auto
  then obtain l where "l \<in> set (listeners (hub_of w))" "ln_tenant l = t" "\<not> ln_cancelled l"
    by (auto simp: filter_empty_conv)
  then show ?thesis using listeners_okD(3) [OF ok] by (metis in_set_conv_nth)
qed

text \<open>C16: The broadcaster never panics and never mixes tenants: however streams open, read and close and the Redis listeners
  wake, no channel is closed twice and nothing is sent on a closed one; a tenant has one listener whose context is not
  cancelled while one of its streams runs, and none otherwise; a message a listener receives is offered to the running
  streams of its tenant, dropped where ten are waiting, and no stream of another tenant sees it.\<close>

theorem broadcaster_safe:
  assumes "sse_reachable True w"
  shows "(\<forall>ev. enabled ev w \<longrightarrow> (\<exists>w'. sse_step ev w = Inr w')) \<and>
    (\<forall>t. length (filter (\<lambda>l. ln_tenant l = t \<and> \<not> ln_cancelled l) (listeners (hub_of w))) =
       (if \<exists>ch. (t, ch) \<in> set (streams w) then 1 else 0)) \<and>
    (\<forall>n data w' s. sse_step (Wake n (Received data)) w = Inr w' \<and> s \<in> set (streams w) \<longrightarrow>
       map_of (channels (hub_of w')) (snd s) =
         (if fst s = ln_tenant (listeners (hub_of w) ! n) then map_option (offered data) (map_of (channels (hub_of w)) (snd s))
          else map_of (channels (hub_of w)) (snd s)))"
proof -
  note inv = sse_reachable_inv [OF assms]
  have "map_of (channels (hub_of w')) (snd s) =
      (if fst s = ln_tenant (listeners (hub_of w) ! n) then map_option (offered data) (map_of (channels (hub_of w)) (snd s))
       else map_of (channels (hub_of w)) (snd s))" if "sse_step (Wake n (Received data)) w = Inr w'" "s \<in> set (streams w)" for n data w' s
    using broadcast_inv [OF inv, of "ln_tenant (listeners (hub_of w) ! n)" data] that by auto
  then show ?thesis using sse_step_inv [OF inv] live_listeners [OF inv] by blast
qed

theorem broadcaster_safe_witness:
  "\<exists>w. sse_step (Open ''t1'' ''c'') (sse_start True) = Inr w \<and>
     length (filter (\<lambda>l. ln_tenant l = ''t1'' \<and> \<not> ln_cancelled l) (listeners (hub_of w))) = 1 \<and>
     (\<exists>w'. sse_step (Close ''t1'' ''c'') w = Inr w')"
proof -
  have e: "enabled (Open ''t1'' ''c'') (sse_start True)" by (simp add: sse_start_def)
  then obtain w where w: "sse_step (Open ''t1'' ''c'') (sse_start True) = Inr w"
    using broadcaster_safe [OF sse_reachable.start] by blast
  then have s: "streams w = [(''t1'', ''c'')]" by (auto simp: write_stream_def sse_start_def)
  have r: "sse_reachable True w" by (rule sse_reachable.step [OF sse_reachable.start e w])
  have c: "enabled (Close ''t1'' ''c'') w" and m: "\<exists>ch. (''t1'', ch) \<in> set (streams w)" by (simp_all add: s)
  have "length (filter (\<lambda>l. ln_tenant l = ''t1'' \<and> \<not> ln_cancelled l) (listeners (hub_of w))) = 1"
    using broadcaster_safe [OF r] m by presburger
  moreover have "\<exists>w'. sse_step (Close ''t1'' ''c'') w = Inr w'" using broadcaster_safe [OF r] c by blast
  ultimately show ?thesis using w by blast
qed

text \<open>The steps of one goroutine.\<close>

definition wakes :: "nat \<Rightarrow> wake list \<Rightarrow> sse_event list" where
  "wakes n wks = map (Wake n) wks"

lemma listener_receives:
  assumes "n < length (listeners (hub_of w))" "\<not> ln_cancelled (listeners (hub_of w) ! n)" "hub_cache (hub_of w)"
    and "ln_at (listeners (hub_of w) ! n) \<noteq> Returned"
  shows "\<exists>wks w'. length wks \<le> 2 \<and> sse_run (wakes n wks) w = Some (Inr w') \<and> ln_at (listeners (hub_of w') ! n) = Receiving"
proof (cases "ln_at (listeners (hub_of w) ! n)")
  case Connecting
  then show ?thesis using assms by (intro exI [of _ "[Subscribed True]"]) (simp add: wakes_def goto_def)
next
  case Retrying
  then show ?thesis using assms by (intro exI [of _ "[Tick, Subscribed True]"]) (simp add: wakes_def goto_def)
next
  case Receiving
  then show ?thesis by (intro exI [of _ "[]"] exI [of _ w]) (simp add: wakes_def)
next
  case Reconnecting
  then show ?thesis using assms by (intro exI [of _ "[Tick, Subscribed True]"]) (simp add: wakes_def goto_def)
qed (use assms in simp)

lemma listener_returns:
  assumes "n < length (listeners (hub_of w))" "ln_cancelled (listeners (hub_of w) ! n)" "ln_at (listeners (hub_of w) ! n) \<noteq> Returned"
  shows "\<exists>wk. enabled (Wake n wk) w \<and> (\<forall>w'. sse_step (Wake n wk) w = Inr w' \<longrightarrow> ln_at (listeners (hub_of w') ! n) = Returned)"
proof (cases "ln_at (listeners (hub_of w) ! n) = Connecting")
  case True
  then show ?thesis using assms by (intro exI [of _ "Subscribed True"]) (auto simp: goto_def)
next
  case False
  then show ?thesis using assms by (intro exI [of _ Done]) (cases "ln_at (listeners (hub_of w) ! n)", auto simp: goto_def)
qed



text \<open>Two of the listeners' weaknesses, at concrete runs. A server that went on without Redis panics when the first
  stream's listener subscribes.\<close>

lemma nil_cache_panics:
  "sse_run [Open ''t1'' ''c'', Wake 0 (Subscribed True)] (sse_start False) =
     Some (Inl ''invalid memory address or nil pointer dereference'')"
  by (simp add: sse_start_def Register_def Let_def write_stream_def sm_list_def)

text \<open>A cancelled listener whose subscription has a message ready may hand it out before it returns: a stream opened
  meanwhile gets the event twice, from it and from the new listener.\<close>

lemma event_twice:
  "\<exists>w. sse_run [Open ''t1'' ''a'', Wake 0 (Subscribed True), Close ''t1'' ''a'', Open ''t1'' ''b'', Wake 1 (Subscribed True),
      Wake 0 (Received ''m''), Wake 1 (Received ''m'')] (sse_start True) = Some (Inr w) \<and>
     map_of (channels (hub_of w)) ''b'' = Some \<lparr>ch_buffer = [''m'', ''m''], ch_closed = False\<rparr>"
  by (simp add: sse_start_def Register_def Unregister_def close_channel_def cancel_subscription_def broadcastLocal_def try_send_def
      gm_delete_def Let_def write_stream_def goto_def sm_list_def)

end
