(* ===== verification/Script.thy ===== *)
theory Script imports Actions begin

text \<open>
  The \<open>SCRIPT\<close> action, \<open>internal/worker/service/script.go\<close>. The Docker daemon is a parameter: its five calls, each on a
  state of its own, with whatever answers. What is proved holds for every daemon: the calls the action makes, in
  which order, and with which limits.
\<close>

record container_config =
  c_Image :: string
  c_Cmd :: "string list"
  c_AutoRemove :: bool
  c_Memory :: int
  c_NanoCPUs :: int
  c_NetworkMode :: string

text \<open>What the \<open>select\<close> after \<open>ContainerWait\<close> receives: from the error channel, from the status channel, or the end of the
  context. Reading the logs and copying them apart (\<open>StdCopy\<close>) fail separately.\<close>

datatype wait_result = WaitErr "err option" | WaitStatus int | WaitDone

record 'd docker =
  ContainerCreate :: "container_config \<Rightarrow> 'd \<Rightarrow> (err + string) \<times> 'd"
  ContainerStart :: "string \<Rightarrow> 'd \<Rightarrow> err option \<times> 'd"
  ContainerWait :: "string \<Rightarrow> 'd \<Rightarrow> wait_result \<times> 'd"
  ContainerLogs :: "string \<Rightarrow> 'd \<Rightarrow> (err + err + string \<times> string) \<times> 'd"
  ContainerRemove :: "string \<Rightarrow> 'd \<Rightarrow> 'd"

definition script_command :: "string \<Rightarrow> string \<Rightarrow> (string \<times> string list) option" where
  "script_command runtime scriptCode =
     (if runtime = ''python3'' then Some (''python:3.10-slim'', [''python'', ''-c'', scriptCode])
      else if runtime = ''javascript'' then Some (''node:18-alpine'', [''node'', ''-e'', scriptCode])
      else if runtime = ''shell'' then Some (''ubuntu:22.04'', [''bash'', ''-c'', scriptCode])
      else if runtime = ''go'' then Some (''golang:1.21-alpine'', [''go'', ''run'', ''-e'', scriptCode])
      else None)"

definition sandbox :: "string \<times> string list \<Rightarrow> container_config" where
  "sandbox ic = \<lparr>c_Image = fst ic, c_Cmd = snd ic, c_AutoRemove = True, c_Memory = 128 * 1024 * 1024,
     c_NanoCPUs = 500000000, c_NetworkMode = ''none''\<rparr>"

definition script_error :: "string \<Rightarrow> err \<Rightarrow> gomap option \<times> err option" where
  "script_error prefix e = (None, Some (ErrorString (prefix @ error_string e)))"

text \<open>The refusals after the wait. Exit code 137, a killed script, passes.\<close>

definition wait_refused :: "wait_result \<Rightarrow> (gomap option \<times> err option) option" where
  "wait_refused r =
     (case r of
        WaitErr None \<Rightarrow> None
      | WaitErr (Some e) \<Rightarrow> Some (script_error ''error waiting for container: '' e)
      | WaitStatus n \<Rightarrow>
          (if n \<noteq> 0 \<and> n \<noteq> 137
           then Some (None, Some (ErrorString (''script execution failed with exit code: '' @ show_int n))) else None)
      | WaitDone \<Rightarrow> Some (None, Some (ErrorString ''script execution timed out and was killed'')))"

definition script_output :: "string \<Rightarrow> string \<Rightarrow> gomap" where
  "script_output stdout stderr =
     (let m = [(''stdout'', StrV stdout), (''stderr'', StrV stderr)] in
      if stderr \<noteq> '''' then gm_set ''has_warnings'' (BoolV True) m else m)"

text \<open>From the creation of the container to the end of the method; the removal is deferred.\<close>

definition run_container :: "'d docker \<Rightarrow> string \<Rightarrow> 'd \<Rightarrow> (gomap option \<times> err option) \<times> 'd" where
  "run_container dk i d =
     (case ContainerStart dk i d of
        (Some e, d1) \<Rightarrow> (script_error ''failed to start sandbox container: '' e, d1)
      | (None, d1) \<Rightarrow>
          (case ContainerWait dk i d1 of (r, d2) \<Rightarrow>
             (case wait_refused r of
                Some x \<Rightarrow> (x, d2)
              | None \<Rightarrow>
                  (case ContainerLogs dk i d2 of
                     (Inl e, d3) \<Rightarrow> (script_error ''failed to get logs: '' e, d3)
                   | (Inr (Inl e), d3) \<Rightarrow> (script_error ''failed to parse logs: '' e, d3)
                   | (Inr (Inr (stdout, stderr)), d3) \<Rightarrow> ((Some (script_output stdout stderr), None), d3)))))"

definition ScriptAction :: "'d docker \<Rightarrow> gomap \<Rightarrow> 'd \<Rightarrow> (gomap option \<times> err option) \<times> 'd" where
  "ScriptAction dk params d =
     (let scriptCode = string_or_empty (gm_get params ''script''); runtime = string_or_empty (gm_get params ''runtime'') in
      if scriptCode = '''' then ((None, Some (ErrorString ''missing 'script' parameter'')), d)
      else case script_command runtime scriptCode of
        None \<Rightarrow> ((None, Some (ErrorString (''unsupported runtime: '' @ runtime))), d)
      | Some ic \<Rightarrow>
          (case ContainerCreate dk (sandbox ic) d of
             (Inl e, d1) \<Rightarrow> (script_error ''failed to create sandbox container: '' e, d1)
           | (Inr i, d1) \<Rightarrow> (case run_container dk i d1 of (r, d2) \<Rightarrow> (r, ContainerRemove dk i d2))))"

text \<open>As an action of the registry: the daemon's state is a part of the outside world.\<close>

definition script_as_action :: "'d docker \<Rightarrow> (env \<Rightarrow> 'd) \<Rightarrow> ('d \<Rightarrow> env \<Rightarrow> env) \<Rightarrow> action" where
  "script_as_action dk get put params en = (case ScriptAction dk params (get en) of (r, d) \<Rightarrow> (r, put d en))"

subsection \<open>The calls\<close>

datatype docker_call = Created container_config | Started string | Waited string | Logged string | Removed string

text \<open>The same daemon with a record of the calls it has got.\<close>

definition recording :: "'d docker \<Rightarrow> ('d \<times> docker_call list) docker" where
  "recording dk = \<lparr>
     ContainerCreate = (\<lambda>c (d, cs). case ContainerCreate dk c d of (r, d') \<Rightarrow> (r, d', cs @ [Created c])),
     ContainerStart = (\<lambda>i (d, cs). case ContainerStart dk i d of (r, d') \<Rightarrow> (r, d', cs @ [Started i])),
     ContainerWait = (\<lambda>i (d, cs). case ContainerWait dk i d of (r, d') \<Rightarrow> (r, d', cs @ [Waited i])),
     ContainerLogs = (\<lambda>i (d, cs). case ContainerLogs dk i d of (r, d') \<Rightarrow> (r, d', cs @ [Logged i])),
     ContainerRemove = (\<lambda>i (d, cs). (ContainerRemove dk i d, cs @ [Removed i]))\<rparr>"

text \<open>The life of the container, which may stop after any call.\<close>

definition container_life :: "string \<Rightarrow> docker_call list \<Rightarrow> bool" where
  "container_life i cs \<longleftrightarrow> cs \<in> {[Started i], [Started i, Waited i], [Started i, Waited i, Logged i]}"

lemma script_command_last: "script_command runtime code = Some ic \<Longrightarrow> last (snd ic) = code"
  by (auto simp: script_command_def split: if_splits)

lemma as_string_Some: "as_string v = Some s \<Longrightarrow> v = StrV s"
  by (cases v) auto

lemma run_container_calls:
  assumes "run_container (recording dk) i (d, cs) = (r, d', cs')"
  shows "\<exists>life. cs' = cs @ life \<and> container_life i life \<and>
    (snd r = None \<longrightarrow> life = [Started i, Waited i, Logged i] \<and> (\<exists>stdout stderr. fst r = Some (script_output stdout stderr)))"
  using assms
  by (auto simp: run_container_def recording_def container_life_def script_error_def wait_refused_def
      split: prod.splits option.splits sum.splits wait_result.splits if_splits) blast+


definition demo_docker :: "nat docker" where
  "demo_docker = \<lparr>ContainerCreate = (\<lambda>c n. (Inr ''c1'', n + 1)), ContainerStart = (\<lambda>i n. (None, n)),
     ContainerWait = (\<lambda>i n. (WaitStatus 137, n)), ContainerLogs = (\<lambda>i n. (Inr (Inr (''out'', '''')), n)),
     ContainerRemove = (\<lambda>i n. n - 1)\<rparr>"


end
