(* ===== verification/Interleaving.thy ===== *)
theory Interleaving imports Lifecycle begin

text \<open>
  Several job pollers on one database, interleaved statement by statement. \<open>Poller\<close> runs a round of a poller in one
  piece; here every statement of \<open>poll\<close>, \<open>processExecutionByID\<close> and \<open>executeOne\<close> is a step of its own, and between any
  two of them other pollers, the API servers and the engine may act, or the poller may lose its connection.

  The tables are those of the last commits. A transaction sees them with the rows it has itself locked or written laid over
  (\<open>READ COMMITTED\<close>); \<open>FOR UPDATE SKIP LOCKED\<close> leaves out the rows other transactions hold; an \<open>UPDATE\<close> of a row another
  transaction holds waits. The repository methods are the same as everywhere in the development, on the session each
  statement sees.
\<close>

subsection \<open>The pollers and their transactions\<close>

text \<open>Where a poller is: between rounds, in the transaction of a round (begun, with or without the id of a job;
  with executions to claim and claimed; before the commit), or after the commit, starting what it has claimed.\<close>

datatype place =
    Idle
  | Begun "string option"
  | Claiming "Execution list" "Execution list"
  | Taken Execution
  | Starting "Execution list"
  | Failing Execution "Execution list"

text \<open>\<open>own\<close> are the rows its transaction holds, as the transaction sees them; \<open>broken\<close> says whether a statement has failed in it.\<close>

record poller =
  place :: place
  own :: "Execution list"
  broken :: bool

record cluster =
  committed :: database
  pollers :: "poller list"
  launched_runs :: "(Execution \<times> Workflow) list"
  cl_schema :: schema

definition overlay :: "Execution list \<Rightarrow> Execution list \<Rightarrow> Execution list" where
  "overlay rows = map (\<lambda>r. case List.find (\<lambda>x. e_ID x = e_ID r) rows of None \<Rightarrow> r | Some x \<Rightarrow> x)"

definition held_ids :: "poller \<Rightarrow> string list" where
  "held_ids p = map e_ID (own p)"

definition held_by_others :: "nat \<Rightarrow> cluster \<Rightarrow> string list" where
  "held_by_others k c = concat (map held_ids ((pollers c)[k := \<lparr>place = Idle, own = [], broken = False\<rparr>]))"

text \<open>What a statement of poller \<open>k\<close> sees, at a clock time and with what fails for outside reasons; outside a transaction
  nothing is laid over the tables.\<close>

definition sees_in_tx :: "nat \<Rightarrow> err option list \<Rightarrow> time \<Rightarrow> cluster \<Rightarrow> store" where
  "sees_in_tx k fs now c =
     \<lparr>db = (committed c)\<lparr>executions := overlay (own (pollers c ! k)) (executions (committed c))\<rparr>, snap = Some (committed c),
      aborted = broken (pollers c ! k), locked = held_by_others k c, faults = fs, clock = now, uuids = [], sch = cl_schema c\<rparr>"

definition sees_alone :: "nat \<Rightarrow> err option list \<Rightarrow> time \<Rightarrow> cluster \<Rightarrow> store" where
  "sees_alone k fs now c = \<lparr>db = committed c, snap = None, aborted = False, locked = held_by_others k c, faults = fs,
     clock = now, uuids = [], sch = cl_schema c\<rparr>"

definition at :: "nat \<Rightarrow> place \<Rightarrow> cluster \<Rightarrow> cluster" where
  "at k pl c = c\<lparr>pollers := (pollers c)[k := \<lparr>place = pl, own = [], broken = False\<rparr>]\<rparr>"

text \<open>In the transaction: the poller holds the rows \<open>held\<close>, as the statement left them.\<close>

definition holding :: "nat \<Rightarrow> place \<Rightarrow> string list \<Rightarrow> store \<Rightarrow> cluster \<Rightarrow> cluster" where
  "holding k pl held \<sigma> c = c\<lparr>pollers := (pollers c)[k :=
     \<lparr>place = pl, own = filter (\<lambda>r. e_ID r \<in> set held) (executions (db \<sigma>)), broken = aborted \<sigma>\<rparr>]\<rparr>"

definition commit_claims :: "nat \<Rightarrow> Execution list \<Rightarrow> store \<Rightarrow> cluster \<Rightarrow> cluster" where
  "commit_claims k exes \<sigma> c =
     (case Commit True \<sigma> of
        (Some e, \<sigma>1) \<Rightarrow> at k Idle c
      | (None, \<sigma>1) \<Rightarrow> at k (Starting exes) (c\<lparr>committed := db \<sigma>1\<rparr>))"

subsection \<open>One statement of a poller\<close>

text \<open>The round of \<open>poll\<close> or, with the id \<open>job\<close> from the queue, of \<open>processExecutionByID\<close>.\<close>

definition turn :: "nat \<Rightarrow> string option \<Rightarrow> err option list \<Rightarrow> time \<Rightarrow> cluster \<Rightarrow> cluster" where
  "turn k job fs now c =
     (let p = pollers c ! k; \<sigma> = sees_in_tx k fs now c in
      case place p of
        Idle \<Rightarrow>
          (case Begin '''' (sees_alone k fs now c) of
             (Some e, \<sigma>1) \<Rightarrow> c
           | (None, \<sigma>1) \<Rightarrow> at k (Begun job) c)
      | Begun None \<Rightarrow>
          (case exec_AcquireForWorker 5 \<sigma> of
             (Inl e, \<sigma>1) \<Rightarrow> at k Idle c
           | (Inr exes, \<sigma>1) \<Rightarrow> (if exes = [] then at k Idle c else holding k (Claiming exes []) (map e_ID exes) \<sigma>1 c))
      | Begun (Some i) \<Rightarrow>
          (case exec_AcquireByIDForWorker i \<sigma> of
             (Inl e, \<sigma>1) \<Rightarrow> at k Idle c
           | (Inr exe, \<sigma>1) \<Rightarrow> holding k (Taken exe) [e_ID exe] \<sigma>1 c)
      | Claiming [] claims \<Rightarrow> commit_claims k claims \<sigma> c
      | Claiming (exe # exes) claims \<Rightarrow>
          (case claim_execution exe \<sigma> of
             (exe', \<sigma>1) \<Rightarrow> holding k (Claiming exes (claims @ [exe'])) (held_ids p) \<sigma>1 c)
      | Taken exe \<Rightarrow>
          (case exec_Update (e_ID exe) (e_Version exe) [(''status'', TextV StatusExecutionRunning)] \<sigma> of
             (Some e, \<sigma>1) \<Rightarrow> at k Idle c
           | (None, \<sigma>1) \<Rightarrow> holding k (Claiming [] [exe\<lparr>e_Version := wrap64 (e_Version exe + 1)\<rparr>]) (held_ids p) \<sigma>1 c)
      | Starting [] \<Rightarrow> at k Idle c
      | Starting (exe # exes) \<Rightarrow>
          (case wf_Get [(''id'', TextV (e_WorkflowID exe))] (sees_alone k fs now c) of
             (Inl e, \<sigma>1) \<Rightarrow> at k (Failing exe exes) c
           | (Inr wfl, \<sigma>1) \<Rightarrow> at k (Starting exes) (c\<lparr>launched_runs := launched_runs c @ [(exe, wfl)]\<rparr>))
      | Failing exe exes \<Rightarrow>
          (case exec_Update (e_ID exe) (e_Version exe) [(''status'', TextV ''FAILED'')] (sees_alone k fs now c) of
             (r, \<sigma>1) \<Rightarrow> at k (Starting exes) (c\<lparr>committed := db \<sigma>1\<rparr>)))"

text \<open>An update outside a transaction waits for the transaction that holds the row.\<close>

definition waits :: "nat \<Rightarrow> cluster \<Rightarrow> bool" where
  "waits k c = (case place (pollers c ! k) of
     Failing exe exes \<Rightarrow> e_ID exe \<in> set (held_by_others k c) | _ \<Rightarrow> False)"

text \<open>The other processes: they leave the held rows alone, as their updates would wait for them, and take no
  execution back to an earlier version.\<close>

definition advanced :: "database \<Rightarrow> database \<Rightarrow> bool" where
  "advanced d d' \<longleftrightarrow> (keyed d \<longrightarrow> keyed d') \<and> (\<forall>i r. find (\<lambda>r. e_ID r = i) (executions d) = Some r \<longrightarrow>
     (\<exists>r'. find (\<lambda>r. e_ID r = i) (executions d') = Some r' \<and> e_Version r \<le> e_Version r'))"

definition leaves_held :: "cluster \<Rightarrow> database \<Rightarrow> bool" where
  "leaves_held c d \<longleftrightarrow> (\<forall>p \<in> set (pollers c). \<forall>i \<in> set (held_ids p).
     find (\<lambda>r. e_ID r = i) (executions d) = find (\<lambda>r. e_ID r = i) (executions (committed c)))"

inductive interleaved :: "cluster \<Rightarrow> cluster \<Rightarrow> bool" where
  statement: "k < length (pollers c) \<Longrightarrow> \<not> waits k c \<Longrightarrow> interleaved c (turn k job fs now c)"
| lost: "k < length (pollers c) \<Longrightarrow> interleaved c (at k Idle c)"
| others: "advanced (committed c) d \<Longrightarrow> leaves_held c d \<Longrightarrow> interleaved c (c\<lparr>committed := d\<rparr>)"

definition cluster_start :: "nat \<Rightarrow> database \<Rightarrow> schema \<Rightarrow> cluster" where
  "cluster_start n d sc = \<lparr>committed = d, pollers = replicate n \<lparr>place = Idle, own = [], broken = False\<rparr>,
     launched_runs = [], cl_schema = sc\<rparr>"

subsection \<open>What a transaction sees\<close>

definition drow :: "database \<Rightarrow> string \<Rightarrow> Execution option" where
  "drow d i = find (\<lambda>r. e_ID r = i) (executions d)"

definition orow :: "Execution list \<Rightarrow> string \<Rightarrow> Execution option" where
  "orow rows i = find (\<lambda>r. e_ID r = i) rows"

lemma execution_row_drow: "execution_row \<sigma> = drow (db \<sigma>)"
  by (simp add: execution_row_def drow_def fun_eq_iff)

lemma orow_id: "orow rows i = Some r \<Longrightarrow> e_ID r = i \<and> r \<in> set rows"
  by (auto simp: orow_def dest: find_SomeD)

lemma orow_None: "orow rows i = None \<longleftrightarrow> i \<notin> e_ID ` set rows"
  by (auto simp: orow_def find_None_iff2)

lemma orow_in: "distinct (map e_ID rows) \<Longrightarrow> r \<in> set rows \<Longrightarrow> orow rows (e_ID r) = Some r"
  unfolding orow_def by (rule find_unique_key)

lemma drow_id: "drow d i = Some r \<Longrightarrow> e_ID r = i \<and> r \<in> set (executions d)"
  by (auto simp: drow_def dest: find_SomeD)

lemma drow_in: "keyed d \<Longrightarrow> r \<in> set (executions d) \<Longrightarrow> drow d (e_ID r) = Some r"
  unfolding drow_def keyed_def by (rule find_unique_key) simp_all

lemma overlay_ids [simp]: "map e_ID (overlay rows xs) = map e_ID xs"
  by (auto simp: overlay_def dest!: find_SomeD split: option.split)

lemma overlay_drow:
  "drow (d\<lparr>executions := overlay rows (executions d)\<rparr>) i =
   (case drow d i of None \<Rightarrow> None | Some r \<Rightarrow> (case orow rows i of None \<Rightarrow> Some r | Some x \<Rightarrow> Some x))"
proof -
  have "find (\<lambda>r. e_ID r = i) (overlay rows xs) =
      (case find (\<lambda>r. e_ID r = i) xs of None \<Rightarrow> None | Some r \<Rightarrow> (case orow rows i of None \<Rightarrow> Some r | Some x \<Rightarrow> Some x))" for xs
    by (induction xs) (auto simp: overlay_def orow_def dest: find_SomeD split: option.split)
  then show ?thesis by (simp add: drow_def)
qed

lemma overlay_keyed:
  assumes "keyed d" "\<forall>x \<in> set rows. int4 (e_Version x)"
  shows "keyed (d\<lparr>executions := overlay rows (executions d)\<rparr>)"
proof -
  have "\<forall>r \<in> set (overlay rows (executions d)). int4 (e_Version r)"
    using assms by (auto simp: overlay_def keyed_def dest: find_SomeD split: option.split)
  with assms(1) show ?thesis by (simp add: keyed_def)
qed

subsection \<open>The invariant\<close>

text \<open>A claim in a transaction: the poller's own row is \<open>RUNNING\<close>, one version above the committed one.\<close>

definition taken :: "database \<Rightarrow> poller \<Rightarrow> Execution \<Rightarrow> bool" where
  "taken d p x \<longleftrightarrow> (\<exists>y r. orow (own p) (e_ID x) = Some y \<and> e_Version y = e_Version x \<and> e_Status y = StatusExecutionRunning \<and>
     drow d (e_ID x) = Some r \<and> e_Version x = e_Version r + 1)"

definition place_ok :: "database \<Rightarrow> poller \<Rightarrow> bool" where
  "place_ok d p \<longleftrightarrow> (case place p of
     Claiming todo claims \<Rightarrow> distinct (map e_ID (todo @ claims)) \<and> e_ID ` set (todo @ claims) = e_ID ` set (own p) \<and>
       (\<forall>x \<in> set todo. orow (own p) (e_ID x) = Some x \<and> drow d (e_ID x) = Some x) \<and>
       (\<not> broken p \<longrightarrow> (\<forall>x \<in> set claims. taken d p x))
   | Taken x \<Rightarrow> own p = [x] \<and> drow d (e_ID x) = Some x
   | _ \<Rightarrow> own p = [])"

definition poller_ok :: "database \<Rightarrow> poller \<Rightarrow> bool" where
  "poller_ok d p \<longleftrightarrow> place_ok d p \<and> distinct (held_ids p) \<and> (\<forall>x \<in> set (own p). int4 (e_Version x) \<and> drow d (e_ID x) \<noteq> None)"

text \<open>The claims a poller has committed and not yet started, and all claims handed out.\<close>

definition in_hand :: "poller \<Rightarrow> Execution list" where
  "in_hand p = (case place p of Starting xs \<Rightarrow> xs | Failing x xs \<Rightarrow> x # xs | _ \<Rightarrow> [])"

definition handed_out :: "cluster \<Rightarrow> Execution list" where
  "handed_out c = map fst (launched_runs c) @ concat (map in_hand (pollers c))"

definition key_of :: "Execution \<Rightarrow> string \<times> int" where
  "key_of x = (e_ID x, e_Version x)"

definition reached :: "database \<Rightarrow> Execution \<Rightarrow> bool" where
  "reached d x \<longleftrightarrow> (\<exists>r. drow d (e_ID x) = Some r \<and> e_Version x \<le> e_Version r)"

definition locks_disjoint :: "poller list \<Rightarrow> bool" where
  "locks_disjoint ps \<longleftrightarrow> distinct (concat (map held_ids ps))"

definition cluster_inv :: "cluster \<Rightarrow> bool" where
  "cluster_inv c \<longleftrightarrow> keyed (committed c) \<and> (\<forall>p \<in> set (pollers c). poller_ok (committed c) p) \<and> locks_disjoint (pollers c) \<and>
     (\<forall>x \<in> set (handed_out c). reached (committed c) x) \<and> distinct (map key_of (handed_out c))"

subsection \<open>Changing one poller\<close>

lemma concat_update:
  assumes "k < length xs"
  shows "mset (concat (map f (xs[k := y]))) + mset (f (xs ! k)) = mset (concat (map f xs)) + mset (f y)"
  using assms by (induction xs arbitrary: k) (auto split: nat.split)

lemma others_update:
  assumes "k < length (pollers c)"
  shows "mset (concat (map held_ids ((pollers c)[k := p]))) = mset (held_by_others k c) + mset (held_ids p)"
proof -
  have "mset (concat (map held_ids (((pollers c)[k := \<lparr>place = Idle, own = [], broken = False\<rparr>])[k := p]))) +
      mset (held_ids (((pollers c)[k := \<lparr>place = Idle, own = [], broken = False\<rparr>]) ! k)) =
    mset (held_by_others k c) + mset (held_ids p)"
    unfolding held_by_others_def by (rule concat_update) (simp add: assms)
  with assms show ?thesis by (simp add: held_ids_def)
qed

lemma others_disjoint:
  assumes "locks_disjoint (pollers c)" "k < length (pollers c)"
  shows "distinct (held_by_others k c)" "set (held_ids (pollers c ! k)) \<inter> set (held_by_others k c) = {}"
proof -
  have "mset (concat (map held_ids (pollers c))) = mset (held_by_others k c @ held_ids (pollers c ! k))"
    using others_update [OF assms(2), of "pollers c ! k"] by (simp add: list_update_id)
  then have "distinct (held_by_others k c @ held_ids (pollers c ! k))"
    using assms(1) mset_eq_imp_distinct_iff unfolding locks_disjoint_def by metis
  then show "distinct (held_by_others k c)" "set (held_ids (pollers c ! k)) \<inter> set (held_by_others k c) = {}" by auto
qed

lemma others_in:
  assumes "j < length (pollers c)" "j \<noteq> k"
  shows "set (held_ids (pollers c ! j)) \<subseteq> set (held_by_others k c)"
proof -
  let ?ps = "(pollers c)[k := \<lparr>place = Idle, own = [], broken = False\<rparr>]"
  have "pollers c ! j = ?ps ! j" using assms by simp
  then have "pollers c ! j \<in> set ?ps" using assms(1) by (metis length_list_update nth_mem)
  then show ?thesis unfolding held_by_others_def by auto
qed

text \<open>What a poller may rely on depends on the rows it holds only.\<close>

lemma poller_ok_frame:
  assumes "poller_ok d p" "\<forall>i \<in> set (held_ids p). drow d' i = drow d i"
  shows "poller_ok d' p"
proof -
  have own: "drow d' (e_ID x) = drow d (e_ID x)" if "e_ID x \<in> e_ID ` set (own p)" for x
    using assms(2) that by (auto simp: held_ids_def)
  have "place_ok d' p"
  proof (cases "place p")
    case (Claiming todo claims)
    then have "drow d' (e_ID x) = drow d (e_ID x)" if "x \<in> set todo \<or> x \<in> set claims" for x
      using assms(1) that by (intro own) (auto simp: poller_ok_def place_ok_def)
    then have "\<forall>x \<in> set todo. drow d' (e_ID x) = drow d (e_ID x)" "\<forall>x \<in> set claims. taken d' p x = taken d p x"
      by (auto simp: taken_def)
    with Claiming assms(1) show ?thesis by (simp add: poller_ok_def place_ok_def)
  next
    case (Taken x)
    then have "own p = [x]" "drow d (e_ID x) = Some x" using assms(1) by (auto simp: poller_ok_def place_ok_def)
    with own [of x] Taken show ?thesis by (simp add: place_ok_def)
  qed (use assms(1) own in \<open>auto simp: poller_ok_def place_ok_def\<close>)
  moreover have "\<forall>x \<in> set (own p). drow d' (e_ID x) = drow d (e_ID x)" using own by blast
  ultimately show ?thesis using assms(1) by (simp add: poller_ok_def)
qed

lemma distinct_submset: "distinct xs \<Longrightarrow> mset ys \<subseteq># mset xs \<Longrightarrow> distinct ys"
proof -
  assume a: "distinct xs" "mset ys \<subseteq># mset xs"
  have "count (mset ys) z = (if z \<in> set ys then 1 else 0)" for z
  proof -
    have "count (mset xs) z = (if z \<in> set xs then 1 else 0)" using a(1) by (simp only: distinct_count_atmost_1)
    then have "count (mset xs) z \<le> 1" by simp
    with mset_subset_eq_count [OF a(2), of z] have "count (mset ys) z \<le> 1" by (rule order_trans)
    moreover have "count (mset ys) z = 0 \<longleftrightarrow> z \<notin> set ys" by (rule count_mset_0_iff)
    ultimately show ?thesis by (cases "count (mset ys) z") simp_all
  qed
  then show "distinct ys" by (simp add: distinct_count_atmost_1)
qed

lemma inv_update:
  assumes inv: "cluster_inv c" and k: "k < length (pollers c)"
    and c': "pollers c' = (pollers c)[k := p']"
    and ok: "keyed (committed c')" "poller_ok (committed c') p'" "set (held_ids p') \<inter> set (held_by_others k c) = {}"
    and frame: "\<And>i. i \<in> set (held_by_others k c) \<Longrightarrow> drow (committed c') i = drow (committed c) i"
    and mono: "\<And>x. reached (committed c) x \<Longrightarrow> reached (committed c') x"
    and hand: "mset (map fst (launched_runs c')) + mset (in_hand p') \<subseteq>#
      mset (map fst (launched_runs c)) + mset (in_hand (pollers c ! k)) + mset new"
    and new: "distinct (map e_ID new)"
      "\<And>x. x \<in> set new \<Longrightarrow> reached (committed c') x \<and> (\<exists>r. drow (committed c) (e_ID x) = Some r \<and> e_Version r < e_Version x)"
  shows "cluster_inv c'"
proof -
  have I: "\<forall>p \<in> set (pollers c). poller_ok (committed c) p" "locks_disjoint (pollers c)"
    "\<forall>x \<in> set (handed_out c). reached (committed c) x" "distinct (map key_of (handed_out c))"
    using inv by (auto simp: cluster_inv_def)
  have "mset (handed_out c') + mset (in_hand (pollers c ! k)) \<subseteq># mset (handed_out c @ new) + mset (in_hand (pollers c ! k))"
    using hand concat_update [OF k, of in_hand p'] unfolding handed_out_def c'
    by (simp add: ac_simps)
  then have sub: "mset (handed_out c') \<subseteq># mset (handed_out c @ new)" by simp
  have "poller_ok (committed c') q" if q: "q \<in> set (pollers c')" for q
  proof -
    obtain j where "j < length (pollers c')" "q = pollers c' ! j" using q by (auto simp: in_set_conv_nth)
    then have j: "j < length (pollers c)" "q = (if j = k then p' else pollers c ! j)" using k by (auto simp: c' nth_list_update)
    show ?thesis
    proof (cases "j = k")
      case False
      with j others_in [OF j(1) False] frame poller_ok_frame [of "committed c" "pollers c ! j" "committed c'"] I(1)
      show ?thesis by auto
    qed (use j ok in simp)
  qed
  moreover have "locks_disjoint (pollers c')"
  proof -
    have "mset (concat (map held_ids (pollers c'))) = mset (held_by_others k c @ held_ids p')"
      using others_update [OF k, of p'] by (simp add: c')
    moreover have "distinct (held_by_others k c @ held_ids p')"
      using others_disjoint(1) [OF I(2) k] ok(2,3) by (auto simp: poller_ok_def)
    ultimately show ?thesis unfolding locks_disjoint_def using mset_eq_imp_distinct_iff by metis
  qed
  moreover have "reached (committed c') x" if "x \<in> set (handed_out c')" for x
  proof -
    have "x \<in> set (handed_out c @ new)" using mset_subset_eqD [OF sub] that by (metis set_mset_mset)
    with I(3) mono new(2) show ?thesis by auto
  qed
  moreover have "distinct (map key_of (handed_out c'))"
  proof (rule distinct_submset)
    show "mset (map key_of (handed_out c')) \<subseteq># mset (map key_of (handed_out c @ new))"
      using image_mset_subseteq_mono [OF sub, of key_of] by simp
    have "key_of x \<noteq> key_of y" if "x \<in> set (handed_out c)" "y \<in> set new" for x y
    proof
      assume "key_of x = key_of y"
      then have e: "e_ID x = e_ID y" "e_Version x = e_Version y" by (auto simp: key_of_def)
      with I(3) that new(2) show False by (fastforce simp: reached_def)
    qed
    then have "key_of ` set (handed_out c) \<inter> key_of ` set new = {}" by (intro equals0I) (elim IntE imageE, simp)
    moreover have "distinct (map key_of new)"
      using new(1) by (auto simp: distinct_map key_of_def inj_on_def)
    ultimately show "distinct (map key_of (handed_out c @ new))" using I(4) by auto
  qed
  ultimately show ?thesis using ok(1) by (simp add: cluster_inv_def)
qed

subsection \<open>The statements keep the invariant\<close>

lemma invD:
  assumes "cluster_inv c" "k < length (pollers c)"
  shows "keyed (committed c)" "poller_ok (committed c) (pollers c ! k)" "locks_disjoint (pollers c)"
    "set (held_ids (pollers c ! k)) \<inter> set (held_by_others k c) = {}"
  using assms others_disjoint(2) [of c k] by (auto simp: cluster_inv_def)

lemma tx_view:
  assumes "cluster_inv c" "k < length (pollers c)"
  shows "execution_inv (sees_in_tx k fs now c)" "snap (sees_in_tx k fs now c) = Some (committed c)"
    "aborted (sees_in_tx k fs now c) = broken (pollers c ! k)"
    "execution_row (sees_in_tx k fs now c) i =
      (case orow (own (pollers c ! k)) i of None \<Rightarrow> drow (committed c) i | Some x \<Rightarrow> Some x)"
proof -
  note I = invD [OF assms]
  show "execution_inv (sees_in_tx k fs now c)"
    using I(2) overlay_keyed [OF I(1), of "own (pollers c ! k)"] by (simp add: sees_in_tx_def execution_inv_keyed poller_ok_def)
  have "drow (committed c) i \<noteq> None" if "orow (own (pollers c ! k)) i = Some x" for x
    using I(2) orow_id [OF that] by (auto simp: poller_ok_def)
  then show "execution_row (sees_in_tx k fs now c) i =
      (case orow (own (pollers c ! k)) i of None \<Rightarrow> drow (committed c) i | Some x \<Rightarrow> Some x)"
    by (cases "orow (own (pollers c ! k)) i") (auto simp: execution_row_drow sees_in_tx_def overlay_drow split: option.split)
qed (simp_all add: sees_in_tx_def)

lemma orow_filter:
  "orow (filter (\<lambda>r. e_ID r \<in> set held) xs) i = (if i \<in> set held then orow xs i else None)"
  by (induction xs) (auto simp: orow_def)

lemma execution_row_orow: "execution_row \<sigma> i = orow (executions (db \<sigma>)) i"
  by (simp add: execution_row_def orow_def)

text \<open>The rows a transaction holds after a statement.\<close>

lemma holding_rows:
  assumes "execution_inv \<sigma>" "\<And>i. i \<in> set held \<Longrightarrow> execution_row \<sigma> i \<noteq> None"
  defines "rows \<equiv> filter (\<lambda>r. e_ID r \<in> set held) (executions (db \<sigma>))"
  shows "distinct (map e_ID rows)" "e_ID ` set rows = set held" "\<forall>x \<in> set rows. int4 (e_Version x)"
    "i \<in> set held \<Longrightarrow> orow rows i = execution_row \<sigma> i"
proof -
  have "distinct (map e_ID (executions (db \<sigma>)))" using assms(1) by (simp add: execution_inv_def)
  then show "distinct (map e_ID rows)" by (simp add: rows_def distinct_map_filter)
  show "e_ID ` set rows = set held"
  proof
    show "set held \<subseteq> e_ID ` set rows"
    proof
      fix i assume i: "i \<in> set held"
      then obtain r where "orow (executions (db \<sigma>)) i = Some r" using assms(2) by (auto simp: execution_row_orow)
      with i orow_id [OF this] show "i \<in> e_ID ` set rows" by (force simp: rows_def)
    qed
  qed (auto simp: rows_def)
  show "\<forall>x \<in> set rows. int4 (e_Version x)" using assms(1) by (auto simp: rows_def execution_inv_def)
  show "i \<in> set held \<Longrightarrow> orow rows i = execution_row \<sigma> i" by (simp add: rows_def orow_filter execution_row_orow)
qed

lemma at_inv:
  assumes "cluster_inv c" "k < length (pollers c)" "place_ok (committed c) \<lparr>place = pl, own = [], broken = False\<rparr>"
    and "mset (in_hand \<lparr>place = pl, own = [], broken = False\<rparr>) \<subseteq># mset (in_hand (pollers c ! k))"
  shows "cluster_inv (at k pl c)"
  by (rule inv_update [OF assms(1,2), where p' = "\<lparr>place = pl, own = [], broken = False\<rparr>" and new = "[]"])
    (use assms invD [OF assms(1,2)] in \<open>auto simp: at_def poller_ok_def held_ids_def\<close>)

lemma idle_inv:
  assumes "cluster_inv c" "k < length (pollers c)"
  shows "cluster_inv (at k Idle c)" "cluster_inv (at k (Begun job) c)"
  by (rule at_inv [OF assms]; simp add: place_ok_def in_hand_def)+

lemma holding_inv:
  assumes inv: "cluster_inv c" "k < length (pollers c)" and \<sigma>: "execution_inv \<sigma>"
    and held: "\<And>i. i \<in> set held \<Longrightarrow> execution_row \<sigma> i \<noteq> None \<and> drow (committed c) i \<noteq> None \<and> i \<notin> set (held_by_others k c)"
    and pl: "in_hand \<lparr>place = pl, own = [], broken = False\<rparr> = []"
    and ok: "place_ok (committed c) \<lparr>place = pl, own = filter (\<lambda>r. e_ID r \<in> set held) (executions (db \<sigma>)), broken = aborted \<sigma>\<rparr>"
  shows "cluster_inv (holding k pl held \<sigma> c)"
proof -
  let ?p = "\<lparr>place = pl, own = filter (\<lambda>r. e_ID r \<in> set held) (executions (db \<sigma>)), broken = aborted \<sigma>\<rparr>"
  note H = holding_rows [OF \<sigma>, of held] invD [OF inv]
  have "\<forall>i. i \<in> set held \<longrightarrow> execution_row \<sigma> i \<noteq> None" using held by blast
  note H' = H(1-3) [OF this [rule_format]]
  have "set (held_ids ?p) = set held" using H'(2) by (simp add: held_ids_def)
  moreover have "poller_ok (committed c) ?p"
    unfolding poller_ok_def using ok H' held by (auto simp: held_ids_def)
  moreover have "in_hand ?p = []" using pl by (simp add: in_hand_def split: place.splits)
  ultimately show ?thesis
    using held H(5)
    by (intro inv_update [OF inv, where p' = ?p and new = "[]"]) (auto simp: holding_def)
qed

lemma acquire_inv:
  assumes inv: "cluster_inv c" "k < length (pollers c)" and pl: "place (pollers c ! k) = Begun None"
    and a: "exec_AcquireForWorker 5 (sees_in_tx k fs now c) = (Inr exes, \<sigma>1)"
  shows "cluster_inv (holding k (Claiming exes []) (map e_ID exes) \<sigma>1 c)"
proof -
  let ?\<sigma> = "sees_in_tx k fs now c"
  have own: "own (pollers c ! k) = []" using invD(2) [OF inv] pl by (simp add: poller_ok_def place_ok_def)
  note V = tx_view [OF inv, where fs = fs and now = now]
  note A = acquired_rows [OF a V(1)]
  have row: "execution_row \<sigma>1 i = drow (committed c) i" for i
    using A V(4) [of i] by (simp add: own orow_def execution_row_def)
  have inv1: "execution_inv \<sigma>1" using A V(1) by (simp add: execution_inv_def)
  have x: "drow (committed c) (e_ID x) = Some x \<and> e_ID x \<notin> set (held_by_others k c)" if "x \<in> set exes" for x
  proof -
    have "execution_row ?\<sigma> (e_ID x) = Some x" "e_ID x \<notin> set (locked ?\<sigma>)" using A that by auto
    then show ?thesis using V(4) [of "e_ID x"] by (simp add: own orow_def sees_in_tx_def)
  qed
  let ?own = "filter (\<lambda>r. e_ID r \<in> set (map e_ID exes)) (executions (db \<sigma>1))"
  have rows: "execution_row \<sigma>1 i \<noteq> None" if "i \<in> set (map e_ID exes)" for i using that row x by auto
  have own1: "e_ID ` set ?own = e_ID ` set exes" using holding_rows(2) [where held = "map e_ID exes", OF inv1 rows] by simp
  have all: "orow ?own (e_ID y) = Some y \<and> drow (committed c) (e_ID y) = Some y" if y: "y \<in> set exes" for y
  proof -
    have "orow ?own (e_ID y) = execution_row \<sigma>1 (e_ID y)" by (rule holding_rows(4) [where held = "map e_ID exes", OF inv1 rows]) (use y in simp_all)
    then show ?thesis using row x y by simp
  qed
  show ?thesis
  proof (rule holding_inv [OF inv inv1])
    show "execution_row \<sigma>1 i \<noteq> None \<and> drow (committed c) i \<noteq> None \<and> i \<notin> set (held_by_others k c)"
      if "i \<in> set (map e_ID exes)" for i using that row x by auto
    show "place_ok (committed c) \<lparr>place = Claiming exes [], own = filter (\<lambda>r. e_ID r \<in> set (map e_ID exes)) (executions (db \<sigma>1)),
        broken = aborted \<sigma>1\<rparr>"
      using A own1 all by (simp add: place_ok_def)
  qed (simp add: in_hand_def)
qed

lemma filter_key_one:
  "distinct (map key xs) \<Longrightarrow> x \<in> set xs \<Longrightarrow> filter (\<lambda>r. key r = key x) xs = [x]"
  by (induction xs) (auto simp: filter_empty_conv dest: sym)

lemma acquire_one_inv:
  assumes inv: "cluster_inv c" "k < length (pollers c)" and pl: "place (pollers c ! k) = Begun (Some i)"
    and a: "exec_AcquireByIDForWorker i (sees_in_tx k fs now c) = (Inr exe, \<sigma>1)"
  shows "cluster_inv (holding k (Taken exe) [e_ID exe] \<sigma>1 c)"
proof -
  let ?\<sigma> = "sees_in_tx k fs now c"
  have own: "own (pollers c ! k) = []" using invD(2) [OF inv] pl by (simp add: poller_ok_def place_ok_def)
  note V = tx_view [OF inv, where fs = fs and now = now]
  note A = acquired_by_id [OF a V(1)]
  have x: "execution_row ?\<sigma> (e_ID exe) = Some exe" "drow (committed c) (e_ID exe) = Some exe"
    "e_ID exe \<notin> set (held_by_others k c)"
    using A V(4) [of "e_ID exe"] by (auto simp: own orow_def sees_in_tx_def)
  have inv1: "execution_inv \<sigma>1" "execution_row \<sigma>1 = execution_row ?\<sigma>"
    using A V(1) by (auto simp: execution_inv_def execution_row_def)
  have "orow (executions (db \<sigma>1)) (e_ID exe) = Some exe" using x(1) unfolding execution_row_orow [symmetric] inv1(2) .
  then have "distinct (map e_ID (executions (db \<sigma>1)))" "exe \<in> set (executions (db \<sigma>1))"
    using inv1(1) orow_id by (simp_all add: execution_inv_def)
  from filter_key_one [OF this] have f: "filter (\<lambda>r. e_ID r \<in> set [e_ID exe]) (executions (db \<sigma>1)) = [exe]" by simp
  show ?thesis
  proof (rule holding_inv [OF inv inv1(1)])
    show "place_ok (committed c) \<lparr>place = Taken exe, own = filter (\<lambda>r. e_ID r \<in> set [e_ID exe]) (executions (db \<sigma>1)),
        broken = aborted \<sigma>1\<rparr>" unfolding f using x by (simp add: place_ok_def)
  qed (use x inv1(2) in \<open>auto simp: in_hand_def\<close>)
qed

lemma claim_execution_id: "claim_execution exe \<sigma> = (exe', \<sigma>') \<Longrightarrow> e_ID exe' = e_ID exe"
  by (auto simp: claim_execution_def split: prod.splits option.splits)

lemma claim_inv:
  assumes inv: "cluster_inv c" "k < length (pollers c)"
    and pl: "place_ok (committed c) \<lparr>place = Claiming (exe # exes) claims, own = own (pollers c ! k), broken = broken (pollers c ! k)\<rparr>"
    and a: "claim_execution exe (sees_in_tx k fs now c) = (exe', \<sigma>1)"
  shows "cluster_inv (holding k (Claiming exes (claims @ [exe'])) (held_ids (pollers c ! k)) \<sigma>1 c)"
proof -
  let ?\<sigma> = "sees_in_tx k fs now c" and ?p = "pollers c ! k"
  let ?own = "filter (\<lambda>r. e_ID r \<in> set (held_ids ?p)) (executions (db \<sigma>1))"
  note V = tx_view [OF inv, where fs = fs and now = now]
  have P: "distinct (map e_ID ((exe # exes) @ claims))" "e_ID ` set ((exe # exes) @ claims) = e_ID ` set (own ?p)"
    "\<forall>x \<in> set (exe # exes). orow (own ?p) (e_ID x) = Some x \<and> drow (committed c) (e_ID x) = Some x"
    "\<not> broken ?p \<longrightarrow> (\<forall>x \<in> set claims. taken (committed c) ?p x)"
    using pl by (simp_all add: place_ok_def taken_def)
  have row: "execution_row ?\<sigma> (e_ID exe) = Some exe" using P(3) V(4) [of "e_ID exe"] by simp
  have "snap ?\<sigma> \<noteq> None" using V(2) by simp
  note C = claim_execution_result [OF a V(1) this row]
  have id: "e_ID exe' = e_ID exe" by (rule claim_execution_id [OF a])
  have other: "execution_row \<sigma>1 i = orow (own ?p) i" if "i \<in> set (held_ids ?p)" "i \<noteq> e_ID exe" for i
  proof -
    have "orow (own ?p) i \<noteq> None" using that(1) by (auto simp: orow_None held_ids_def)
    with C that(2) V(4) [of i] show ?thesis by (cases "orow (own ?p) i") auto
  qed
  have here: "execution_row \<sigma>1 i \<noteq> None \<and> drow (committed c) i \<noteq> None \<and> i \<notin> set (held_by_others k c)"
    if i: "i \<in> set (held_ids ?p)" for i
  proof -
    have "orow (own ?p) i \<noteq> None" using i by (auto simp: orow_None held_ids_def)
    then obtain r where "execution_row ?\<sigma> i = Some r" using V(4) [of i] by auto
    then have "execution_row \<sigma>1 i \<noteq> None"
      using claim_execution_forwards [of ?\<sigma> exe] V(1) a by (auto simp: forwards_def)
    moreover have "drow (committed c) i \<noteq> None" using invD(2) [OF inv] i by (auto simp: poller_ok_def held_ids_def)
    ultimately show ?thesis using invD(4) [OF inv] i by auto
  qed
  have inv1: "execution_inv \<sigma>1" using C by simp
  note H = holding_rows [OF inv1, of "held_ids ?p"]
  have own1: "orow ?own i = execution_row \<sigma>1 i" if "i \<in> set (held_ids ?p)" for i
    using here that by (intro H(4)) auto
  have held: "set (held_ids ?p) = e_ID ` set ((exe # exes) @ claims)" using P(2) by (simp add: held_ids_def)
  show ?thesis
  proof (rule holding_inv [OF inv inv1 here])
    let ?q = "\<lparr>place = Claiming exes (claims @ [exe']), own = ?own, broken = aborted \<sigma>1\<rparr>"
    have "e_ID ` set ?own = set (held_ids ?p)" using here by (intro H(2)) auto
    moreover have "orow ?own (e_ID x) = Some x \<and> drow (committed c) (e_ID x) = Some x" if x: "x \<in> set exes" for x
    proof -
      have "e_ID x \<in> set (held_ids ?p)" "e_ID x \<noteq> e_ID exe" using imageI [OF x, of e_ID] P(1) held by auto
      then show ?thesis using own1 other P(3) x by simp
    qed
    moreover have "taken (committed c) ?q x" if "\<not> aborted \<sigma>1" "x \<in> set claims" for x
    proof -
      have "\<not> broken ?p" using C V(3) that(1) by auto
      then have t: "taken (committed c) ?p x" using P(4) that(2) by blast
      have "e_ID x \<in> set (held_ids ?p)" "e_ID x \<noteq> e_ID exe" using imageI [OF that(2), of e_ID] P(1) held by auto
      then have "orow ?own (e_ID x) = orow (own ?p) (e_ID x)" using own1 other by simp
      with t show ?thesis by (simp add: taken_def)
    qed
    moreover have "taken (committed c) ?q exe'" if "\<not> aborted \<sigma>1"
    proof -
      have e: "exe' = exe\<lparr>e_Version := e_Version exe + 1\<rparr>" "claimed \<sigma>1 exe'" using C that by auto
      have "e_ID exe \<in> set (held_ids ?p)" using held by simp
      with e own1 id P(3) show ?thesis by (auto simp: taken_def claimed_def)
    qed
    ultimately show "place_ok (committed c) ?q"
      using P(1) held id by (auto simp: place_ok_def)
  qed (simp_all add: in_hand_def)
qed

lemma commit_inv:
  assumes inv: "cluster_inv c" "k < length (pollers c)" and pl: "place (pollers c ! k) = Claiming [] claims"
  shows "cluster_inv (commit_claims k claims (sees_in_tx k fs now c) c)"
proof -
  let ?\<sigma> = "sees_in_tx k fs now c" and ?p = "pollers c ! k"
  note V = tx_view [OF inv, where fs = fs and now = now] and I = invD [OF inv]
  obtain r \<sigma>1 where m: "Commit True ?\<sigma> = (r, \<sigma>1)" by fastforce
  show ?thesis
  proof (cases r)
    case (Some e)
    with m idle_inv [OF inv] show ?thesis by (simp add: commit_claims_def)
  next
    case None
    have d: "db \<sigma>1 = db ?\<sigma>" "\<not> broken ?p"
      using m None V(2,3) by (auto simp: Commit_def Let_def split: list.splits option.splits if_splits)
    have P: "distinct (map e_ID claims)" "e_ID ` set claims = set (held_ids ?p)" "\<forall>x \<in> set claims. taken (committed c) ?p x"
      using I(2) pl d(2) by (auto simp: poller_ok_def place_ok_def held_ids_def)
    have row: "drow (db \<sigma>1) i = (case orow (own ?p) i of None \<Rightarrow> drow (committed c) i | Some x \<Rightarrow> Some x)" for i
      using V(4) [of i] by (simp add: d(1) execution_row_drow)
    have claim: "\<exists>y r. drow (db \<sigma>1) (e_ID x) = Some y \<and> e_Version y = e_Version x \<and> drow (committed c) (e_ID x) = Some r \<and>
        e_Version x = e_Version r + 1" if "x \<in> set claims" for x
      using P(3) that row [of "e_ID x"] by (auto simp: taken_def)
    have free: "orow (own ?p) i = None" if "i \<in> set (held_by_others k c) \<or> i \<notin> e_ID ` set claims" for i
      using that I(4) P(2) by (auto simp: orow_None held_ids_def)
    let ?c = "at k (Starting claims) (c\<lparr>committed := db \<sigma>1\<rparr>)"
    have "cluster_inv ?c"
    proof (rule inv_update [OF inv, where p' = "\<lparr>place = Starting claims, own = [], broken = False\<rparr>" and new = claims])
      show "keyed (committed ?c)" using V(1) d(1) by (simp add: at_def execution_inv_keyed)
      show "drow (committed ?c) i = drow (committed c) i" if "i \<in> set (held_by_others k c)" for i
        using free [of i] that row [of i] by (simp add: at_def)
      show "reached (committed ?c) x" if "reached (committed c) x" for x
      proof (cases "e_ID x \<in> e_ID ` set claims")
        case True
        then obtain z where z: "z \<in> set claims" "e_ID z = e_ID x" by auto
        from claim [OF z(1)] z(2) that show ?thesis by (auto simp: at_def reached_def)
      next
        case False
        with free [of "e_ID x"] row [of "e_ID x"] that show ?thesis by (simp add: at_def reached_def)
      qed
      show "reached (committed ?c) x \<and> (\<exists>r. drow (committed c) (e_ID x) = Some r \<and> e_Version r < e_Version x)"
        if "x \<in> set claims" for x using claim [OF that] by (auto simp: at_def reached_def)
      show "poller_ok (committed ?c) \<lparr>place = Starting claims, own = [], broken = False\<rparr>"
        by (simp add: poller_ok_def place_ok_def held_ids_def)
    qed (use P(1) pl in \<open>simp_all add: at_def held_ids_def in_hand_def\<close>)
    with m None show ?thesis by (simp add: commit_claims_def)
  qed
qed

lemma start_inv:
  assumes inv: "cluster_inv c" "k < length (pollers c)" and pl: "place (pollers c ! k) = Starting (exe # exes)"
  shows "cluster_inv (at k (Starting exes) (c\<lparr>launched_runs := launched_runs c @ [(exe, wfl)]\<rparr>))"
    (is "cluster_inv ?c")
  by (rule inv_update [OF inv, where p' = "\<lparr>place = Starting exes, own = [], broken = False\<rparr>" and new = "[]"])
    (use pl invD [OF inv] in \<open>simp_all add: at_def poller_ok_def place_ok_def held_ids_def in_hand_def\<close>)

lemma fail_inv:
  assumes inv: "cluster_inv c" "k < length (pollers c)" and pl: "place (pollers c ! k) = Failing exe exes"
    and free: "e_ID exe \<notin> set (held_by_others k c)"
    and u: "exec_Update (e_ID exe) (e_Version exe) [(''status'', TextV ''FAILED'')] (sees_alone k fs now c) = (r, \<sigma>1)"
  shows "cluster_inv (at k (Starting exes) (c\<lparr>committed := db \<sigma>1\<rparr>))" (is "cluster_inv ?c")
proof -
  let ?\<sigma> = "sees_alone k fs now c"
  have p: "proper [(''status'', TextV ''FAILED'')]" by (simp add: proper_def)
  have i: "execution_inv ?\<sigma>" using invD(1) [OF inv] by (simp add: execution_inv_keyed sees_alone_def)
  have row: "execution_row ?\<sigma> = drow (committed c)" "execution_row \<sigma>1 = drow (db \<sigma>1)"
    by (simp_all add: execution_row_drow sees_alone_def)
  have i1: "execution_inv \<sigma>1" by (rule execs.upd_inv [OF i p u])
  have f: "forwards ?\<sigma> \<sigma>1" using forwards_exec_Update [OF p, of ?\<sigma> "e_ID exe" "e_Version exe"] u by simp
  have o: "drow (db \<sigma>1) j = drow (committed c) j" if "j \<noteq> e_ID exe" for j
    using execs.upd_other [OF i p u that] row by simp
  show ?thesis
  proof (rule inv_update [OF inv, where p' = "\<lparr>place = Starting exes, own = [], broken = False\<rparr>" and new = "[]"])
    show "keyed (committed ?c)" using i1 by (simp add: at_def execution_inv_keyed)
    show "drow (committed ?c) j = drow (committed c) j" if "j \<in> set (held_by_others k c)" for j
    proof -
      have "j \<noteq> e_ID exe" using that free by blast
      from o [OF this] show ?thesis by (simp add: at_def)
    qed
    show "reached (committed ?c) x" if "reached (committed c) x" for x
      using that f i row by (fastforce simp: at_def reached_def forwards_def)
  qed (use pl in \<open>simp_all add: at_def poller_ok_def place_ok_def held_ids_def in_hand_def\<close>)
qed

lemma turn_inv:
  assumes inv: "cluster_inv c" "k < length (pollers c)" and w: "\<not> waits k c"
  shows "cluster_inv (turn k job fs now c)"
proof (cases "place (pollers c ! k)")
  case Idle
  with inv idle_inv [OF inv] show ?thesis by (simp add: turn_def Let_def split: prod.split option.split)
next
  case (Begun j)
  with acquire_inv [OF inv] acquire_one_inv [OF inv] idle_inv [OF inv] show ?thesis
    by (cases j) (auto simp: turn_def Let_def split: prod.split sum.split)
next
  case (Claiming todo claims)
  show ?thesis
  proof (cases todo)
    case Nil
    with Claiming commit_inv [OF inv] show ?thesis by (simp add: turn_def Let_def)
  next
    case (Cons exe exes)
    have "place_ok (committed c) \<lparr>place = Claiming (exe # exes) claims, own = own (pollers c ! k), broken = broken (pollers c ! k)\<rparr>"
      using invD(2) [OF inv] Claiming Cons by (simp add: poller_ok_def place_ok_def taken_def)
    from claim_inv [OF inv this] Claiming Cons show ?thesis by (simp add: turn_def Let_def split: prod.split)
  qed
next
  case (Taken exe)
  have "place_ok (committed c) \<lparr>place = Claiming [exe] [], own = own (pollers c ! k), broken = broken (pollers c ! k)\<rparr>"
    using invD(2) [OF inv] Taken by (simp add: poller_ok_def place_ok_def orow_def)
  note C = claim_inv [OF inv this]
  obtain r \<sigma>1 where u: "exec_Update (e_ID exe) (e_Version exe) [(''status'', TextV StatusExecutionRunning)] (sees_in_tx k fs now c) = (r, \<sigma>1)"
    by fastforce
  show ?thesis
  proof (cases r)
    case None
    with u have "claim_execution exe (sees_in_tx k fs now c) = (exe\<lparr>e_Version := wrap64 (e_Version exe + 1)\<rparr>, \<sigma>1)"
      by (simp add: claim_execution_def)
    from C [OF this] u None Taken show ?thesis by (simp add: turn_def Let_def)
  qed (use u Taken idle_inv [OF inv] in \<open>simp add: turn_def Let_def\<close>)
next
  case (Starting exes)
  with idle_inv [OF inv] start_inv [OF inv] show ?thesis
    by (cases exes) (auto simp: turn_def Let_def place_ok_def in_hand_def intro!: at_inv [OF inv] split: prod.split sum.split)
next
  case (Failing exe exes)
  with w fail_inv [OF inv] show ?thesis by (auto simp: turn_def Let_def waits_def split: prod.split)
qed

lemma interleaved_inv:
  assumes "interleaved c c'" "cluster_inv c"
  shows "cluster_inv c'"
  using assms
proof (cases rule: interleaved.cases)
  case (others d)
  have drow: "drow d i = drow (committed c) i" if "p \<in> set (pollers c)" "i \<in> set (held_ids p)" for p i
    using others(3) that by (auto simp: leaves_held_def drow_def)
  have "reached d x" if "reached (committed c) x" for x
    using that others(2) by (fastforce simp: reached_def advanced_def drow_def)
  moreover have "poller_ok d p" if "p \<in> set (pollers c)" for p
    by (rule poller_ok_frame [of "committed c"]) (use assms(2) that drow in \<open>auto simp: cluster_inv_def\<close>)
  ultimately show ?thesis using others(1,2) assms(2) by (auto simp: cluster_inv_def advanced_def handed_out_def)
qed (use assms(2) turn_inv idle_inv in auto)

lemma interleavings_inv: "interleaved\<^sup>*\<^sup>* c c' \<Longrightarrow> cluster_inv c \<Longrightarrow> cluster_inv c'"
  by (induction rule: rtranclp_induct) (auto intro: interleaved_inv)

lemma start_inv_holds: "keyed d \<Longrightarrow> cluster_inv (cluster_start n d sc)"
proof -
  assume "keyed d"
  moreover have "concat (replicate n []) = []" by (induction n) auto
  ultimately show ?thesis
    by (auto simp: cluster_inv_def cluster_start_def poller_ok_def place_ok_def held_ids_def locks_disjoint_def handed_out_def
        in_hand_def map_replicate_const)
qed

subsection \<open>Claims under interleaving\<close>

text \<open>C9: Claims hold under any interleaving: whatever the order in which the statements of any number of pollers reach the
  database, with statements that fail, commits that fail, connections that break and other processes that write
  in between, no two transactions hold the same row, no two runs ever launched carry the same execution with the same
  version, and the row of every launched run has at least the version the run carries.\<close>

theorem interleaved_claims:
  assumes "keyed d" "interleaved\<^sup>*\<^sup>* (cluster_start n d sc) c"
  shows "distinct (concat (map held_ids (pollers c))) \<and>
    distinct (map (\<lambda>(x, wfl). (e_ID x, e_Version x)) (launched_runs c)) \<and>
    (\<forall>(x, wfl) \<in> set (launched_runs c). \<exists>r. find (\<lambda>r. e_ID r = e_ID x) (executions (committed c)) = Some r \<and> e_Version x \<le> e_Version r)"
proof -
  have inv: "cluster_inv c" by (rule interleavings_inv [OF assms(2) start_inv_holds [OF assms(1)]])
  then have "distinct (map key_of (map fst (launched_runs c)))" by (simp add: cluster_inv_def handed_out_def)
  then have "distinct (map (\<lambda>(x, wfl). (e_ID x, e_Version x)) (launched_runs c))"
    by (simp add: key_of_def comp_def split_def)
  moreover have "reached (committed c) x" if "(x, wfl) \<in> set (launched_runs c)" for x wfl
  proof -
    have "x \<in> fst ` set (launched_runs c)" using imageI [OF that, of fst] by simp
    then have "x \<in> set (handed_out c)" by (simp add: handed_out_def)
    then show ?thesis using inv by (simp add: cluster_inv_def)
  qed
  then have "\<forall>(x, wfl) \<in> set (launched_runs c). \<exists>r. find (\<lambda>r. e_ID r = e_ID x) (executions (committed c)) = Some r \<and> e_Version x \<le> e_Version r"
    unfolding reached_def drow_def by blast
  moreover have "distinct (concat (map held_ids (pollers c)))" using inv by (simp add: cluster_inv_def locks_disjoint_def)
  ultimately show ?thesis by blast
qed

text \<open>Two pollers that take turns on seven pending executions: the second skips the rows the first holds.\<close>

fun turns :: "nat list \<Rightarrow> cluster \<Rightarrow> cluster option" where
  "turns [] c = Some c"
| "turns (k # ks) c = (if k < length (pollers c) \<and> \<not> waits k c then turns ks (turn k None [] 2000 c) else None)"

lemma turns_interleaved: "turns ks c = Some c' \<Longrightarrow> interleaved\<^sup>*\<^sup>* c c'"
proof (induction ks arbitrary: c)
  case (Cons k ks)
  then have k: "k < length (pollers c)" "\<not> waits k c" "turns ks (turn k None [] 2000 c) = Some c'" by (auto split: if_splits)
  from interleaved.statement [OF k(1,2), of None "[]" 2000] Cons.IH [OF k(3)] show ?case
    by (rule converse_rtranclp_into_rtranclp)
qed simp

definition demo_tables :: database where
  "demo_tables = db (demo_session [demo_workflow] (map demo_pending [''x1'', ''x2'', ''x3'', ''x4'', ''x5'', ''x6'', ''x7'']) [] [])"

definition demo_order :: "nat list" where
  "demo_order = [0, 1, 0, 1, 0, 1, 0, 1, 0, 1, 0, 1, 0, 1, 0, 0, 0, 0, 0, 0]"

theorem interleaved_claims_witness:
  "\<exists>c. turns demo_order (cluster_start 2 demo_tables struct_schema) = Some c \<and>
     map (\<lambda>(x, wfl). (e_ID x, e_Version x)) (launched_runs c) =
       [(''x6'', 3), (''x7'', 3), (''x1'', 3), (''x2'', 3), (''x3'', 3), (''x4'', 3), (''x5'', 3)] \<and>
     distinct (map (\<lambda>(x, wfl). (e_ID x, e_Version x)) (launched_runs c))"
proof -
  have "map_option (\<lambda>c. map (\<lambda>(x, wfl). (e_ID x, e_Version x)) (launched_runs c))
      (turns demo_order (cluster_start 2 demo_tables struct_schema)) =
    Some [(''x6'', 3), (''x7'', 3), (''x1'', 3), (''x2'', 3), (''x3'', 3), (''x4'', 3), (''x5'', 3)]" by code_simp
  then obtain c where c: "turns demo_order (cluster_start 2 demo_tables struct_schema) = Some c"
    "map (\<lambda>(x, wfl). (e_ID x, e_Version x)) (launched_runs c) =
       [(''x6'', 3), (''x7'', 3), (''x1'', 3), (''x2'', 3), (''x3'', 3), (''x4'', 3), (''x5'', 3)]" by auto
  have "keyed demo_tables"
    by (simp add: demo_tables_def demo_session_def demo_pending_def demo_execution_def keyed_def int4_def)
  note P = interleaved_claims [OF this turns_interleaved [OF c(1)]]
  show ?thesis by (rule exI [of _ c], intro conjI, rule c(1), rule c(2), rule conjunct1 [OF conjunct2 [OF P]])
qed

end
