(* ===== verification/Rounds.thy ===== *)
theory Rounds imports Interleaving begin

text \<open>
  The two models of the job poller agree: what a round of \<open>Poller\<close> does in one piece, \<open>poll\<close> and
  \<open>processExecutionByID\<close>, the statements of one poller of \<open>Interleaving\<close> do when no other process comes in between.
\<close>

subsection \<open>One poller alone\<close>

definition resting :: poller where
  "resting = \<lparr>place = Idle, own = [], broken = False\<rparr>"

definition own_turn :: "nat \<Rightarrow> cluster \<Rightarrow> cluster \<Rightarrow> bool" where
  "own_turn k c c' \<longleftrightarrow> k < length (pollers c) \<and> \<not> waits k c \<and> (\<exists>job fs now. c' = turn k job fs now c)"

lemma own_turns_interleaved: "(own_turn k)\<^sup>*\<^sup>* c c' \<Longrightarrow> interleaved\<^sup>*\<^sup>* c c'"
proof (induction rule: rtranclp_induct)
  case (step c' c'')
  then have "interleaved c' c''" by (auto simp: own_turn_def intro: interleaved.statement)
  with step.IH show ?case by (rule rtranclp.rtrancl_into_rtrancl)
qed simp

text \<open>The session of the round is what the statement sees.\<close>

definition in_session :: "nat \<Rightarrow> cluster \<Rightarrow> store \<Rightarrow> bool" where
  "in_session k c \<sigma> \<longleftrightarrow> sees_in_tx k (faults \<sigma>) (clock \<sigma>) c = \<sigma>"

definition out_session :: "nat \<Rightarrow> cluster \<Rightarrow> store \<Rightarrow> bool" where
  "out_session k c \<sigma> \<longleftrightarrow> sees_alone k (faults \<sigma>) (clock \<sigma>) c = \<sigma>"

lemma session_iff:
  "in_session k c \<sigma> \<longleftrightarrow> db \<sigma> = (committed c)\<lparr>executions := overlay (own (pollers c ! k)) (executions (committed c))\<rparr> \<and>
     snap \<sigma> = Some (committed c) \<and> aborted \<sigma> = broken (pollers c ! k) \<and> locked \<sigma> = held_by_others k c \<and> uuids \<sigma> = [] \<and>
     sch \<sigma> = cl_schema c"
  "out_session k c \<sigma> \<longleftrightarrow> db \<sigma> = committed c \<and> snap \<sigma> = None \<and> \<not> aborted \<sigma> \<and> locked \<sigma> = held_by_others k c \<and> uuids \<sigma> = [] \<and>
     sch \<sigma> = cl_schema c"
  by (cases \<sigma>, auto simp: in_session_def out_session_def sees_in_tx_def sees_alone_def)+

lemma turn_in_session: "in_session k c \<sigma> \<Longrightarrow> sees_in_tx k (faults \<sigma>) (clock \<sigma>) c = \<sigma>"
  and turn_out_session: "out_session k c \<sigma> \<Longrightarrow> sees_alone k (faults \<sigma>) (clock \<sigma>) c = \<sigma>"
  by (simp_all add: in_session_def out_session_def)

lemma own_turnI:
  "k < length (pollers c) \<Longrightarrow> \<not> waits k c \<Longrightarrow> turn k job fs now c = c' \<Longrightarrow> (own_turn k)\<^sup>*\<^sup>* c' c'' \<Longrightarrow> (own_turn k)\<^sup>*\<^sup>* c c''"
  by (rule converse_rtranclp_into_rtranclp [of _ c c']) (auto simp: own_turn_def)

lemma overlay_Nil [simp]: "overlay [] xs = xs"
  by (simp add: overlay_def)

lemma overlay_own:
  assumes d: "distinct (map e_ID ys)" and ids: "map e_ID ys = map e_ID xs"
    and same: "\<And>i. i \<notin> set held \<Longrightarrow> orow ys i = orow xs i"
  shows "overlay (filter (\<lambda>r. e_ID r \<in> set held) ys) xs = ys"
proof (rule nth_equalityI)
  have l: "length xs = length ys" by (rule map_eq_imp_length_eq [OF ids [symmetric]])
  then show "length (overlay (filter (\<lambda>r. e_ID r \<in> set held) ys) xs) = length ys" by (simp add: overlay_def)
  fix j assume "j < length (overlay (filter (\<lambda>r. e_ID r \<in> set held) ys) xs)"
  then have j: "j < length xs" "j < length ys" using l by (simp_all add: overlay_def)
  let ?i = "e_ID (xs ! j)"
  have i: "e_ID (ys ! j) = ?i" using arg_cong [OF ids, of "\<lambda>l. l ! j"] j by simp
  have y: "orow ys ?i = Some (ys ! j)" using orow_in [OF d, of "ys ! j"] i j(2) by simp
  have x: "orow xs ?i = Some (xs ! j)" using orow_in [of xs "xs ! j"] d ids j(1) by simp
  have "?i \<notin> set held \<Longrightarrow> xs ! j = ys ! j" using same [of ?i] x y by simp
  moreover have "overlay (filter (\<lambda>r. e_ID r \<in> set held) ys) xs ! j =
      (case orow (filter (\<lambda>r. e_ID r \<in> set held) ys) ?i of None \<Rightarrow> xs ! j | Some r \<Rightarrow> r)"
    using j(1) by (simp add: overlay_def orow_def)
  ultimately show "overlay (filter (\<lambda>r. e_ID r \<in> set held) ys) xs ! j = ys ! j" by (simp add: orow_filter y)
qed

text \<open>A transaction of poller \<open>k\<close> that has locked the rows \<open>held\<close> and written no others.\<close>

definition tx_ok :: "nat \<Rightarrow> cluster \<Rightarrow> string list \<Rightarrow> store \<Rightarrow> bool" where
  "tx_ok k c held \<sigma> \<longleftrightarrow> execution_inv \<sigma> \<and> db \<sigma> = (committed c)\<lparr>executions := executions (db \<sigma>)\<rparr> \<and>
     map e_ID (executions (db \<sigma>)) = map e_ID (executions (committed c)) \<and> set held \<subseteq> e_ID ` set (executions (committed c)) \<and>
     (\<forall>i. i \<notin> set held \<longrightarrow> execution_row \<sigma> i = drow (committed c) i) \<and>
     snap \<sigma> = Some (committed c) \<and> locked \<sigma> = held_by_others k c \<and> uuids \<sigma> = [] \<and> sch \<sigma> = cl_schema c"

lemma others_at [simp]: "held_by_others k (at k pl c) = held_by_others k c"
  "held_by_others k (holding k pl held \<sigma> c) = held_by_others k c" "held_by_others k (c\<lparr>committed := d\<rparr>) = held_by_others k c"
  "held_by_others k (c\<lparr>launched_runs := l\<rparr>) = held_by_others k c"
  by (simp_all add: held_by_others_def at_def holding_def)

lemma places [simp]:
  "at k pl (holding k pl' held \<sigma> c) = at k pl c" "at k pl (at k pl' c) = at k pl c"
  "holding k pl held \<sigma> (holding k pl' held' \<sigma>' c) = holding k pl held \<sigma> c" "holding k pl held \<sigma> (at k pl' c) = holding k pl held \<sigma> c"
  "at k pl c\<lparr>committed := d\<rparr> = at k pl (c\<lparr>committed := d\<rparr>)" "at k pl c\<lparr>launched_runs := l\<rparr> = at k pl (c\<lparr>launched_runs := l\<rparr>)"
  "at k pl' (holding k pl held \<sigma> c\<lparr>committed := d\<rparr>) = at k pl' (c\<lparr>committed := d\<rparr>)"
  "length (pollers (at k pl c)) = length (pollers c)" "length (pollers (holding k pl held \<sigma> c)) = length (pollers c)"
  by (simp_all add: at_def holding_def)

lemma place_at [simp]:
  assumes "k < length (pollers c)"
  shows "pollers (at k pl c) ! k = \<lparr>place = pl, own = [], broken = False\<rparr>"
    "pollers (holding k pl held \<sigma> c) ! k = \<lparr>place = pl, own = filter (\<lambda>r. e_ID r \<in> set held) (executions (db \<sigma>)), broken = aborted \<sigma>\<rparr>"
  using assms by (simp_all add: at_def holding_def)

lemma base_at [simp]: "committed (at k pl c) = committed c" "committed (holding k pl held \<sigma> c) = committed c"
  "cl_schema (at k pl c) = cl_schema c" "cl_schema (holding k pl held \<sigma> c) = cl_schema c"
  "launched_runs (at k pl c) = launched_runs c" "launched_runs (holding k pl held \<sigma> c) = launched_runs c"
  by (simp_all add: at_def holding_def)

lemma holding_session:
  assumes "k < length (pollers c)" "tx_ok k c held \<sigma>"
  shows "in_session k (holding k pl held \<sigma> c) \<sigma>"
proof -
  have "overlay (filter (\<lambda>r. e_ID r \<in> set held) (executions (db \<sigma>))) (executions (committed c)) = executions (db \<sigma>)"
    using assms(2) by (intro overlay_own) (auto simp: tx_ok_def execution_inv_def execution_row_orow orow_def drow_def)
  with assms show ?thesis by (simp add: session_iff tx_ok_def)
qed

lemma holding_ids:
  assumes "tx_ok k c held \<sigma>"
  shows "e_ID ` {r \<in> set (executions (db \<sigma>)). e_ID r \<in> set held} = set held"
proof -
  have "map e_ID (executions (db \<sigma>)) = map e_ID (executions (committed c))" using assms by (simp add: tx_ok_def)
  from arg_cong [OF this, of set] have "e_ID ` set (executions (db \<sigma>)) = e_ID ` set (executions (committed c))" by simp
  with assms show ?thesis by (auto simp: tx_ok_def)
qed

lemma holding_again:
  assumes "tx_ok k c held \<sigma>" "held' = map e_ID (filter (\<lambda>r. e_ID r \<in> set held) (executions (db \<sigma>)))"
  shows "holding k pl held' \<sigma>' c = holding k pl held \<sigma>' c"
proof -
  have "set held' = set held" using holding_ids [OF assms(1)] assms(2) by auto
  then show ?thesis by (simp add: holding_def)
qed

subsection \<open>The statements of a round\<close>

lemma acquire_tx:
  assumes "in_session k (at k pl c) \<sigma>" "keyed (committed c)" "k < length (pollers c)" "same_session \<sigma> \<sigma>'" "db \<sigma>' = db \<sigma>"
    and "set held \<subseteq> e_ID ` set (executions (committed c))"
  shows "tx_ok k c held \<sigma>'"
  using assms by (simp add: session_iff tx_ok_def same_session_def execution_inv_keyed execution_row_drow)

lemma tx_ok_same: "same_session \<sigma> \<sigma>' \<Longrightarrow> db \<sigma>' = db \<sigma> \<Longrightarrow> tx_ok k c held \<sigma>' = tx_ok k c held \<sigma>"
  by (simp add: tx_ok_def same_session_def execution_inv_def execution_row_def)

lemma update_tx:
  assumes "exec_Update i v data \<sigma> = (r, \<sigma>')" "distinct (map fst data)" "i \<in> set held" "tx_ok k c held \<sigma>"
  shows "tx_ok k c held \<sigma>'"
proof -
  note U = exec_Update_result [OF assms(1)]
  have inv: "execution_inv \<sigma>" using assms(4) by (simp add: tx_ok_def)
  show ?thesis
  proof (cases r)
    case (Some e)
    with U have "db \<sigma>' = db \<sigma>" by simp
    with U assms(4) tx_ok_same [of \<sigma> \<sigma>'] show ?thesis by blast
  next
    case None
    note R = exec_Update_row [OF inv assms(2) assms(1) [unfolded None]]
    obtain n rows where u: "db \<sigma>' = db \<sigma>\<lparr>executions := rows\<rparr>"
      "update_rows (execution_table (sch \<sigma>)) (clock \<sigma>) (versioned v data) [''id'', ''version'']
        (\<lambda>r. e_ID r = i \<and> e_Version r = v) (executions (db \<sigma>)) = Inr (n, rows)" using U None by auto
    have "map e_ID rows = map e_ID (executions (db \<sigma>))"
      by (rule update_by_version(1) [OF u(2)]) (use execution_put_row [OF _ assms(2)] inv in \<open>auto simp: execution_inv_def\<close>)
    moreover have "db \<sigma>' = (committed c)\<lparr>executions := executions (db \<sigma>')\<rparr>"
    proof -
      have "db \<sigma> = (committed c)\<lparr>executions := executions (db \<sigma>)\<rparr>" using assms(4) by (simp add: tx_ok_def)
      then have "(db \<sigma>)\<lparr>executions := rows\<rparr> = (committed c)\<lparr>executions := rows\<rparr>" by (metis database.surjective database.update_convs(1))
      with u(1) show ?thesis by simp
    qed
    moreover have "\<forall>j. j \<notin> set held \<longrightarrow> execution_row \<sigma>' j = drow (committed c) j"
      using R assms(3,4) by (metis tx_ok_def)
    ultimately show ?thesis using U R u(1) assms(4) by (simp add: tx_ok_def same_session_def)
  qed
qed

lemma claims_turns:
  assumes "claim_executions todo \<sigma> = (todo', \<sigma>')" "tx_ok k c held \<sigma>" "k < length (pollers c)" "e_ID ` set todo \<subseteq> set held"
  shows "tx_ok k c held \<sigma>' \<and>
    (own_turn k)\<^sup>*\<^sup>* (holding k (Claiming todo claims) held \<sigma> c) (holding k (Claiming [] (claims @ todo')) held \<sigma>' c)"
  using assms
proof (induction todo arbitrary: todo' \<sigma> claims)
  case (Cons exe todo)
  obtain exe' \<sigma>1 todo1 where c: "claim_execution exe \<sigma> = (exe', \<sigma>1)" "claim_executions todo \<sigma>1 = (todo1, \<sigma>')" "todo' = exe' # todo1"
    using Cons.prems(1) by (auto split: prod.splits)
  let ?c = "holding k (Claiming (exe # todo) claims) held \<sigma> c"
  obtain r where "exec_Update (e_ID exe) (e_Version exe) [(''status'', TextV ''RUNNING'')] \<sigma> = (r, \<sigma>1)"
    using c(1) by (auto simp: claim_execution_def split: prod.splits option.splits)
  from update_tx [OF this] Cons.prems(2,4) have t: "tx_ok k c held \<sigma>1" by simp
  have "turn k None (faults \<sigma>) (clock \<sigma>) ?c = holding k (Claiming todo (claims @ [exe'])) held \<sigma>1 c"
    using turn_in_session [OF holding_session [OF Cons.prems(3,2)]] Cons.prems(3) c(1) holding_again [OF Cons.prems(2) refl]
    by (simp add: turn_def held_ids_def)
  moreover have "\<not> waits k ?c" using Cons.prems(3) by (simp add: waits_def)
  ultimately show ?case
    using Cons.IH [OF c(2) t Cons.prems(3), of "claims @ [exe']"] Cons.prems(3,4) c(3) by (auto intro: own_turnI)
qed simp

lemma commit_turn:
  assumes t: "tx_ok k c held \<sigma>" and k: "k < length (pollers c)"
    and c1_def: "c1 = holding k (Claiming [] claims) held \<sigma> c"
  shows "Commit True \<sigma> = (None, \<sigma>') \<Longrightarrow> own_turn k c1 (at k (Starting claims) (c\<lparr>committed := db \<sigma>'\<rparr>)) \<and>
      out_session k (c\<lparr>committed := db \<sigma>'\<rparr>) \<sigma>'"
    and "Commit True \<sigma> = (Some e, \<sigma>') \<Longrightarrow> own_turn k c1 (at k Idle c) \<and> db \<sigma>' = committed c \<and> snap \<sigma>' = None"
proof -
  have "own_turn k c1 (commit_claims k claims \<sigma> c1)"
    unfolding own_turn_def using k turn_in_session [OF holding_session [OF k t]]
    by (auto simp: c1_def turn_def waits_def intro!: exI [of _ None] exI [of _ "faults \<sigma>"] exI [of _ "clock \<sigma>"])
  then show "Commit True \<sigma> = (None, \<sigma>') \<Longrightarrow> own_turn k c1 (at k (Starting claims) (c\<lparr>committed := db \<sigma>'\<rparr>)) \<and>
      out_session k (c\<lparr>committed := db \<sigma>'\<rparr>) \<sigma>'"
    and "Commit True \<sigma> = (Some e, \<sigma>') \<Longrightarrow> own_turn k c1 (at k Idle c) \<and> db \<sigma>' = committed c \<and> snap \<sigma>' = None"
    using t by (auto simp: commit_claims_def c1_def tx_ok_def session_iff Commit_def Let_def split: list.splits option.splits if_splits)
qed

subsection \<open>Starting the claims\<close>

lemma stmt_not_aborted:
  "run_stmt f \<sigma> = (r, \<sigma>') \<Longrightarrow> snap \<sigma> = None \<Longrightarrow> aborted \<sigma>' = aborted \<sigma>"
  by (auto simp: run_stmt_def Let_def split: list.splits option.splits sum.splits if_splits)

lemma out_step:
  assumes "out_session k c \<sigma>" "same_session \<sigma> \<sigma>'" "aborted \<sigma>' = aborted \<sigma>"
  shows "out_session k (c\<lparr>committed := db \<sigma>'\<rparr>) \<sigma>'"
  using assms by (simp add: session_iff same_session_def)

lemma out_at [simp]: "out_session k (at k pl c) \<sigma> = out_session k c \<sigma>"
  "out_session k (c\<lparr>launched_runs := l\<rparr>) \<sigma> = out_session k c \<sigma>"
  by (simp_all add: session_iff)

lemma wf_Get_out:
  assumes "wf_Get fs \<sigma> = (r, \<sigma>')" "out_session k c \<sigma>"
  shows "out_session k c \<sigma>'"
proof -
  obtain q where "query (\<lambda>sc d. select_rows workflow_table workflow_columns (map fst (current_conds fs))
      (row_eq workflow_table (current_conds fs)) (workflows d)) \<sigma> = (q, \<sigma>')"
    using arg_cong [OF assms(1), of snd] by (cases "query (\<lambda>sc d. select_rows workflow_table workflow_columns (map fst (current_conds fs))
      (row_eq workflow_table (current_conds fs)) (workflows d)) \<sigma>") (simp add: wf_Get_def read_workflows_def)
  with query_result [OF this] stmt_not_aborted [OF this [unfolded query_def]] assms(2)
  show ?thesis by (simp add: session_iff same_session_def)
qed

lemma exec_Update_out:
  assumes "exec_Update i v data \<sigma> = (r, \<sigma>')" "out_session k c \<sigma>"
  shows "out_session k (c\<lparr>committed := db \<sigma>'\<rparr>) \<sigma>'"
proof (rule out_step [OF assms(2)])
  show "same_session \<sigma> \<sigma>'" using exec_Update_result [OF assms(1)] by blast
  obtain q where "write_executions (\<lambda>sc now d. update_rows (execution_table sc) now (versioned v data) [''id'', ''version'']
      (\<lambda>r. e_ID r = i \<and> e_Version r = v) (executions d)) \<sigma> = (q, \<sigma>')"
    using assms(1) by (auto simp: exec_Update_def affected_def split: prod.splits sum.splits if_splits)
  from stmt_not_aborted [OF this [unfolded write_executions_def]] assms(2) show "aborted \<sigma>' = aborted \<sigma>"
    by (simp add: session_iff)
qed

lemma start_turn:
  assumes out: "out_session k c (st (eng w))" and k: "k < length (pollers c)" and l: "started w = launched_runs c"
    and free: "e_ID exe \<notin> set (held_by_others k c)"
  defines "w1 \<equiv> executeOne exe w"
  defines "c1 \<equiv> c\<lparr>committed := db (st (eng w1)), launched_runs := started w1\<rparr>"
  shows "(own_turn k)\<^sup>*\<^sup>* (at k (Starting (exe # exes)) c) (at k (Starting exes) c1) \<and> out_session k c1 (st (eng w1))"
proof -
  let ?\<sigma> = "st (eng w)" and ?c = "at k (Starting (exe # exes)) c"
  obtain g \<sigma>1 where g: "wf_Get [(''id'', TextV (e_WorkflowID exe))] ?\<sigma> = (g, \<sigma>1)" by fastforce
  have o1: "out_session k c \<sigma>1" by (rule wf_Get_out [OF g out])
  have s: "sees_alone k (faults ?\<sigma>) (clock ?\<sigma>) ?c = ?\<sigma>" using out by (intro turn_out_session) simp
  have nw: "\<not> waits k ?c" using k by (simp add: waits_def)
  show ?thesis
  proof (cases g)
    case (Inr wfl)
    have w1: "w1 = w\<lparr>eng := (eng w)\<lparr>st := \<sigma>1\<rparr>, started := launched_runs c @ [(exe, wfl)]\<rparr>"
      using g Inr l by (simp add: w1_def executeOne_def on_eng_def)
    have c1: "c1 = c\<lparr>launched_runs := launched_runs c @ [(exe, wfl)]\<rparr>" using w1 o1 by (simp add: c1_def session_iff)
    have "turn k None (faults ?\<sigma>) (clock ?\<sigma>) ?c = at k (Starting exes) c1"
      using k g Inr s c1 by (simp add: turn_def)
    with nw k o1 w1 c1 show ?thesis by (auto intro: own_turnI)
  next
    case (Inl e)
    obtain u \<sigma>2 where u: "exec_Update (e_ID exe) (e_Version exe) [(''status'', TextV ''FAILED'')] \<sigma>1 = (u, \<sigma>2)" by fastforce
    have w1: "w1 = w\<lparr>eng := (eng w)\<lparr>st := \<sigma>2\<rparr>\<rparr>" using g Inl u by (simp add: w1_def executeOne_def on_eng_def)
    have c1: "c1 = c\<lparr>committed := db \<sigma>2\<rparr>" using w1 l by (simp add: c1_def)
    let ?c1 = "at k (Failing exe exes) c"
    have t1: "turn k None (faults ?\<sigma>) (clock ?\<sigma>) ?c = ?c1" using k g Inl s by (simp add: turn_def)
    have s1: "sees_alone k (faults \<sigma>1) (clock \<sigma>1) ?c1 = \<sigma>1" using o1 by (intro turn_out_session) simp
    have t2: "turn k None (faults \<sigma>1) (clock \<sigma>1) ?c1 = at k (Starting exes) c1" using k u s1 c1 by (simp add: turn_def)
    have "\<not> waits k ?c1" using k free by (simp add: waits_def)
    then have "(own_turn k)\<^sup>*\<^sup>* ?c1 (at k (Starting exes) c1)" using k t2 by (auto intro: own_turnI)
    with own_turnI [OF _ nw t1] k exec_Update_out [OF u o1] w1 c1 show ?thesis by simp
  qed
qed

lemma start_all_turns:
  assumes "out_session k c (st (eng w))" "k < length (pollers c)" "started w = launched_runs c"
    and "\<forall>x \<in> set exes. e_ID x \<notin> set (held_by_others k c)"
  shows "(own_turn k)\<^sup>*\<^sup>* (at k (Starting exes) c) (at k Idle (c\<lparr>committed := db (st (eng (start_all exes w))),
      launched_runs := started (start_all exes w)\<rparr>)) \<and> snap (st (eng (start_all exes w))) = None"
  using assms
proof (induction exes arbitrary: c w)
  case Nil
  have "own_turn k (at k (Starting []) c) (turn k None [] 0 (at k (Starting []) c))"
    using Nil.prems(2) by (auto simp: own_turn_def waits_def)
  then show ?case using Nil.prems by (simp add: turn_def session_iff)
next
  case (Cons exe exes)
  let ?w1 = "executeOne exe w"
  let ?c1 = "c\<lparr>committed := db (st (eng ?w1)), launched_runs := started ?w1\<rparr>"
  have "e_ID exe \<notin> set (held_by_others k c)" using Cons.prems(4) by simp
  note one = start_turn [OF Cons.prems(1-3) this, of exes]
  have rest: "\<forall>x \<in> set exes. e_ID x \<notin> set (held_by_others k ?c1)" using Cons.prems(4) by simp
  show ?case
    using Cons.IH [OF conjunct2 [OF one] _ _ rest] one Cons.prems(2) by (auto intro: rtranclp_trans)
qed

subsection \<open>The rounds\<close>

text \<open>A worker and a cluster are in the same state: poller \<open>k\<close> rests and its session sees the committed tables and the
  other pollers' locks.\<close>

definition agrees :: "nat \<Rightarrow> cluster \<Rightarrow> worker \<Rightarrow> bool" where
  "agrees k c w \<longleftrightarrow> k < length (pollers c) \<and> pollers c ! k = resting \<and> out_session k c (st (eng w)) \<and>
     started w = launched_runs c \<and> keyed (committed c)"

text \<open>The body of a round has ended: with the transaction still open, or after what it has committed.\<close>

definition round_done :: "nat \<Rightarrow> string option \<Rightarrow> cluster \<Rightarrow> worker \<Rightarrow> bool" where
  "round_done k job c w \<longleftrightarrow>
     snap (st (eng w)) = Some (committed c) \<and> started w = launched_runs c \<and> (own_turn k)\<^sup>*\<^sup>* (at k (Begun job) c) (at k Idle c) \<or>
     snap (st (eng w)) = None \<and> (own_turn k)\<^sup>*\<^sup>* (at k (Begun job) c)
       (at k Idle (c\<lparr>committed := db (st (eng w)), launched_runs := started w\<rparr>))"

lemma begin_turn:
  assumes "out_session k c \<sigma>" "Begin '''' \<sigma> = (r, \<sigma>')" "k < length (pollers c)"
  shows "r = None \<Longrightarrow> in_session k (at k pl c) \<sigma>'" "r \<noteq> None \<Longrightarrow> db \<sigma>' = db \<sigma> \<and> snap \<sigma>' = None"
  using assms by (auto simp: session_iff Begin_def run_stmt_def Let_def split: list.splits option.splits if_splits)

lemma rest_again: "pollers c ! k = resting \<Longrightarrow> at k Idle (c\<lparr>committed := d, launched_runs := l\<rparr>) = c\<lparr>committed := d, launched_runs := l\<rparr>"
  using list_update_id [of "pollers c" k] by (simp add: at_def resting_def)

lemma round_turns:
  assumes a: "agrees k c w"
    and body: "\<And>w1 r w2. in_session k (at k (Begun job) c) (st (eng w1)) \<Longrightarrow> started w1 = launched_runs c \<Longrightarrow> body w1 = (r, w2) \<Longrightarrow>
      round_done k job c w2"
  defines "w' \<equiv> snd (transact (on_eng (Begin '''')) (on_eng (Rollback True)) body w)"
  shows "(own_turn k)\<^sup>*\<^sup>* c (c\<lparr>committed := db (st (eng w')), launched_runs := started w'\<rparr>)"
proof -
  let ?\<sigma> = "st (eng w)"
  have A: "k < length (pollers c)" "out_session k c ?\<sigma>" "started w = launched_runs c" "place (pollers c ! k) = Idle" "db ?\<sigma> = committed c"
    using a by (auto simp: agrees_def resting_def session_iff)
  obtain b \<sigma>1 where b: "Begin '''' ?\<sigma> = (b, \<sigma>1)" by fastforce
  note B = begin_turn [OF A(2) b A(1)]
  show ?thesis
  proof (cases b)
    case (Some e)
    then have "w' = w\<lparr>eng := (eng w)\<lparr>st := \<sigma>1\<rparr>\<rparr>" using b by (simp add: w'_def transact_def on_eng_def)
    with B(2) Some A show ?thesis by simp
  next
    case None
    let ?w1 = "w\<lparr>eng := (eng w)\<lparr>st := \<sigma>1\<rparr>\<rparr>"
    obtain r w2 where w2: "body ?w1 = (r, w2)" by fastforce
    have w': "w' = snd (on_eng (Rollback True) w2)" using b None w2 by (simp add: w'_def transact_def on_eng_def)
    have "turn k job (faults ?\<sigma>) (clock ?\<sigma>) c = at k (Begun job) c"
      using turn_out_session [OF A(2)] A(4) b None by (simp add: turn_def)
    moreover have "\<not> waits k c" using A(4) by (simp add: waits_def)
    moreover have "(own_turn k)\<^sup>*\<^sup>* (at k (Begun job) c) (at k Idle (c\<lparr>committed := db (st (eng w')), launched_runs := started w'\<rparr>))"
      using body [OF _ _ w2] B(1) [OF None] A(3) w'
      by (auto simp: round_done_def on_eng_def Rollback_def Let_def split: list.splits option.splits)
    ultimately show ?thesis using own_turnI [OF A(1)] a by (simp add: rest_again agrees_def)
  qed
qed

lemma acquire_read:
  assumes "exec_AcquireForWorker limit \<sigma> = (r, \<sigma>')"
  shows "same_session \<sigma> \<sigma>' \<and> db \<sigma>' = db \<sigma>"
  using assms query_result [of _ \<sigma>]
  by (auto simp: exec_AcquireForWorker_def read_executions_def db_result_def split: prod.splits sum.splits)

lemma claim_executions_ids: "claim_executions exes \<sigma> = (exes', \<sigma>') \<Longrightarrow> map e_ID exes' = map e_ID exes"
  by (induction exes arbitrary: exes' \<sigma>) (auto split: prod.splits dest: claim_execution_id)

text \<open>A turn of a poller that has begun.\<close>

lemma begun_turn:
  assumes "in_session k (at k (Begun job) c) \<sigma>" "k < length (pollers c)"
    and "turn k job (faults \<sigma>) (clock \<sigma>) (at k (Begun job) c) = c'" "(own_turn k)\<^sup>*\<^sup>* c' c''"
  shows "(own_turn k)\<^sup>*\<^sup>* (at k (Begun job) c) c''"
  by (rule own_turnI [OF _ _ assms(3,4)]) (use assms(2) in \<open>simp_all add: waits_def\<close>)

lemma committed_claims_turns:
  assumes "tx_ok k c held (st (eng w))" "k < length (pollers c)" "started w = launched_runs c"
    and "on_eng (Commit True) w = (r, w')" "\<forall>x \<in> set claims. e_ID x \<notin> set (held_by_others k c)"
    and before: "(own_turn k)\<^sup>*\<^sup>* (at k (Begun job) c) (holding k (Claiming [] claims) held (st (eng w)) c)"
  shows "round_done k job c (if r = None then start_all claims w' else w')"
proof -
  obtain \<sigma>' where c: "Commit True (st (eng w)) = (r, \<sigma>')" and w': "w' = w\<lparr>eng := (eng w)\<lparr>st := \<sigma>'\<rparr>\<rparr>"
    using assms(4) by (auto simp: on_eng_pair)
  show ?thesis
  proof (cases r)
    case None
    note T = commit_turn(1) [OF assms(1,2) refl c [unfolded None], of claims]
    let ?c1 = "c\<lparr>committed := db \<sigma>'\<rparr>"
    have o: "out_session k ?c1 (st (eng w'))" using T w' by simp
    have "(own_turn k)\<^sup>*\<^sup>* (at k (Starting claims) ?c1) (at k Idle (?c1\<lparr>committed := db (st (eng (start_all claims w'))),
        launched_runs := started (start_all claims w')\<rparr>)) \<and> snap (st (eng (start_all claims w'))) = None"
      by (rule start_all_turns [OF o]) (use assms(2,3,5) w' in simp_all)
    with T before None show ?thesis by (auto simp: round_done_def intro: rtranclp_trans rtranclp.rtrancl_into_rtrancl)
  next
    case (Some e)
    note T = commit_turn(2) [OF assms(1,2) refl c [unfolded Some], of claims]
    have "c\<lparr>committed := db (st (eng w')), launched_runs := started w'\<rparr> = c" using T w' assms(3) by simp
    with T before Some w' show ?thesis by (auto simp: round_done_def intro: rtranclp.rtrancl_into_rtrancl)
  qed
qed

lemma poll_body_turns:
  assumes s: "in_session k (at k (Begun None) c) (st (eng w))" and w: "started w = launched_runs c" "poll_body w = (r, w')"
    and k: "k < length (pollers c)" "keyed (committed c)"
  shows "round_done k None c w'"
proof -
  let ?\<sigma> = "st (eng w)"
  obtain a \<sigma>1 where a: "exec_AcquireForWorker 5 ?\<sigma> = (a, \<sigma>1)" by fastforce
  note R = acquire_read [OF a]
  have \<sigma>: "db ?\<sigma> = committed c" "snap ?\<sigma> = Some (committed c)" "locked ?\<sigma> = held_by_others k c"
    using s k by (simp_all add: session_iff)
  let ?w1 = "w\<lparr>eng := (eng w)\<lparr>st := \<sigma>1\<rparr>\<rparr>"
  note begun = begun_turn [OF s k(1)] and see = turn_in_session [OF s]
  show ?thesis
  proof (cases "\<exists>exes. a = Inr exes \<and> exes \<noteq> []")
    case False
    then have "w' = ?w1" "turn k None (faults ?\<sigma>) (clock ?\<sigma>) (at k (Begun None) c) = at k Idle c"
      using w(2) a k(1) see by (auto simp: poll_body_def on_eng_def turn_def split: sum.splits)
    with begun R \<sigma>(2) w(1) show ?thesis by (simp add: round_done_def same_session_def)
  next
    case True
    then obtain exes where e: "a = Inr exes" "exes \<noteq> []" by blast
    note A = acquired_rows [OF a [unfolded e]]
    have inv: "execution_inv ?\<sigma>" using k(2) \<sigma>(1) by (simp add: execution_inv_keyed)
    let ?held = "map e_ID exes"
    have "\<forall>x \<in> set exes. x \<in> set (executions (committed c))"
      using A [OF inv] \<sigma>(1) by (auto simp: execution_row_orow dest: orow_id)
    then have t: "tx_ok k c ?held \<sigma>1" by (intro acquire_tx [OF s k(2,1)]) (use R in auto)
    obtain exes' \<sigma>2 where c: "claim_executions exes \<sigma>1 = (exes', \<sigma>2)" by fastforce
    have T: "tx_ok k c ?held \<sigma>2 \<and> (own_turn k)\<^sup>*\<^sup>* (holding k (Claiming exes []) ?held \<sigma>1 c) (holding k (Claiming [] ([] @ exes')) ?held \<sigma>2 c)"
      by (rule claims_turns [OF c t k(1)]) simp
    have "e_ID ` set exes' = e_ID ` set exes" using claim_executions_ids [OF c] by (metis list.set_map)
    moreover have "e_ID x \<notin> set (held_by_others k c)" if "x \<in> set exes" for x using A [OF inv] \<sigma>(3) that by simp
    ultimately have free: "\<forall>x \<in> set exes'. e_ID x \<notin> set (held_by_others k c)" by (metis (mono_tags, lifting) image_iff)
    let ?w2 = "w\<lparr>eng := (eng w)\<lparr>st := \<sigma>2\<rparr>\<rparr>"
    obtain q w3 where q: "on_eng (Commit True) ?w2 = (q, w3)" by fastforce
    have "w' = (if q = None then start_all exes' w3 else w3)"
      using w(2) a e c q by (auto simp: poll_body_def on_eng_def split: option.splits prod.splits)
    moreover have "turn k None (faults ?\<sigma>) (clock ?\<sigma>) (at k (Begun None) c) = holding k (Claiming exes []) ?held \<sigma>1 c"
      using a e k(1) see by (simp add: turn_def)
    ultimately show ?thesis
      using committed_claims_turns [of k c ?held ?w2, OF _ k(1) _ q free] begun T w(1) by simp
  qed
qed

lemma process_body_turns:
  assumes s: "in_session k (at k (Begun (Some i)) c) (st (eng w))" and w: "started w = launched_runs c" "process_body i w = (r, w')"
    and k: "k < length (pollers c)" "keyed (committed c)"
  shows "round_done k (Some i) c w'"
proof -
  let ?\<sigma> = "st (eng w)"
  obtain a \<sigma>1 where a: "exec_AcquireByIDForWorker i ?\<sigma> = (a, \<sigma>1)" by fastforce
  have \<sigma>: "db ?\<sigma> = committed c" "snap ?\<sigma> = Some (committed c)" "locked ?\<sigma> = held_by_others k c"
    using s k by (simp_all add: session_iff)
  then have "execution_inv ?\<sigma>" using k(2) by (simp add: execution_inv_keyed)
  note A = acquired_by_id [OF a this] and begun = begun_turn [OF s k(1)] and see = turn_in_session [OF s]
  show ?thesis
  proof (cases a)
    case (Inl e)
    then have "w' = w\<lparr>eng := (eng w)\<lparr>st := \<sigma>1\<rparr>\<rparr>" "turn k None (faults ?\<sigma>) (clock ?\<sigma>) (at k (Begun (Some i)) c) = at k Idle c"
      using w(2) a k(1) see by (auto simp: process_body_def on_eng_def turn_def)
    with A \<sigma>(2) w(1) show ?thesis using own_turnI [of k "at k (Begun (Some i)) c"] k(1)
      by (simp add: round_done_def same_session_def waits_def)
  next
    case (Inr exe)
    let ?held = "[e_ID exe]" and ?exe = "exe\<lparr>e_Version := wrap64 (e_Version exe + 1)\<rparr>"
    have "exe \<in> set (executions (committed c))" using A Inr \<sigma>(1) by (auto simp: execution_row_orow dest: orow_id)
    then have t: "tx_ok k c ?held \<sigma>1" by (intro acquire_tx [OF s k(2,1)]) (use A in auto)
    obtain u \<sigma>2 where u: "exec_Update (e_ID exe) (e_Version exe) [(''status'', TextV StatusExecutionRunning)] \<sigma>1 = (u, \<sigma>2)" by fastforce
    let ?c1 = "holding k (Taken exe) ?held \<sigma>1 c" and ?w2 = "w\<lparr>eng := (eng w)\<lparr>st := \<sigma>2\<rparr>\<rparr>"
    have t1: "turn k (Some i) (faults ?\<sigma>) (clock ?\<sigma>) (at k (Begun (Some i)) c) = ?c1" using a Inr k(1) see by (simp add: turn_def)
    have nw: "\<not> waits k ?c1" using k(1) by (simp add: waits_def)
    note see1 = turn_in_session [OF holding_session [OF k(1) t, of "Taken exe"]]
    show ?thesis
    proof (cases u)
      case (Some e)
      have "turn k None (faults \<sigma>1) (clock \<sigma>1) ?c1 = at k Idle c" using see1 u Some k(1) by (simp add: turn_def)
      then have "(own_turn k)\<^sup>*\<^sup>* ?c1 (at k Idle c)" using own_turnI [OF _ nw] k(1) by simp
      moreover have "w' = ?w2" using w(2) a Inr u Some by (auto simp: process_body_def on_eng_def)
      ultimately show ?thesis using begun [OF t1] A \<sigma>(2) w(1) exec_Update_result [OF u]
        by (simp add: round_done_def same_session_def)
    next
      case None
      have t2: "turn k None (faults \<sigma>1) (clock \<sigma>1) ?c1 = holding k (Claiming [] [?exe]) ?held \<sigma>2 c"
        using see1 u None k(1) holding_again [OF t refl] by (simp add: turn_def held_ids_def)
      have before: "(own_turn k)\<^sup>*\<^sup>* (at k (Begun (Some i)) c) (holding k (Claiming [] [?exe]) ?held \<sigma>2 c)"
        by (rule begun [OF t1], rule own_turnI [OF _ nw t2]) (use k(1) in simp_all)
      obtain q w3 where q: "on_eng (Commit True) ?w2 = (q, w3)" by fastforce
      have "w' = (if q = None then start_all [?exe] w3 else w3)"
        using w(2) a Inr u None q by (auto simp: process_body_def on_eng_def Let_def split: option.splits prod.splits)
      moreover have "tx_ok k c ?held (st (eng ?w2))" using update_tx [OF u _ _ t] by simp
      moreover have "\<forall>x \<in> set [?exe]. e_ID x \<notin> set (held_by_others k c)" using A Inr \<sigma>(3) by auto
      ultimately show ?thesis
        using committed_claims_turns [OF _ k(1) _ q, of ?held "[?exe]" "Some i"] before w(1) by simp
    qed
  qed
qed


definition demo_held :: cluster where
  "demo_held = turn 1 None [] 2000 (turn 1 None [] 2000 (cluster_start 2 demo_tables struct_schema))"

definition demo_round :: worker where
  "demo_round = (demo_worker [])\<lparr>eng := (eng (demo_worker []))\<lparr>st := sees_alone 0 [None, None] 2000 demo_held\<rparr>\<rparr>"


end
