(* ===== verification/Logger.thy ===== *)
theory Logger imports Errors Values begin

text \<open>
  The logger, \<open>pkg/logger/logger.go\<close>: a wrapper around the zap library. A zap logger is what it was built from, its level,
  how many callers it skips and the fields of every entry (\<open>None\<close> is the one that writes nothing); a level is zap's number for
  it. Parsing a level and building a logger are parameters, as is the process id. A method gives the entries it writes;
  \<open>Fatal\<close> also ends the program. \<open>Sync\<close> and \<open>GetZapLogger\<close> only hand on to the library and are left out.
\<close>

abbreviation DebugLevel :: int where "DebugLevel \<equiv> -1"
abbreviation InfoLevel :: int where "InfoLevel \<equiv> 0"
abbreviation WarnLevel :: int where "WarnLevel \<equiv> 1"
abbreviation ErrorLevel :: int where "ErrorLevel \<equiv> 2"
abbreviation FatalLevel :: int where "FatalLevel \<equiv> 5"

record zap_logger =
  zap_level :: int
  caller_skip :: nat
  zap_fields :: "(string \<times> any) list"

record zap_lib =
  ParseLevel :: "string \<Rightarrow> err + int"
  BuildLogger :: "int \<Rightarrow> err option"
  getpid :: int

type_synonym Logger = "zap_logger option"

definition logger_New :: "zap_lib \<Rightarrow> string \<Rightarrow> string \<Rightarrow> string \<Rightarrow> err + Logger" where
  "logger_New z level service appVersion =
     (let zapLevel = (case ParseLevel z level of Inl e \<Rightarrow> InfoLevel | Inr lv \<Rightarrow> lv) in
      case BuildLogger z zapLevel of
        Some e \<Rightarrow> Inl e
      | None \<Rightarrow> Inr (Some \<lparr>zap_level = zapLevel, caller_skip = 1,
          zap_fields = [(''service'', StrV service), (''version'', StrV appVersion), (''pid'', IntV (getpid z))]\<rparr>))"

definition NewNop :: Logger where
  "NewNop = None"

record log_entry =
  en_level :: int
  en_message :: string
  en_fields :: "(string \<times> any) list"

text \<open>What zap does with an entry: it is written when its level is enabled, with the logger's own fields first.\<close>

definition write_entry :: "int \<Rightarrow> Logger \<Rightarrow> string \<Rightarrow> (string \<times> any) list \<Rightarrow> log_entry list" where
  "write_entry lv l msg fs = (case l of None \<Rightarrow> []
     | Some z \<Rightarrow> if zap_level z \<le> lv then [\<lparr>en_level = lv, en_message = msg, en_fields = zap_fields z @ fs\<rparr>] else [])"

definition log_Debug :: "Logger \<Rightarrow> string \<Rightarrow> (string \<times> any) list \<Rightarrow> log_entry list" where
  "log_Debug = write_entry DebugLevel"

definition log_Info :: "Logger \<Rightarrow> string \<Rightarrow> (string \<times> any) list \<Rightarrow> log_entry list" where
  "log_Info = write_entry InfoLevel"

definition log_Warn :: "Logger \<Rightarrow> string \<Rightarrow> (string \<times> any) list \<Rightarrow> log_entry list" where
  "log_Warn = write_entry WarnLevel"

definition log_Error :: "Logger \<Rightarrow> string \<Rightarrow> (string \<times> any) list \<Rightarrow> log_entry list" where
  "log_Error = write_entry ErrorLevel"

text \<open>The exit status, and the entries. The program ends whether the entry is written or not.\<close>

definition log_Fatal :: "Logger \<Rightarrow> string \<Rightarrow> (string \<times> any) list \<Rightarrow> log_entry list \<times> nat" where
  "log_Fatal l msg fs = (write_entry FatalLevel l msg fs, 1)"

lemmas log_defs = log_Debug_def log_Info_def log_Warn_def log_Error_def log_Fatal_def write_entry_def

text \<open>A level that is no level gives the logger of \<open>info\<close>, which drops debug messages only.\<close>

lemma New_unknown_level:
  assumes "isl (ParseLevel z level)" "ParseLevel z ''info'' = Inr InfoLevel"
  shows "logger_New z level service v = logger_New z ''info'' service v"
  using assms by (auto simp: logger_New_def split: sum.split)

lemma info_logger_writes:
  assumes "ParseLevel z ''info'' = Inr InfoLevel" "logger_New z ''info'' service v = Inr l"
  shows "log_Debug l msg fs = [] \<and> log_Info l msg fs \<noteq> [] \<and> log_Warn l msg fs \<noteq> [] \<and> log_Error l msg fs \<noteq> [] \<and>
    fst (log_Fatal l msg fs) \<noteq> []"
  using assms by (auto simp: logger_New_def log_defs split: option.splits)

text \<open>Every entry names the program, whatever the caller's fields.\<close>

lemma entries_name_service:
  assumes "logger_New z level service v = Inr l" "en \<in> set (write_entry lv l msg fs)"
  shows "map_of (en_fields en) ''service'' = Some (StrV service)"
  using assms by (auto simp: logger_New_def write_entry_def Let_def split: option.splits if_splits)

lemma Nop_silent [simp]: "write_entry lv NewNop msg fs = []"
  by (simp add: write_entry_def NewNop_def)

end
