(* ===== verification/Isolation.thy ===== *)
theory Isolation imports Service_Facts begin

text \<open>
  Tenants on a shared database: what a statement of the repositories sees and does when it concerns the rows of one tenant
  only. \<open>alone T\<close> is the session of a tenant that has the database to itself. A statement is confined when it gives the
  same result there, leaves the same rows of the tenant behind, and touches no row of another tenant.
\<close>

subsection \<open>The rows of a tenant\<close>

definition own_part :: "(string \<Rightarrow> bool) \<Rightarrow> database \<Rightarrow> database" where
  "own_part P d = \<lparr>executions = filter (\<lambda>r. P (e_TenantID r)) (executions d),
     step_executions = filter (\<lambda>r. P (s_TenantID r)) (step_executions d),
     workflows = filter (\<lambda>r. P (w_TenantID r)) (workflows d), tenants = filter (\<lambda>r. P (t_ID r)) (tenants d),
     users = filter (\<lambda>r. P (u_TenantID r)) (users d)\<rparr>"

definition rows_of :: "string \<Rightarrow> database \<Rightarrow> database" where
  "rows_of T = own_part (\<lambda>t. t = T)"

definition other_rows :: "string \<Rightarrow> database \<Rightarrow> database" where
  "other_rows T = own_part (\<lambda>t. t \<noteq> T)"

definition alone :: "string \<Rightarrow> store \<Rightarrow> store" where
  "alone T \<sigma> = \<sigma>\<lparr>db := rows_of T (db \<sigma>), snap := map_option (rows_of T) (snap \<sigma>)\<rparr>"

lemma part_sel [simp]:
  "executions (own_part P d) = filter (\<lambda>r. P (e_TenantID r)) (executions d)"
  "step_executions (own_part P d) = filter (\<lambda>r. P (s_TenantID r)) (step_executions d)"
  "workflows (own_part P d) = filter (\<lambda>r. P (w_TenantID r)) (workflows d)"
  "tenants (own_part P d) = filter (\<lambda>r. P (t_ID r)) (tenants d)"
  "users (own_part P d) = filter (\<lambda>r. P (u_TenantID r)) (users d)"
  by (simp_all add: own_part_def)

lemma part_put [simp]:
  "own_part P (d\<lparr>executions := es\<rparr>) = (own_part P d)\<lparr>executions := filter (\<lambda>r. P (e_TenantID r)) es\<rparr>"
  "own_part P (d\<lparr>step_executions := ss\<rparr>) = (own_part P d)\<lparr>step_executions := filter (\<lambda>r. P (s_TenantID r)) ss\<rparr>"
  "own_part P (d\<lparr>workflows := ws\<rparr>) = (own_part P d)\<lparr>workflows := filter (\<lambda>r. P (w_TenantID r)) ws\<rparr>"
  by (simp_all add: own_part_def)

lemma alone_sel [simp]:
  "db (alone T \<sigma>) = rows_of T (db \<sigma>)" "snap (alone T \<sigma>) = map_option (rows_of T) (snap \<sigma>)" "aborted (alone T \<sigma>) = aborted \<sigma>"
  "locked (alone T \<sigma>) = locked \<sigma>" "faults (alone T \<sigma>) = faults \<sigma>" "clock (alone T \<sigma>) = clock \<sigma>"
  "uuids (alone T \<sigma>) = uuids \<sigma>" "sch (alone T \<sigma>) = sch \<sigma>"
  by (simp_all add: alone_def)

text \<open>What is kept: the rows \<open>O\<close> of the others, in the tables and in those a rollback restores; the uniqueness of ids and
  of workflow versions; and that no id to come is the id of somebody else's row.\<close>

definition sound :: "database \<Rightarrow> bool" where
  "sound d \<longleftrightarrow> distinct (map e_ID (executions d)) \<and> \<not> has_clash workflow_clash (workflows d)"

definition row_ids :: "database \<Rightarrow> string set" where
  "row_ids d = e_ID ` set (executions d) \<union> s_ID ` set (step_executions d) \<union> w_ID ` set (workflows d)"

definition shared :: "string \<Rightarrow> database \<Rightarrow> store \<Rightarrow> bool" where
  "shared T others \<sigma> \<longleftrightarrow> other_rows T (db \<sigma>) = others \<and> sound (db \<sigma>) \<and>
     (\<forall>d. snap \<sigma> = Some d \<longrightarrow> other_rows T d = others \<and> sound d) \<and>
     insert '''' (set (uuids \<sigma>)) \<inter> row_ids others = {}"

definition confined :: "string \<Rightarrow> database \<Rightarrow> (store \<Rightarrow> 'a \<times> store) \<Rightarrow> store \<Rightarrow> bool" where
  "confined T others m \<sigma> \<longleftrightarrow>
     (case m \<sigma> of (r, \<sigma>') \<Rightarrow> m (alone T \<sigma>) = (r, alone T \<sigma>') \<and> shared T others \<sigma>')"

lemma confinedD: "confined T others m \<sigma> \<Longrightarrow> m \<sigma> = (r, \<sigma>') \<Longrightarrow> m (alone T \<sigma>) = (r, alone T \<sigma>') \<and> shared T others \<sigma>'"
  by (simp add: confined_def)

subsection \<open>Statements\<close>

lemma run_stmt_confined:
  assumes "shared T others \<sigma>"
    and "f (sch \<sigma>) (clock \<sigma>) (rows_of T (db \<sigma>)) =
      (case f (sch \<sigma>) (clock \<sigma>) (db \<sigma>) of Inl e \<Rightarrow> Inl e | Inr (x, d) \<Rightarrow> Inr (x, rows_of T d))"
    and "\<And>x d. f (sch \<sigma>) (clock \<sigma>) (db \<sigma>) = Inr (x, d) \<Longrightarrow> other_rows T d = others \<and> sound d"
  shows "confined T others (run_stmt f) \<sigma>"
  using assms
  by (auto simp: confined_def run_stmt_def Let_def shared_def alone_def split: list.splits option.splits sum.splits if_splits)

lemma query_confined:
  assumes "shared T others \<sigma>" "f (sch \<sigma>) (rows_of T (db \<sigma>)) = f (sch \<sigma>) (db \<sigma>)"
  shows "confined T others (query f) \<sigma>"
  unfolding query_def by (rule run_stmt_confined) (use assms in \<open>auto simp: shared_def split: sum.splits\<close>)

lemma result_confined [intro]:
  "confined T others m \<sigma> \<Longrightarrow> confined T others (\<lambda>\<sigma>. db_result (m \<sigma>)) \<sigma>"
  "confined T others n \<sigma> \<Longrightarrow> confined T others (\<lambda>\<sigma>. collect_one (n \<sigma>)) \<sigma>"
  "confined T others k \<sigma> \<Longrightarrow> confined T others (\<lambda>\<sigma>. affected x (k \<sigma>)) \<sigma>"
  by (auto simp: confined_def db_result_def collect_one_def affected_def split: prod.splits sum.splits list.splits)

lemma select_rows_filter:
  assumes "\<And>r. p r \<Longrightarrow> q r"
  shows "select_rows t cols cc p (filter q rows) = select_rows t cols cc p rows"
proof -
  have "filter p (filter q rows) = filter p rows" using assms by (induction rows) auto
  then show ?thesis by (simp only: select_rows_def)
qed

lemma put_rows_filter:
  assumes "\<And>r. p r \<Longrightarrow> r \<in> set rows \<Longrightarrow> q r" "\<And>r r'. put_row t now cvs r = Inr r' \<Longrightarrow> q r' = q r"
  shows "put_rows t now cvs p (filter q rows) = (case put_rows t now cvs p rows of Inl e \<Rightarrow> Inl e | Inr rs \<Rightarrow> Inr (filter q rs))"
  using assms(1)
proof (induction rows)
  case (Cons r rows)
  then show ?case using assms(2) [of r] by (auto split: sum.splits)
qed simp

lemma put_rows_others:
  assumes "put_rows t now cvs p rows = Inr rows'" "\<And>r. p r \<Longrightarrow> r \<in> set rows \<Longrightarrow> q r"
    and "\<And>r r'. put_row t now cvs r = Inr r' \<Longrightarrow> q r' = q r"
  shows "filter (\<lambda>r. \<not> q r) rows' = filter (\<lambda>r. \<not> q r) rows"
  using assms(1,2) unfolding put_rows_list_all2
  by (induction rows rows' rule: list_all2_induct) (auto split: if_splits dest: assms(3))

lemma count_rows_filter:
  assumes "\<And>r. p r \<Longrightarrow> r \<in> set rows \<Longrightarrow> q r"
  shows "count_rows p (filter q rows) = count_rows p rows"
  using assms by (induction rows) auto

lemma has_clash_filter: "\<not> has_clash c rows \<Longrightarrow> \<not> has_clash c (filter q rows)"
  by (induction rows) (auto simp: list_ex_iff)

text \<open>An update of the tenant's rows after which no row of somebody else clashes with any.\<close>

lemma has_clash_split:
  assumes "\<And>x y. c x y = c y x"
  shows "has_clash c rows \<longleftrightarrow> has_clash c (filter q rows) \<or> has_clash c (filter (\<lambda>r. \<not> q r) rows) \<or>
    (\<exists>x \<in> set rows. \<exists>y \<in> set rows. q x \<and> \<not> q y \<and> c x y)"
proof (induction rows)
  case (Cons r rows)
  show ?case using Cons.IH assms by (cases "q r") (auto simp: list_ex_iff)
qed simp

lemma update_rows_filter:
  assumes "\<And>r. p r \<Longrightarrow> r \<in> set rows \<Longrightarrow> q r" "\<And>r r'. put_row t now cvs r = Inr r' \<Longrightarrow> q r' = q r"
    and "\<And>rows'. put_rows t now cvs p rows = Inr rows' \<Longrightarrow> has_clash (tb_clash t) rows' = has_clash (tb_clash t) (filter q rows')"
  shows "update_rows t now cvs cc p (filter q rows) =
    (case update_rows t now cvs cc p rows of Inl e \<Rightarrow> Inl e | Inr (n, rs) \<Rightarrow> Inr (n, filter q rs))"
proof -
  have p: "put_rows t now cvs p (filter q rows) = (case put_rows t now cvs p rows of Inl e \<Rightarrow> Inl e | Inr rs \<Rightarrow> Inr (filter q rs))"
    by (rule put_rows_filter) (use assms in auto)
  have c: "count_rows p (filter q rows) = count_rows p rows" by (rule count_rows_filter) (use assms in auto)
  show ?thesis unfolding update_rows_def p c using assms(3) by (auto split: option.splits sum.splits)
qed

lemma insert_row_filter:
  assumes "q r" "\<And>x. x \<in> set rows \<Longrightarrow> tb_clash t x r \<Longrightarrow> q x" "fk = fk'"
  shows "insert_row t cols fk r (filter q rows) =
    (case insert_row t cols fk' r rows of Inl e \<Rightarrow> Inl e | Inr (n, rs) \<Rightarrow> Inr (n, filter q rs))"
proof -
  have "list_ex (\<lambda>x. tb_clash t x r) (filter q rows) = list_ex (\<lambda>x. tb_clash t x r) rows"
    using assms(2) by (auto simp: list_ex_iff)
  with assms(1,3) show ?thesis by (simp add: insert_row_def split: option.splits)
qed

subsection \<open>Reads\<close>

lemma reads_confined:
  assumes "shared T others \<sigma>"
  shows "(\<And>r. p r \<Longrightarrow> w_TenantID r = T) \<Longrightarrow> confined T others (read_workflows cc p) \<sigma>"
    and "(\<And>r. q (sch \<sigma>) r \<Longrightarrow> e_TenantID r = T) \<Longrightarrow> confined T others (read_executions cc q) \<sigma>"
    and "(\<And>r. k (sch \<sigma>) r \<Longrightarrow> s_TenantID r = T) \<Longrightarrow> confined T others (read_steps cc k) \<sigma>"
  unfolding read_workflows_def read_executions_def read_steps_def
  by (rule query_confined [OF assms], simp add: rows_of_def, rule select_rows_filter, blast)+

lemma tenant_conds:
  "row_eq workflow_table conds w \<Longrightarrow> (''tenant_id'', TextV T) \<in> set conds \<Longrightarrow> w_TenantID w = T"
  "row_eq (execution_table sc) conds e \<Longrightarrow> (''tenant_id'', TextV T) \<in> set conds \<Longrightarrow> e_TenantID e = T"
  "row_eq (step_table sc) conds x \<Longrightarrow> (''tenant_id'', TextV T) \<in> set conds \<Longrightarrow> s_TenantID x = T"
  by (force simp: row_eq_def workflow_table_def workflow_get_def execution_table_def execution_get_def step_table_def step_get_def)+

lemma Get_confined:
  assumes "shared T others \<sigma>" "(''tenant_id'', TextV T) \<in> set filters"
  shows "confined T others (wf_Get filters) \<sigma>" "confined T others (exec_Get filters) \<sigma>" "confined T others (step_Get filters) \<sigma>"
proof -
  have "(''tenant_id'', TextV T) \<in> set (current_conds filters)" using assms(2) by (simp add: current_conds_def)
  then show "confined T others (wf_Get filters) \<sigma>"
    unfolding wf_Get_def by (intro result_confined reads_confined [OF assms(1)]) (rule tenant_conds)
  show "confined T others (exec_Get filters) \<sigma>" "confined T others (step_Get filters) \<sigma>"
    unfolding exec_Get_def step_Get_def
    by (intro result_confined reads_confined [OF assms(1)]; rule tenant_conds [OF _ assms(2)]; assumption)+
qed

text \<open>A statement after another, which goes on only when the first has answered.\<close>

lemma bind_confined:
  assumes "confined T others m \<sigma>" "\<And>x \<sigma>'. m \<sigma> = (Inr x, \<sigma>') \<Longrightarrow> shared T others \<sigma>' \<Longrightarrow> confined T others (k x) \<sigma>'"
  shows "confined T others (\<lambda>\<sigma>. case m \<sigma> of (Inl e, \<sigma>1) \<Rightarrow> (Inl (g e), \<sigma>1) | (Inr x, \<sigma>1) \<Rightarrow> k x \<sigma>1) \<sigma>"
  using assms by (auto simp: confined_def split: prod.splits sum.splits)

lemma pure_confined: "shared T others \<sigma> \<Longrightarrow> confined T others (\<lambda>\<sigma>. (x, \<sigma>)) \<sigma>"
  by (simp add: confined_def)

lemma Lists_confined:
  assumes "shared T others \<sigma>"
  shows "(''tenant_id'', TextV T) \<in> set filters \<Longrightarrow> confined T others (wf_List limit offset filters) \<sigma>"
    and "(''tenant_id'', TextV T) \<in> set conds \<Longrightarrow> confined T others (exec_List limit offset conds) \<sigma>"
    and "confined T others (wf_ListVersions T name) \<sigma>"
  unfolding wf_List_def exec_List_def wf_ListVersions_def Let_def
  by (rule bind_confined [where g = "\<lambda>e. e"];
      (rule bind_confined [where g = "\<lambda>e. e"])?; intro result_confined reads_confined pure_confined assms;
      force simp: list_cond_def workflow_table_def workflow_get_def execution_table_def execution_get_def)+

lemma GetForUpdate_confined:
  assumes "shared T others \<sigma>"
  shows "confined T others (wf_GetForUpdate T name version isCurrent) \<sigma>"
proof -
  have "confined T others (\<lambda>\<sigma>. collect_one (read_workflows [''tenant_id'', ''name'', ''is_current'', ''is_active'', ''version'']
      (\<lambda>r. w_TenantID r = T \<and> w_Name r = name \<and> w_IsCurrent r = isCurrent \<and> w_IsActive r \<and> w_Version r = version) \<sigma>)) \<sigma>"
    by (intro result_confined reads_confined [OF assms]) simp
  then show ?thesis by (auto simp: confined_def wf_GetForUpdate_def split: prod.splits sum.splits)
qed

subsection \<open>Writes\<close>

lemma shared_part:
  "shared T others \<sigma> \<Longrightarrow> executions others = filter (\<lambda>r. e_TenantID r \<noteq> T) (executions (db \<sigma>))"
  "shared T others \<sigma> \<Longrightarrow> step_executions others = filter (\<lambda>r. s_TenantID r \<noteq> T) (step_executions (db \<sigma>))"
  "shared T others \<sigma> \<Longrightarrow> workflows others = filter (\<lambda>r. w_TenantID r \<noteq> T) (workflows (db \<sigma>))"
  by (auto simp: shared_def other_rows_def)

lemma shared_other: "shared T others \<sigma> \<Longrightarrow> other_rows T (db \<sigma>) = others"
  by (simp add: shared_def)

lemma other_rows_put:
  "filter (\<lambda>r. w_TenantID r \<noteq> T) ws = filter (\<lambda>r. w_TenantID r \<noteq> T) (workflows d) \<Longrightarrow>
    other_rows T (d\<lparr>workflows := ws\<rparr>) = other_rows T d"
  "filter (\<lambda>r. e_TenantID r \<noteq> T) es = filter (\<lambda>r. e_TenantID r \<noteq> T) (executions d) \<Longrightarrow>
    other_rows T (d\<lparr>executions := es\<rparr>) = other_rows T d"
  "filter (\<lambda>r. s_TenantID r \<noteq> T) ss = filter (\<lambda>r. s_TenantID r \<noteq> T) (step_executions d) \<Longrightarrow>
    other_rows T (d\<lparr>step_executions := ss\<rparr>) = other_rows T d"
  by (simp_all add: other_rows_def own_part_def)

text \<open>An insert or update of one table is confined when it gives the same answer on the tenant's rows of the table.\<close>

lemma write_workflows_confined:
  assumes s: "shared T others \<sigma>"
    and "f (clock \<sigma>) (rows_of T (db \<sigma>)) = (case f (clock \<sigma>) (db \<sigma>) of Inl e \<Rightarrow> Inl e
      | Inr (n, ws) \<Rightarrow> Inr (n, filter (\<lambda>r. w_TenantID r = T) ws))"
    and "\<And>n ws. f (clock \<sigma>) (db \<sigma>) = Inr (n, ws) \<Longrightarrow> \<not> has_clash workflow_clash ws \<and>
      filter (\<lambda>r. w_TenantID r \<noteq> T) ws = filter (\<lambda>r. w_TenantID r \<noteq> T) (workflows (db \<sigma>))"
  shows "confined T others (write_workflows f) \<sigma>"
  unfolding write_workflows_def
proof (rule run_stmt_confined [OF s])
  fix x d
  assume "(case f (clock \<sigma>) (db \<sigma>) of Inl e \<Rightarrow> Inl e | Inr (n, rows) \<Rightarrow> Inr (n, db \<sigma>\<lparr>workflows := rows\<rparr>)) = Inr (x, d)"
  then obtain ws where "f (clock \<sigma>) (db \<sigma>) = Inr (x, ws)" "d = db \<sigma>\<lparr>workflows := ws\<rparr>" by (auto split: sum.splits)
  with assms(3) [OF this(1)] s other_rows_put(1) [of T ws "db \<sigma>"]
  show "other_rows T d = others \<and> sound d" by (auto simp: shared_def sound_def)
qed (use assms(2) in \<open>auto simp: rows_of_def split: sum.splits\<close>)

lemma write_executions_confined:
  assumes s: "shared T others \<sigma>"
    and "f (sch \<sigma>) (clock \<sigma>) (rows_of T (db \<sigma>)) = (case f (sch \<sigma>) (clock \<sigma>) (db \<sigma>) of Inl e \<Rightarrow> Inl e
      | Inr (n, es) \<Rightarrow> Inr (n, filter (\<lambda>r. e_TenantID r = T) es))"
    and "\<And>n es. f (sch \<sigma>) (clock \<sigma>) (db \<sigma>) = Inr (n, es) \<Longrightarrow> distinct (map e_ID es) \<and>
      filter (\<lambda>r. e_TenantID r \<noteq> T) es = filter (\<lambda>r. e_TenantID r \<noteq> T) (executions (db \<sigma>))"
  shows "confined T others (write_executions f) \<sigma>"
  unfolding write_executions_def
proof (rule run_stmt_confined [OF s])
  fix x d
  assume "(case f (sch \<sigma>) (clock \<sigma>) (db \<sigma>) of Inl e \<Rightarrow> Inl e | Inr (n, rows) \<Rightarrow> Inr (n, db \<sigma>\<lparr>executions := rows\<rparr>)) = Inr (x, d)"
  then obtain es where "f (sch \<sigma>) (clock \<sigma>) (db \<sigma>) = Inr (x, es)" "d = db \<sigma>\<lparr>executions := es\<rparr>" by (auto split: sum.splits)
  with assms(3) [OF this(1)] s other_rows_put(2) [of T es "db \<sigma>"]
  show "other_rows T d = others \<and> sound d" by (auto simp: shared_def sound_def)
qed (use assms(2) in \<open>auto simp: rows_of_def split: sum.splits\<close>)

lemma other_ids: "shared T others \<sigma> \<Longrightarrow> i \<notin> row_ids others \<Longrightarrow>
   (\<forall>x \<in> set (executions (db \<sigma>)). e_ID x = i \<longrightarrow> e_TenantID x = T) \<and>
   (\<forall>x \<in> set (step_executions (db \<sigma>)). s_ID x = i \<longrightarrow> s_TenantID x = T) \<and>
   (\<forall>x \<in> set (workflows (db \<sigma>)). w_ID x = i \<longrightarrow> w_TenantID x = T)"
  by (auto simp: row_ids_def shared_part)

lemma tenant_known: "list_ex (\<lambda>t. t_ID t = T) (tenants (rows_of T d)) = list_ex (\<lambda>t. t_ID t = T) (tenants d)"
  by (auto simp: list_ex_iff rows_of_def)

lemma wf_Create_confined:
  assumes s: "shared T others \<sigma>" and w: "w_TenantID w = T" "w_ID w \<notin> row_ids others"
  shows "confined T others (wf_Create w) \<sigma>"
  unfolding wf_Create_def
proof (intro result_confined write_workflows_confined [OF s])
  let ?q = "\<lambda>r. w_TenantID r = T"
  let ?f = "\<lambda>d. insert_row workflow_table workflow_columns (workflow_fk d (activated w)) (activated w) (workflows d)"
  have "insert_row workflow_table workflow_columns (workflow_fk (rows_of T (db \<sigma>)) (activated w)) (activated w)
      (filter ?q (workflows (db \<sigma>))) = (case ?f (db \<sigma>) of Inl e \<Rightarrow> Inl e | Inr (n, rs) \<Rightarrow> Inr (n, filter ?q rs))"
    by (rule insert_row_filter)
      (use w other_ids [OF s w(2)] tenant_known in \<open>auto simp: activated_def workflow_table_def workflow_clash_def workflow_fk_def\<close>)
  then show "?f (rows_of T (db \<sigma>)) = (case ?f (db \<sigma>) of Inl e \<Rightarrow> Inl e | Inr (n, ws) \<Rightarrow> Inr (n, filter ?q ws))"
    by (simp add: rows_of_def)
  fix n ws assume "?f (db \<sigma>) = Inr (n, ws)"
  from insert_row_Inr [OF this] s w(1)
  show "\<not> has_clash workflow_clash ws \<and> filter (\<lambda>r. w_TenantID r \<noteq> T) ws = filter (\<lambda>r. w_TenantID r \<noteq> T) (workflows (db \<sigma>))"
    by (auto simp: has_clash_append shared_def sound_def workflow_table_def activated_def)
qed

lemma exec_Create_confined:
  assumes s: "shared T others \<sigma>" and e: "e_TenantID e = T" "e_ID e \<notin> row_ids others"
    and w: "\<exists>w \<in> set (workflows (db \<sigma>)). w_ID w = e_WorkflowID e \<and> w_TenantID w = T"
  shows "confined T others (exec_Create e) \<sigma>"
  unfolding exec_Create_def
proof (intro result_confined write_executions_confined [OF s])
  let ?q = "\<lambda>r. e_TenantID r = T" and ?t = "execution_table (sch \<sigma>)"
  let ?f = "\<lambda>d. insert_row ?t execution_columns (execution_fk d e) e (executions d)"
  have "execution_fk (rows_of T (db \<sigma>)) e = execution_fk (db \<sigma>) e"
    unfolding execution_fk_def e(1) tenant_known using w by (force simp: rows_of_def list_ex_iff)
  then have "insert_row ?t execution_columns (execution_fk (rows_of T (db \<sigma>)) e) e (filter ?q (executions (db \<sigma>))) =
      (case ?f (db \<sigma>) of Inl e \<Rightarrow> Inl e | Inr (n, rs) \<Rightarrow> Inr (n, filter ?q rs))"
    by (intro insert_row_filter) (use e other_ids [OF s e(2)] in \<open>auto simp: execution_table_def\<close>)
  then show "?f (rows_of T (db \<sigma>)) = (case ?f (db \<sigma>) of Inl e \<Rightarrow> Inl e | Inr (n, ws) \<Rightarrow> Inr (n, filter ?q ws))"
    by (simp add: rows_of_def)
  fix n es assume "?f (db \<sigma>) = Inr (n, es)"
  from insert_row_Inr [OF this] have "es = executions (db \<sigma>) @ [e]" "\<forall>x \<in> set (executions (db \<sigma>)). e_ID x \<noteq> e_ID e"
    by (simp_all add: execution_table_def)
  moreover have "distinct (map e_ID (executions (db \<sigma>)))" using s by (simp add: shared_def sound_def)
  ultimately show "distinct (map e_ID es) \<and> filter (\<lambda>r. e_TenantID r \<noteq> T) es = filter (\<lambda>r. e_TenantID r \<noteq> T) (executions (db \<sigma>))"
    using e(1) by force
qed

lemma step_Create_confined:
  assumes s: "shared T others \<sigma>" and x: "s_TenantID x = T" "s_ID x \<notin> row_ids others"
    and e: "\<exists>e \<in> set (executions (db \<sigma>)). e_ID e = s_ExecutionID x \<and> e_TenantID e = T"
  shows "confined T others (step_Create x) \<sigma>"
  unfolding step_Create_def write_steps_def
proof (intro result_confined run_stmt_confined [OF s])
  let ?q = "\<lambda>r. s_TenantID r = T" and ?t = "step_table (sch \<sigma>)"
  let ?f = "\<lambda>d. insert_row ?t step_execution_columns (step_fk d x) x (step_executions d)"
  have "step_fk (rows_of T (db \<sigma>)) x = step_fk (db \<sigma>) x"
    unfolding step_fk_def x(1) tenant_known using e by (force simp: rows_of_def list_ex_iff)
  then have "insert_row ?t step_execution_columns (step_fk (rows_of T (db \<sigma>)) x) x (filter ?q (step_executions (db \<sigma>))) =
      (case ?f (db \<sigma>) of Inl e \<Rightarrow> Inl e | Inr (n, rs) \<Rightarrow> Inr (n, filter ?q rs))"
    by (intro insert_row_filter) (use x other_ids [OF s x(2)] in \<open>auto simp: step_table_def\<close>)
  then have f: "?f (rows_of T (db \<sigma>)) = (case ?f (db \<sigma>) of Inl e \<Rightarrow> Inl e | Inr (n, rs) \<Rightarrow> Inr (n, filter ?q rs))"
    by (simp add: rows_of_def)
  show "(case ?f (rows_of T (db \<sigma>)) of Inl e \<Rightarrow> Inl e | Inr (n, rows) \<Rightarrow> Inr (n, rows_of T (db \<sigma>)\<lparr>step_executions := rows\<rparr>)) =
      (case (case ?f (db \<sigma>) of Inl e \<Rightarrow> Inl e | Inr (n, rows) \<Rightarrow> Inr (n, db \<sigma>\<lparr>step_executions := rows\<rparr>)) of Inl e \<Rightarrow> Inl e
       | Inr (x, d) \<Rightarrow> Inr (x, rows_of T d))"
    unfolding f by (auto simp: rows_of_def split: sum.splits)
  fix n d assume "(case ?f (db \<sigma>) of Inl e \<Rightarrow> Inl e | Inr (n, rows) \<Rightarrow> Inr (n, db \<sigma>\<lparr>step_executions := rows\<rparr>)) = Inr (n, d)"
  then obtain ss where "?f (db \<sigma>) = Inr (n, ss)" and d: "d = db \<sigma>\<lparr>step_executions := ss\<rparr>" by (auto split: sum.splits)
  from insert_row_Inr [OF this(1)] x(1)
  have "filter (\<lambda>r. s_TenantID r \<noteq> T) ss = filter (\<lambda>r. s_TenantID r \<noteq> T) (step_executions (db \<sigma>))" by simp
  from other_rows_put(3) [OF this] d s show "other_rows T d = others \<and> sound d" by (auto simp: shared_def sound_def)
qed

lemma row_tenant_kept:
  "put_row workflow_table now cvs w = Inr w' \<Longrightarrow> w_TenantID w' = w_TenantID w"
  "put_row workflow_table now cvs w = Inr w' \<Longrightarrow> w_ID w' = w_ID w"
  "put_row (execution_table sc) now cvs e = Inr e' \<Longrightarrow> e_TenantID e' = e_TenantID e"
  "put_row (execution_table sc) now cvs e = Inr e' \<Longrightarrow> e_ID e' = e_ID e"
proof -
  have w: "tb_put workflow_table now c v r = Inr r' \<Longrightarrow> w_TenantID r' = w_TenantID r \<and> w_ID r' = w_ID r" for now c v r r'
    by (auto simp: workflow_table_def workflow_put_def put_defs split: sqlval.splits option.splits if_splits)
  have e: "tb_put (execution_table sc) now c v r = Inr r' \<Longrightarrow> e_TenantID r' = e_TenantID r \<and> e_ID r' = e_ID r" for now c v r r'
    by (auto simp: execution_table_def execution_put_def put_defs split: sqlval.splits option.splits if_splits)
  show "put_row workflow_table now cvs w = Inr w' \<Longrightarrow> w_TenantID w' = w_TenantID w"
    "put_row workflow_table now cvs w = Inr w' \<Longrightarrow> w_ID w' = w_ID w"
    using put_cols_keep [where t = workflow_table and k = w_TenantID] put_cols_keep [where t = workflow_table and k = w_ID] w
    unfolding put_row_Inr by blast+
  show "put_row (execution_table sc) now cvs e = Inr e' \<Longrightarrow> e_TenantID e' = e_TenantID e"
    "put_row (execution_table sc) now cvs e = Inr e' \<Longrightarrow> e_ID e' = e_ID e"
    using put_cols_keep [where t = "execution_table sc" and k = e_TenantID] put_cols_keep [where t = "execution_table sc" and k = e_ID] e
    unfolding put_row_Inr by blast+
qed

lemma exec_Update_confined:
  assumes s: "shared T others \<sigma>" and i: "\<exists>r \<in> set (executions (db \<sigma>)). e_ID r = i \<and> e_TenantID r = T"
  shows "confined T others (exec_Update i v data) \<sigma>"
  unfolding exec_Update_def
proof (intro result_confined write_executions_confined [OF s])
  let ?q = "\<lambda>r. e_TenantID r = T" and ?t = "execution_table (sch \<sigma>)" and ?p = "\<lambda>r. e_ID r = i \<and> e_Version r = v"
  let ?cvs = "versioned v data" and ?rows = "executions (db \<sigma>)"
  let ?f = "update_rows ?t (clock \<sigma>) ?cvs [''id'', ''version''] ?p"
  have d: "distinct (map e_ID ?rows)" using s by (simp add: shared_def sound_def)
  have own: "?p r \<Longrightarrow> r \<in> set ?rows \<Longrightarrow> ?q r" for r using i distinct_key_eq [OF d] by metis
  have tenant: "put_row ?t (clock \<sigma>) ?cvs r = Inr r' \<Longrightarrow> ?q r' = ?q r" for r r' by (auto dest: row_tenant_kept(3))
  have ids: "distinct (map e_ID rows')" if "put_rows ?t (clock \<sigma>) ?cvs ?p ?rows = Inr rows'" for rows'
    using put_rows_key [OF that row_tenant_kept(4)] d by simp
  have clash: "tb_clash ?t = (\<lambda>a b. e_ID a = e_ID b)" by (simp add: execution_table_def)
  have same: "has_clash (tb_clash ?t) xs = has_clash (tb_clash ?t) (filter ?q xs)" if "distinct (map e_ID xs)" for xs
    unfolding clash using distinct_no_clash [OF that] has_clash_filter [OF distinct_no_clash [OF that]] by blast
  have "?f (filter ?q ?rows) = (case ?f ?rows of Inl e \<Rightarrow> Inl e | Inr (n, rs) \<Rightarrow> Inr (n, filter ?q rs))"
    by (rule update_rows_filter [OF own tenant same [OF ids]])
  then show "?f (executions (rows_of T (db \<sigma>))) = (case ?f ?rows of Inl e \<Rightarrow> Inl e | Inr (n, es) \<Rightarrow> Inr (n, filter ?q es))"
    by (simp add: rows_of_def)
  fix n es assume "?f ?rows = Inr (n, es)"
  then have put: "put_rows ?t (clock \<sigma>) ?cvs ?p ?rows = Inr es" by (simp add: update_rows_Inr)
  show "distinct (map e_ID es) \<and> filter (\<lambda>r. e_TenantID r \<noteq> T) es = filter (\<lambda>r. e_TenantID r \<noteq> T) ?rows"
    using ids [OF put] put_rows_others [where q = ?q, OF put own tenant] by simp
qed

lemma workflow_ids_distinct: "\<not> has_clash workflow_clash ws \<Longrightarrow> distinct (map w_ID ws)"
  by (induction ws) (auto simp: list_ex_iff workflow_clash_def)

lemma workflow_clash_table: "tb_clash workflow_table = workflow_clash"
  by (simp add: workflow_table_def)

lemma workflow_update_confined:
  assumes s: "shared T others \<sigma>" and own: "\<And>r. p r \<Longrightarrow> r \<in> set (workflows (db \<sigma>)) \<Longrightarrow> w_TenantID r = T"
  shows "confined T others (write_workflows (\<lambda>now d. update_rows workflow_table now cvs cc p (workflows d))) \<sigma>"
proof (rule write_workflows_confined [OF s])
  let ?q = "\<lambda>r. w_TenantID r = T" and ?rows = "workflows (db \<sigma>)"
  let ?f = "update_rows workflow_table (clock \<sigma>) cvs cc p"
  have tenant: "put_row workflow_table (clock \<sigma>) cvs r = Inr r' \<Longrightarrow> ?q r' = ?q r" for r r' by (auto dest: row_tenant_kept(1))
  have nc: "\<not> has_clash workflow_clash ?rows" using s by (simp add: shared_def sound_def)
  have kept: "filter (\<lambda>r. \<not> ?q r) rows' = filter (\<lambda>r. \<not> ?q r) ?rows" if "put_rows workflow_table (clock \<sigma>) cvs p ?rows = Inr rows'" for rows'
    by (rule put_rows_others [OF that own tenant])
  have cross: "has_clash workflow_clash rows' = has_clash workflow_clash (filter ?q rows')"
    if put: "put_rows workflow_table (clock \<sigma>) cvs p ?rows = Inr rows'" for rows'
  proof -
    have ids: "map w_ID rows' = map w_ID ?rows" by (rule put_rows_key [OF put row_tenant_kept(2)])
    have "distinct (map w_ID ?rows)" using nc by (rule workflow_ids_distinct)
    then have "distinct (map w_ID rows')" using ids by simp
    then have "\<not> (\<exists>x \<in> set rows'. \<exists>y \<in> set rows'. ?q x \<and> \<not> ?q y \<and> workflow_clash x y)"
      using distinct_key_eq [of w_ID rows'] by (auto simp: workflow_clash_def)
    moreover have "\<not> has_clash workflow_clash (filter (\<lambda>r. \<not> ?q r) rows')"
      unfolding kept [OF put] by (rule has_clash_filter [OF nc])
    ultimately show ?thesis using has_clash_split [of workflow_clash rows' ?q, OF clash_sym] by blast
  qed
  have "?f (filter ?q ?rows) = (case ?f ?rows of Inl e \<Rightarrow> Inl e | Inr (n, rs) \<Rightarrow> Inr (n, filter ?q rs))"
    by (rule update_rows_filter [OF own tenant]) (simp_all add: cross workflow_clash_table)
  then show "?f (workflows (rows_of T (db \<sigma>))) = (case ?f ?rows of Inl e \<Rightarrow> Inl e | Inr (n, es) \<Rightarrow> Inr (n, filter ?q es))"
    by (simp add: rows_of_def)
  fix n ws assume u: "?f ?rows = Inr (n, ws)"
  then have put: "put_rows workflow_table (clock \<sigma>) cvs p ?rows = Inr ws" by (simp add: update_rows_Inr)
  have "\<not> has_clash workflow_clash ws"
  proof (cases "n = 0")
    case True
    with u nc update_rows_zero show ?thesis by blast
  next
    case False
    with u show ?thesis by (auto simp: update_rows_Inr workflow_table_def)
  qed
  with kept [OF put] show "\<not> has_clash workflow_clash ws \<and> filter (\<lambda>r. w_TenantID r \<noteq> T) ws = filter (\<lambda>r. w_TenantID r \<noteq> T) ?rows" by simp
qed

lemma workflow_writes_confined:
  assumes "shared T others \<sigma>"
  shows "(\<And>r. r \<in> set (workflows (db \<sigma>)) \<Longrightarrow> w_ID r = i \<Longrightarrow> w_TenantID r = T) \<Longrightarrow> confined T others (wf_Update i data) \<sigma>"
    and "confined T others (wf_Delete T name) \<sigma>"
  unfolding wf_Update_def wf_Delete_def by (intro result_confined workflow_update_confined [OF assms]; simp)+

subsection \<open>Ids and transactions\<close>

lemma new_uuid_confined: "shared T others \<sigma> \<Longrightarrow> confined T others new_uuid \<sigma>"
  by (auto simp: confined_def new_uuid_def shared_def alone_def split: list.splits)

lemma new_uuid_free: "shared T others \<sigma> \<Longrightarrow> new_uuid \<sigma> = (i, \<sigma>') \<Longrightarrow> i \<notin> row_ids others"
  by (auto simp: new_uuid_def shared_def split: list.splits)

lemma Begin_confined: "shared T others \<sigma> \<Longrightarrow> confined T others (Begin tenantID) \<sigma>"
  by (auto simp: confined_def Begin_def run_stmt_def Let_def shared_def alone_def
      split: list.splits option.splits sum.splits prod.splits if_splits)

lemma Commit_confined: "shared T others \<sigma> \<Longrightarrow> confined T others (Commit has_tx) \<sigma>"
  by (auto simp: confined_def Commit_def Let_def shared_def alone_def split: list.splits option.splits if_splits)

lemma Rollback_confined: "shared T others \<sigma> \<Longrightarrow> confined T others (Rollback has_tx) \<sigma>"
  by (auto simp: confined_def Rollback_def Let_def shared_def alone_def split: list.splits option.splits if_splits)

end
