(* ===== verification/Tenants.thy ===== *)
theory Tenants imports Isolation Handlers Examples begin

text \<open>
  The services and handlers of workflows and executions, for several tenants on one database: every request of a tenant
  is answered as if the tenant were alone, and any interleaving of requests looks to each tenant like its own requests.
\<close>

subsection \<open>Confined operations of the services\<close>

definition alone_svc :: "string \<Rightarrow> svc \<Rightarrow> svc" where
  "alone_svc T s = s\<lparr>ses := alone T (ses s)\<rparr>"

definition confines :: "string \<Rightarrow> database \<Rightarrow> (svc \<Rightarrow> 'a \<times> svc) \<Rightarrow> svc \<Rightarrow> bool" where
  "confines T others f s \<longleftrightarrow> (case f s of (r, s') \<Rightarrow> f (alone_svc T s) = (r, alone_svc T s') \<and> shared T others (ses s'))"

lemma alone_svc_sel [simp]: "ses (alone_svc T s) = alone T (ses s)" "queue (alone_svc T s) = queue s"
  "push_faults (alone_svc T s) = push_faults s"
  by (simp_all add: alone_svc_def)

lemma confines_on_ses:
  assumes "confined T others (m s) (ses s)" "m (alone_svc T s) = m s"
  shows "confines T others (\<lambda>s. on_ses (m s) s) s"
  using assms by (auto simp: confines_def confined_def on_ses_def alone_svc_def split: prod.splits)

lemma confines_pure: "shared T others (ses s) \<Longrightarrow> x (alone_svc T s) = x s \<Longrightarrow> confines T others (\<lambda>s. (x s, s)) s"
  by (simp add: confines_def)

lemma confines_sum:
  assumes "confines T others f s" "\<And>x s'. f s = (Inr x, s') \<Longrightarrow> shared T others (ses s') \<Longrightarrow> confines T others (k x) s'"
  shows "confines T others (\<lambda>s. case f s of (Inl e, s1) \<Rightarrow> (g e, s1) | (Inr x, s1) \<Rightarrow> k x s1) s"
  using assms by (auto simp: confines_def split: prod.splits sum.splits)

lemma confines_option:
  assumes "confines T others f s" "\<And>s'. f s = (None, s') \<Longrightarrow> shared T others (ses s') \<Longrightarrow> confines T others k s'"
  shows "confines T others (\<lambda>s. case f s of (Some e, s1) \<Rightarrow> (g e, s1) | (None, s1) \<Rightarrow> k s1) s"
    and "confines T others (\<lambda>s. case f s of (None, s1) \<Rightarrow> k s1 | (Some e, s1) \<Rightarrow> (g e, s1)) s"
  using assms by (auto simp: confines_def split: prod.splits option.splits)

lemma confines_then:
  assumes "confines T others f s" "\<And>x s'. f s = (x, s') \<Longrightarrow> shared T others (ses s') \<Longrightarrow> confines T others (k x) s'"
  shows "confines T others (\<lambda>s. case f s of (x, s1) \<Rightarrow> k x s1) s"
  using assms by (auto simp: confines_def split: prod.splits)

lemma confines_case:
  assumes "\<And>e. x = Inl e \<Longrightarrow> confines T others (f e) s" "\<And>y. x = Inr y \<Longrightarrow> confines T others (g y) s"
  shows "confines T others (\<lambda>s. case x of Inl e \<Rightarrow> f e s | Inr y \<Rightarrow> g y s) s"
  using assms by (cases x) simp_all

lemma confines_prod:
  assumes "\<And>a b. x = (a, b) \<Longrightarrow> confines T others (f a b) s"
  shows "confines T others (\<lambda>s. case x of (a, b) \<Rightarrow> f a b s) s"
  using assms by (cases x) simp

lemma confines_RPush: "shared T others (ses s) \<Longrightarrow> confines T others (RPush v) s"
  by (auto simp: confines_def RPush_def alone_svc_def split: list.splits option.splits)

lemma confines_in_tx:
  assumes s: "shared T others (ses s)"
    and body: "\<And>s1. on_ses (Begin c) s = (None, s1) \<Longrightarrow> shared T others (ses s1) \<Longrightarrow> confines T others body s1"
  shows "confines T others (in_tx c body) s"
proof -
  have b: "confines T others (\<lambda>s. on_ses (Begin c) s) s" by (rule confines_on_ses [OF Begin_confined [OF s]]) simp
  have r: "confines T others (\<lambda>s. on_ses (Rollback True) s) s" if "shared T others (ses s)" for s
    by (rule confines_on_ses [OF Rollback_confined [OF that]]) simp
  have r': "confines T others (\<lambda>s. (x, snd (on_ses (Rollback True) s))) s" if "shared T others (ses s)" for x :: "err + 'a" and s
    using r [OF that] by (auto simp: confines_def split: prod.splits)
  have tx: "in_tx c body = (\<lambda>s. case on_ses (Begin c) s of (Some e, s1) \<Rightarrow> (Inl e, s1)
      | (None, s1) \<Rightarrow> (case body s1 of (r, s2) \<Rightarrow> (r, snd (on_ses (Rollback True) s2))))"
    by (simp add: in_tx_def transact_def fun_eq_iff)
  show ?thesis unfolding tx by (rule confines_option(1) [OF b], rule confines_then [OF body r'])
qed

lemma workflow_reads_confined:
  assumes s: "shared T others (ses s)"
  shows "confines T others (workflow_Get T i) s" "confines T others (workflow_List n tok T name) s"
    "confines T others (workflow_ListVersions T name) s"
proof -
  show "confines T others (workflow_Get T i) s"
    unfolding workflow_Get_def
    by (intro confines_sum confines_on_ses Get_confined(1) confines_case confines_pure s refl) simp_all
  show "confines T others (workflow_List n tok T name) s"
    unfolding workflow_List_def Let_def
    by (intro confines_case confines_prod confines_sum confines_on_ses Lists_confined(1) confines_pure s refl) simp_all
  show "confines T others (workflow_ListVersions T name) s"
    unfolding workflow_ListVersions_def
    by (intro confines_sum confines_on_ses Lists_confined(3) confines_pure s refl) simp_all
qed

lemma new_uuid_confines: "shared T others (ses s) \<Longrightarrow> confines T others (\<lambda>s. on_ses new_uuid s) s"
  by (intro confines_on_ses new_uuid_confined) simp_all

lemma new_uuid_own: "on_ses new_uuid s = (i, s') \<Longrightarrow> shared T others (ses s) \<Longrightarrow> i \<notin> row_ids others"
  by (auto simp: on_ses_pair dest: new_uuid_free)

lemma confines_let:
  "confines T others (f (x s)) s \<Longrightarrow> x (alone_svc T s) = x s \<Longrightarrow> confines T others (\<lambda>s1. let y = x s1 in f y s1) s"
  by (simp add: confines_def)

lemma wf_Create_confines:
  assumes "shared T others (ses s)" "w_TenantID w = T" "w_ID w \<notin> row_ids others"
  shows "confines T others (\<lambda>s. on_ses (wf_Create w) s) s"
  by (intro confines_on_ses wf_Create_confined assms refl)

lemma workflow_Create_confined:
  assumes s: "shared T others (ses s)"
  shows "confines T others (workflow_Create ro T req) s"
  unfolding workflow_Create_def
  by (intro confines_option(1) confines_case confines_let confines_then wf_Create_confines confines_pure new_uuid_confines s)
    (auto simp: new_workflow_def dest: new_uuid_own [OF _ s])

lemma workflow_Delete_confined: "shared T others (ses s) \<Longrightarrow> confines T others (workflow_Delete T name) s"
  unfolding workflow_Delete_def by (intro confines_on_ses workflow_writes_confined(2)) simp_all

lemma create_steps_confined:
  assumes "shared T others \<sigma>" "\<exists>e \<in> set (executions (db \<sigma>)). e_ID e = x \<and> e_TenantID e = T"
  shows "confined T others (create_steps T x defs) \<sigma>"
  using assms
proof (induction defs arbitrary: \<sigma>)
  case Nil
  then show ?case by (simp add: confined_def)
next
  case (Cons d defs)
  obtain i \<sigma>1 where i: "new_uuid \<sigma> = (i, \<sigma>1)" by fastforce
  note I = confinedD [OF new_uuid_confined [OF Cons.prems(1)] i] new_uuid_free [OF Cons.prems(1) i] new_uuid_result [OF i]
  obtain r \<sigma>2 where r: "step_Create (new_step i T x d) \<sigma>1 = (r, \<sigma>2)" by fastforce
  have "confined T others (step_Create (new_step i T x d)) \<sigma>1"
    using I Cons.prems(2) by (intro step_Create_confined) (simp_all add: new_step_def)
  note R = confinedD [OF this r] step_Create_result [OF r]
  have "executions (db \<sigma>2) = executions (db \<sigma>)" using R(2) I(3) by (cases r) auto
  with Cons.IH [of \<sigma>2] R(1) Cons.prems(2) I(1) i r show ?case
    by (cases r) (auto simp: confined_def)
qed

lemma Commit_confines: "shared T others (ses s) \<Longrightarrow> confines T others (\<lambda>s. on_ses (Commit True) s) s"
  by (intro confines_on_ses Commit_confined) simp_all

text \<open>What the bodies of \<open>Trigger\<close> and \<open>Retry\<close> need of the workflow, and how they create the rows.\<close>

definition own_workflow :: "string \<Rightarrow> string \<Rightarrow> svc \<Rightarrow> bool" where
  "own_workflow T i s \<longleftrightarrow> (\<exists>w \<in> set (workflows (db (ses s))). w_ID w = i \<and> w_TenantID w = T)"

lemma exec_Create_confines:
  assumes "shared T others (ses s)" "i \<notin> row_ids others" "own_workflow T wid s"
  shows "confines T others (\<lambda>s. on_ses (exec_Create (new_execution i T wid trg v c)) s) s"
  by (intro confines_on_ses exec_Create_confined assms(1) refl)
    (use assms(2,3) in \<open>simp_all add: new_execution_def own_workflow_def\<close>)

lemma create_steps_confines:
  assumes "on_ses (exec_Create (new_execution i T wid trg v c)) s = (None, s')" "shared T others (ses s')"
  shows "confines T others (\<lambda>s. on_ses (create_steps T i steps) s) s'"
proof (intro confines_on_ses create_steps_confined assms(2) refl)
  obtain \<sigma>' where \<sigma>': "exec_Create (new_execution i T wid trg v c) (ses s) = (None, \<sigma>')" "ses s' = \<sigma>'"
    using assms(1) by (auto simp: on_ses_pair)
  with exec_Create_result [OF \<sigma>'(1)] show "\<exists>e \<in> set (executions (db (ses s'))). e_ID e = i \<and> e_TenantID e = T"
    by (simp add: new_execution_def)
qed

lemma own_workflow_kept:
  "on_ses new_uuid s = (i, s') \<Longrightarrow> own_workflow T w s' = own_workflow T w s"
  "on_ses (Begin c) s = (None, s') \<Longrightarrow> own_workflow T w s' = own_workflow T w s"
proof -
  have "db (ses s') = db (ses s) \<Longrightarrow> own_workflow T w s' = own_workflow T w s" by (simp add: own_workflow_def)
  then show "on_ses new_uuid s = (i, s') \<Longrightarrow> own_workflow T w s' = own_workflow T w s"
    "on_ses (Begin c) s = (None, s') \<Longrightarrow> own_workflow T w s' = own_workflow T w s"
    by (auto simp: on_ses_pair dest: new_uuid_result store_begin_ok)
qed

lemma trigger_body_confined:
  assumes s: "shared T others (ses s)" and w: "w_TenantID w = T" "own_workflow T (w_ID w) s"
  shows "confines T others (trigger_body trg w) s"
  unfolding trigger_body_def w(1)
  by (intro confines_option(1) confines_case confines_let confines_then confines_pure create_steps_confines exec_Create_confines
      Commit_confines confines_RPush new_uuid_confines s)
    (use w(2) in \<open>auto dest: new_uuid_own [OF _ s] own_workflow_kept(1)\<close>)

lemma retry_body_confined:
  assumes s: "shared T others (ses s)" and w: "e_TenantID e = T" "own_workflow T (e_WorkflowID e) s"
  shows "confines T others (retry_body has_cache T e w) s"
proof -
  have push: "confines T others (\<lambda>s. (Inr () :: err + unit, if has_cache then snd (RPush i s) else s)) s"
    if "shared T others (ses s)" for i s
    using confines_RPush [OF that, of i] that by (auto simp: confines_def split: prod.splits)
  show ?thesis unfolding retry_body_def w(1)
    by (intro confines_option(1) confines_case confines_let confines_then confines_pure create_steps_confines exec_Create_confines
        Commit_confines push new_uuid_confines s)
      (use w(2) in \<open>auto dest: new_uuid_own [OF _ s] own_workflow_kept(1)\<close>)
qed

lemma workflow_Trigger_confined:
  assumes s: "shared T others (ses s)"
  shows "confines T others (workflow_Trigger c T wid trg) s"
  unfolding workflow_Trigger_def
proof (intro confines_sum confines_on_ses Get_confined(1) confines_in_tx trigger_body_confined s refl)
  fix wfl s1 s2
  assume g: "on_ses (wf_Get [(''id'', TextV wid), (''tenant_id'', TextV T)]) s = (Inr wfl, s1)"
    and b: "on_ses (Begin c) s1 = (None, s2)"
  obtain \<sigma> where "wf_Get [(''id'', TextV wid), (''tenant_id'', TextV T)] (ses s) = (Inr wfl, \<sigma>)" "ses s1 = \<sigma>"
    using g by (auto simp: on_ses_pair)
  from wf_Get_result [OF this(1)] this(2)
  have "wfl \<in> set (workflows (db (ses s1)))" "row_eq workflow_table [(''id'', TextV wid), (''tenant_id'', TextV T)] wfl" by simp_all
  moreover from this(2) show "w_TenantID wfl = T" by (rule tenant_conds) simp
  ultimately show "own_workflow T (w_ID wfl) s2" unfolding own_workflow_kept(2) [OF b] by (auto simp: own_workflow_def)
qed simp_all

lemma exec_Get_own:
  assumes "on_ses (exec_Get [(''id'', TextV i), (''tenant_id'', TextV T)]) s = (Inr e, s')"
  shows "e \<in> set (executions (db (ses s'))) \<and> e_TenantID e = T"
proof -
  obtain \<sigma> where "exec_Get [(''id'', TextV i), (''tenant_id'', TextV T)] (ses s) = (Inr e, \<sigma>)" "ses s' = \<sigma>"
    using assms by (auto simp: on_ses_pair)
  from exec_Get_result [OF this(1)] this(2)
  have "e \<in> set (executions (db (ses s')))" "row_eq (execution_table (sch (ses s))) [(''id'', TextV i), (''tenant_id'', TextV T)] e"
    by simp_all
  then show ?thesis using tenant_conds(2) by fastforce
qed

lemma execution_Retry_confined:
  assumes s: "shared T others (ses s)"
  shows "confines T others (execution_Retry has_cache c T i) s"
proof -
  have "confines T others (\<lambda>s. if b then (e', s) else f s) s" if "shared T others (ses s)" "\<not> b \<Longrightarrow> confines T others f s"
    for b and e' :: "err + unit" and f s using that by (simp add: confines_def)
  note cond = this
  show ?thesis unfolding execution_Retry_def
  proof (intro confines_sum confines_on_ses Get_confined cond confines_in_tx retry_body_confined s refl)
    fix e :: Execution and s1 and w :: Workflow and s2 s3
    let ?fs = "[(''id'', TextV (e_WorkflowID e)), (''version'', NumV (e_Version e)), (''tenant_id'', TextV T)]"
    assume e: "on_ses (exec_Get [(''id'', TextV i), (''tenant_id'', TextV T)]) s = (Inr e, s1)"
      and w: "on_ses (wf_Get ?fs) s1 = (Inr w, s2)" and b: "on_ses (Begin c) s2 = (None, s3)"
    show "e_TenantID e = T" using exec_Get_own [OF e] by blast
    obtain \<sigma> where "wf_Get ?fs (ses s1) = (Inr w, \<sigma>)" "ses s2 = \<sigma>" using w by (auto simp: on_ses_pair)
    from wf_Get_result [OF this(1)] this(2)
    have "w \<in> set (workflows (db (ses s2)))" "row_eq workflow_table ?fs w" by simp_all
    moreover from this(2) have "w_TenantID w = T" by (rule tenant_conds) simp
    moreover from \<open>row_eq workflow_table ?fs w\<close> have "w_ID w = e_WorkflowID e"
      by (simp add: row_eq_def workflow_table_def workflow_get_def)
    ultimately show "own_workflow T (e_WorkflowID e) s3" unfolding own_workflow_kept(2) [OF b] by (auto simp: own_workflow_def)
  qed simp_all
qed

lemma execution_Cancel_confined:
  assumes s: "shared T others (ses s)"
  shows "confines T others (execution_Cancel T i) s"
proof -
  have "confines T others (\<lambda>s. if b then (e', s) else f s) s" if "shared T others (ses s)" "\<not> b \<Longrightarrow> confines T others f s"
    for b and e' :: "err option" and f s using that by (simp add: confines_def)
  note cond = this
  show ?thesis unfolding execution_Cancel_def
    by (intro confines_sum confines_on_ses Get_confined(2) cond exec_Update_confined s refl) (auto dest: exec_Get_own)
qed

lemma execution_reads_confined:
  assumes s: "shared T others (ses s)"
  shows "confines T others (execution_Get T i) s"
    and "le_TenantID req = T \<Longrightarrow> confines T others (execution_List req) s"
    and "confines T others (stepexec_Get T i) s"
  unfolding execution_Get_def execution_List_def stepexec_Get_def
  by (intro confines_case confines_prod confines_sum confines_on_ses Get_confined Lists_confined(2) confines_pure s refl;
      simp add: execution_filters_def)+

subsection \<open>Update and Rollback, of the tenant the request names\<close>

lemma locked_own:
  assumes "on_ses (wf_GetForUpdate T n v c) s = (Inr i, s')" "shared T others (ses s)"
  shows "i \<notin> w_ID ` set (workflows others)"
proof -
  obtain \<sigma> where "wf_GetForUpdate T n v c (ses s) = (Inr i, \<sigma>)" using assms(1) by (auto simp: on_ses_pair)
  from wf_GetForUpdate_result [OF this] obtain x where x: "x \<in> set (workflows (db (ses s)))" "w_ID x = i" "w_TenantID x = T" by blast
  have "distinct (map w_ID (workflows (db (ses s))))"
    using assms(2) by (intro workflow_ids_distinct) (simp add: shared_def sound_def)
  from distinct_key_eq [OF this _ x(1)] x(2,3) show ?thesis by (auto simp: shared_part(3) [OF assms(2)])
qed

lemma wf_Update_confines:
  assumes "shared T others (ses s)" "i \<notin> w_ID ` set (workflows others)" "d (alone_svc T s) = d s"
  shows "confines T others (\<lambda>s. on_ses (wf_Update i (d s)) s) s"
  by (intro confines_on_ses workflow_writes_confined(1)) (use assms in \<open>auto simp: shared_part(3) [OF assms(1)]\<close>)

lemma workflow_Update_confined:
  assumes s: "shared T others (ses s)" and req: "wr_TenantID req = T"
  shows "confines T others (workflow_Update ro c req) s"
proof -
  have create: "confines T others (\<lambda>s. on_ses (wf_Create (new_workflow i T n d j (clock (ses s)) v)) s) s"
    if "shared T others (ses s)" "i \<notin> row_ids others" for i n d j v s
    by (intro confines_on_ses wf_Create_confined that) (simp_all add: new_workflow_def that(2))
  have body: "confines T others (update_body req) s" if s: "shared T others (ses s)" for s
    unfolding update_body_def req
    by (intro confines_option(1) confines_sum confines_then create wf_Update_confines Commit_confines new_uuid_confines
        confines_pure confines_on_ses [OF GetForUpdate_confined] s)
      (auto dest: locked_own [OF _ s] new_uuid_own)
  have tx: "confines T others (in_tx c (update_body req)) s" by (intro confines_in_tx body s)
  show ?thesis unfolding workflow_Update_def by (intro confines_case confines_pure tx s) simp_all
qed

lemma workflow_Rollback_confined:
  assumes s: "shared T others (ses s)" and req: "rb_TenantID req = T"
  shows "confines T others (workflow_Rollback c req) s"
proof -
  have "confines T others (rollback_body req) s" if s: "shared T others (ses s)" for s
    unfolding rollback_body_def req
    by (intro confines_option(1) confines_sum wf_Update_confines Commit_confines
        confines_pure confines_on_ses [OF GetForUpdate_confined] s)
      (auto dest: locked_own [OF _ s] locked_own)
  then show ?thesis unfolding workflow_Rollback_def by (intro confines_in_tx s)
qed

subsection \<open>Requests\<close>

text \<open>The endpoints of workflows and executions, as \<open>NewRouter\<close> installs them, with what the path and the body carry.\<close>

datatype tenant_request =
    CreateWorkflow "WorkflowRequest option"
  | UpdateWorkflow "WorkflowRequest option"
  | DeleteWorkflow string
  | TriggerWorkflow string
  | RollbackWorkflow "WorkflowRollbackRequest option"
  | ListWorkflows
  | GetWorkflow string
  | ListWorkflowVersions string
  | RetryExecution string
  | CancelExecution string
  | ListExecutions
  | GetExecution string

datatype tenant_answer =
    WorkflowAnswer "WorkflowResponse answer"
  | WorkflowsAnswer "(WorkflowResponse list \<times> nat) answer"
  | VersionsAnswer "WorkflowVersion list answer"
  | TriggerAnswer "Execution answer"
  | ExecutionAnswer "ExecutionResponse answer"
  | ExecutionsAnswer "(ExecutionResponse list \<times> nat) answer"
  | PlainAnswer "unit answer"

definition respond :: "(string list \<Rightarrow> string list) \<Rightarrow> bool \<Rightarrow> ctx \<Rightarrow> tenant_request \<Rightarrow> svc \<Rightarrow> tenant_answer \<times> svc" where
  "respond ro has_cache cx q s =
     (case q of
        CreateWorkflow body \<Rightarrow> apfst WorkflowAnswer (handle_workflow_Create ro cx body s)
      | UpdateWorkflow body \<Rightarrow> apfst PlainAnswer (handle_workflow_Update ro cx body s)
      | DeleteWorkflow name \<Rightarrow> apfst PlainAnswer (handle_workflow_Delete cx name s)
      | TriggerWorkflow i \<Rightarrow> apfst TriggerAnswer (handle_workflow_Trigger cx i s)
      | RollbackWorkflow body \<Rightarrow> apfst PlainAnswer (handle_workflow_Rollback cx body s)
      | ListWorkflows \<Rightarrow> apfst WorkflowsAnswer (handle_workflow_List cx s)
      | GetWorkflow i \<Rightarrow> apfst WorkflowAnswer (handle_workflow_Get cx i s)
      | ListWorkflowVersions name \<Rightarrow> apfst VersionsAnswer (handle_workflow_ListVersions cx name s)
      | RetryExecution i \<Rightarrow> apfst PlainAnswer (handle_execution_Retry has_cache cx i s)
      | CancelExecution i \<Rightarrow> apfst PlainAnswer (handle_execution_Cancel cx i s)
      | ListExecutions \<Rightarrow> apfst ExecutionsAnswer (handle_execution_List cx s)
      | GetExecution i \<Rightarrow> apfst ExecutionAnswer (handle_execution_Get cx i s))"

text \<open>\<open>Update\<close> and \<open>Rollback\<close> act for the tenant in the body; the others for the tenant of the token.\<close>

definition names_tenant :: "string \<Rightarrow> tenant_request \<Rightarrow> bool" where
  "names_tenant T q = (case q of UpdateWorkflow (Some req) \<Rightarrow> wr_TenantID req = T
     | RollbackWorkflow (Some req) \<Rightarrow> rb_TenantID req = T | _ \<Rightarrow> True)"

lemma confines_answer:
  assumes "confines T others f s"
  shows "confines T others (\<lambda>s. apfst h (f s)) s"
  using assms by (auto simp: confines_def split: prod.splits)

lemma confines_success:
  assumes "confines T others f s"
  shows "confines T others (\<lambda>s. SuccessWithData code message (f s)) s"
  using assms by (auto simp: confines_def SuccessWithData_def split: prod.splits sum.splits)

lemma confines_message:
  assumes "confines T others f s"
  shows "confines T others (\<lambda>s. SuccessMessage code message (f s)) s"
  using assms by (auto simp: confines_def SuccessMessage_def split: prod.splits option.splits)

lemma confines_no_value:
  assumes "confines T others f s"
  shows "confines T others (\<lambda>s. no_value (f s)) s"
  using assms by (auto simp: confines_def no_value_def split: prod.splits sum.splits)

lemma confines_required:
  assumes "shared T others (ses s)" "GetContext v = T" "confines T others (k T) s"
  shows "confines T others (required v k) s"
  using assms by (auto simp: required_def confines_def)

lemma confines_decoded:
  assumes "shared T others (ses s)" "\<And>req. body = Some req \<Longrightarrow> confines T others (k req) s"
  shows "confines T others (decoded body k) s"
  using assms by (cases body) (simp_all add: decoded_def confines_def)

lemmas handler_defs = handle_workflow_Create_def handle_workflow_Update_def handle_workflow_Delete_def handle_workflow_Trigger_def
  handle_workflow_Rollback_def handle_workflow_List_def handle_workflow_Get_def handle_workflow_ListVersions_def
  handle_execution_Retry_def handle_execution_Cancel_def handle_execution_List_def handle_execution_Get_def

lemma respond_confined:
  assumes s: "shared T others (ses s)" and T: "GetContext (TenantKey cx) = T" and q: "names_tenant T q"
  shows "confines T others (respond ro has_cache cx q) s"
proof -
  note ops = workflow_Create_confined workflow_Update_confined workflow_Delete_confined workflow_Trigger_confined workflow_Rollback_confined
    workflow_reads_confined execution_Retry_confined execution_Cancel_confined execution_reads_confined
  have "confines T others (\<lambda>s. respond ro has_cache cx q s) s"
    using q unfolding respond_def handler_defs
    by (cases q) (simp_all, (intro confines_answer confines_required confines_decoded confines_success confines_message confines_no_value
      confines_sum confines_prod confines_pure ops s T; simp add: names_tenant_def T)+)
  then show ?thesis .
qed

subsection \<open>Histories of requests\<close>

text \<open>A request that has passed the middlewares, with what its session meets: the statements and pushes that fail, the clock,
  and the ids \<open>uuid.New()\<close> will give. It is answered on the tables as they are; the answer comes with the jobs it puts
  into the queue.\<close>

record call =
  cl_ctx :: ctx
  cl_request :: tenant_request
  cl_faults :: "err option list"
  cl_clock :: time
  cl_uuids :: "string list"
  cl_push :: "err option list"

definition caller :: "call \<Rightarrow> string" where
  "caller c = GetContext (TenantKey (cl_ctx c))"

definition call_session :: "schema \<Rightarrow> call \<Rightarrow> database \<Rightarrow> svc" where
  "call_session sc c d = \<lparr>ses = \<lparr>db = d, snap = None, aborted = False, locked = [], faults = cl_faults c, clock = cl_clock c,
     uuids = cl_uuids c, sch = sc\<rparr>, queue = [], push_faults = cl_push c\<rparr>"

definition answer_call :: "(string list \<Rightarrow> string list) \<Rightarrow> schema \<Rightarrow> call \<Rightarrow> database \<Rightarrow> (tenant_answer \<times> string list) \<times> database" where
  "answer_call ro sc c d = (case respond ro True (cl_ctx c) (cl_request c) (call_session sc c d) of
     (a, s) \<Rightarrow> ((a, queue s), db (ses s)))"

fun answer_calls :: "(string list \<Rightarrow> string list) \<Rightarrow> schema \<Rightarrow> call list \<Rightarrow> database \<Rightarrow>
    (call \<times> tenant_answer \<times> string list) list \<times> database" where
  "answer_calls ro sc [] d = ([], d)"
| "answer_calls ro sc (c # cs) d =
     (case answer_call ro sc c d of (a, d1) \<Rightarrow> (case answer_calls ro sc cs d1 of (as, d2) \<Rightarrow> ((c, a) # as, d2)))"

text \<open>What \<open>uuid.New()\<close> promises: the ids it gives to a request are ids of no row of another tenant.\<close>

definition fresh_call :: "call \<Rightarrow> database \<Rightarrow> bool" where
  "fresh_call c d \<longleftrightarrow> insert '''' (set (cl_uuids c)) \<inter> row_ids (other_rows (caller c) d) = {}"

fun fresh_calls :: "(string list \<Rightarrow> string list) \<Rightarrow> schema \<Rightarrow> call list \<Rightarrow> database \<Rightarrow> bool" where
  "fresh_calls ro sc [] d = True"
| "fresh_calls ro sc (c # cs) d = (fresh_call c d \<and> fresh_calls ro sc cs (snd (answer_call ro sc c d)))"

lemma call_session_alone: "alone_svc T (call_session sc c d) = call_session sc c (rows_of T d)"
  by (simp add: alone_svc_def alone_def call_session_def)

lemma answer_call_confined:
  assumes "sound d" "fresh_call c d" "names_tenant (caller c) (cl_request c)" "answer_call ro sc c d = (a, d')"
  shows "answer_call ro sc c (rows_of (caller c) d) = (a, rows_of (caller c) d') \<and> other_rows (caller c) d' = other_rows (caller c) d \<and> sound d'"
proof -
  let ?T = "caller c" and ?s = "call_session sc c d"
  have "shared ?T (other_rows ?T d) (ses ?s)" using assms(1,2) by (simp add: shared_def call_session_def fresh_call_def)
  from respond_confined [OF this _ assms(3), of "cl_ctx c"]
  have "confines ?T (other_rows ?T d) (respond ro True (cl_ctx c) (cl_request c)) ?s" by (simp add: caller_def)
  with assms(4) show ?thesis
    by (auto simp: confines_def answer_call_def call_session_alone shared_def split: prod.splits)
qed

lemma other_part:
  assumes "other_rows U d' = other_rows U d" "T \<noteq> U"
  shows "rows_of T d' = rows_of T d"
proof -
  have "rows_of T d = rows_of T (other_rows U d)" for d
    using assms(2) by (auto simp: rows_of_def other_rows_def own_part_def intro: filter_cong)
  then show ?thesis using assms(1) by metis
qed


text \<open>Two tenants; the second asks for the first one's workflow and execution.\<close>

definition demo_call :: "string \<Rightarrow> tenant_request \<Rightarrow> string list \<Rightarrow> call" where
  "demo_call t q us = \<lparr>cl_ctx = \<lparr>RoleKey = Some ''admin'', UserKey = Some ''u'', TenantKey = Some t, RefUuidKey = None, AccUuidKey = None\<rparr>,
     cl_request = q, cl_faults = [], cl_clock = 2000, cl_uuids = us, cl_push = []\<rparr>"

definition demo_shared :: database where
  "demo_shared = \<lparr>executions = [], step_executions = [],
     workflows = [demo_workflow, demo_workflow\<lparr>w_ID := ''w2'', w_TenantID := ''t2''\<rparr>],
     tenants = [demo_tenant, demo_tenant\<lparr>t_ID := ''t2''\<rparr>], users = []\<rparr>"

definition demo_calls :: "call list" where
  "demo_calls = [demo_call ''t1'' (TriggerWorkflow ''w1'') [''x1'', ''s1'', ''s2''], demo_call ''t2'' (TriggerWorkflow ''w1'') [''x2''],
     demo_call ''t2'' ListExecutions [], demo_call ''t1'' (CancelExecution ''x1'') [], demo_call ''t2'' (CancelExecution ''x1'') []]"

text \<open>The status of an answer, how many rows it has, and the jobs.\<close>

definition outcome :: "tenant_answer \<times> string list \<Rightarrow> nat \<times> nat \<times> string list" where
  "outcome r = (case r of
     (TriggerAnswer (Success n m e), js) \<Rightarrow> (n, 1, js) | (TriggerAnswer (Failure h), js) \<Rightarrow> (h_Code h, 0, js)
   | (ExecutionsAnswer (Success n m (Some (es, k))), js) \<Rightarrow> (n, k, js)
   | (PlainAnswer (Failure h), js) \<Rightarrow> (h_Code h, 0, js) | (_, js) \<Rightarrow> (0, 0, js))"


end
