(* ===== verification/Poll_Progress.thy ===== *)
theory Poll_Progress imports Poller_Properties "HOL-Library.Sublist" begin

text \<open>
  Progress of the poller on a database that answers: the pending executions are served in the order of their
  creation, five by each poll, so every one of them leaves the queue after boundedly many polls, whatever other processes take
  from the queue or put behind it between the polls.
\<close>

definition waiting :: "store \<Rightarrow> Execution list" where
  "waiting \<sigma> = sort_key e_CreatedAt (filter (\<lambda>r. e_Status r = StatusExecutionPending) (executions (db \<sigma>)))"

text \<open>A session whose statements succeed, on tables of the shape the Go structs ask for, with no row locked by others.\<close>

definition steady :: "store \<Rightarrow> bool" where
  "steady \<sigma> \<longleftrightarrow> healthy \<sigma> \<and> sch \<sigma> = struct_schema \<and> locked \<sigma> = [] \<and> execution_inv \<sigma> \<and> executions_ok \<sigma>"

definition with_status :: "string \<Rightarrow> string \<Rightarrow> store \<Rightarrow> store" where
  "with_status i s \<sigma> = \<sigma>\<lparr>faults := tl (faults \<sigma>), db := (db \<sigma>)\<lparr>executions := modify_all (\<lambda>r. e_ID r = i)
     (\<lambda>r. r\<lparr>e_Status := s, e_Version := e_Version r + 1, e_UpdatedAt := clock \<sigma>\<rparr>) (executions (db \<sigma>))\<rparr>\<rparr>"

lemma row_in: "execution_row \<sigma> i = Some r \<Longrightarrow> r \<in> set (executions (db \<sigma>)) \<and> e_ID r = i"
  by (auto simp: execution_row_def dest: find_SomeD)

lemma row_unique: "execution_inv \<sigma> \<Longrightarrow> execution_row \<sigma> i = Some r \<Longrightarrow> a \<in> set (executions (db \<sigma>)) \<Longrightarrow> e_ID a = i \<Longrightarrow> a = r"
  using row_in [of \<sigma> i r] distinct_key_eq [of e_ID "executions (db \<sigma>)" a r] by (simp add: execution_inv_def)

lemma exec_Update_status:
  assumes s: "steady \<sigma>" and r: "execution_row \<sigma> i = Some r" and v: "e_Version r + 1 < 2 ^ 31"
    and st: "s \<in> set execution_statuses"
  shows "exec_Update i (e_Version r) [(''status'', TextV s)] \<sigma> = (None, with_status i s \<sigma>)"
proof -
  let ?t = "execution_table struct_schema"
  let ?cvs = "[(''status'', TextV s), (''version'', NumV (e_Version r + 1)), (''updated_at'', NowE)]"
  let ?f = "\<lambda>r. r\<lparr>e_Status := s, e_Version := e_Version r + 1, e_UpdatedAt := clock \<sigma>\<rparr>"
  let ?p = "\<lambda>x. e_ID x = i \<and> e_Version x = e_Version r"
  have inv: "execution_inv \<sigma>" "sch \<sigma> = struct_schema" "healthy \<sigma>" using s by (auto simp: steady_def)
  have i4: "int4 (e_Version r)" using inv(1) row_in [OF r] by (auto simp: execution_inv_def)
  then have cvs: "versioned (e_Version r) [(''status'', TextV s)] = ?cvs" using v by (simp add: versioned_def int4_wrap)
  have row: "put_row ?t (clock \<sigma>) ?cvs x = Inr (?f x)" if x: "x \<in> set (executions (db \<sigma>))" "?p x" for x
  proof -
    have "x = r" using row_unique [OF inv(1) r x(1)] x(2) by blast
    moreover have "tb_check ?t r = None" using s row_in [OF r] by (auto simp: steady_def executions_ok_def)
    ultimately show ?thesis using i4 v st
      by (auto simp: put_row_def execution_table_def execution_put_def put_defs struct_schema_def int4_def split: if_splits)
  qed
  have "put_rows ?t (clock \<sigma>) ?cvs ?p (executions (db \<sigma>)) = Inr (modify_all ?p ?f (executions (db \<sigma>)))"
    using row by (intro put_rows_map)
  moreover have "modify_all ?p ?f (executions (db \<sigma>)) = modify_all (\<lambda>x. e_ID x = i) ?f (executions (db \<sigma>))"
    using row_unique [OF inv(1) r] unfolding modify_all_def by (intro map_cong) auto
  moreover have "missing_column ?t (map fst ?cvs @ [''id'', ''version'']) = None"
    by (simp add: missing_column_def execution_table_def struct_schema_def execution_columns_def)
  moreover have "distinct (map e_ID (modify_all (\<lambda>x. e_ID x = i) ?f (executions (db \<sigma>))))"
    using inv(1) by (simp add: execution_inv_def modify_all_cong_key)
  then have "\<not> has_clash (tb_clash ?t) (modify_all (\<lambda>x. e_ID x = i) ?f (executions (db \<sigma>)))"
    by (simp add: execution_table_def distinct_no_clash)
  ultimately have "update_rows ?t (clock \<sigma>) ?cvs [''id'', ''version''] ?p (executions (db \<sigma>)) =
      Inr (count_rows ?p (executions (db \<sigma>)), modify_all (\<lambda>x. e_ID x = i) ?f (executions (db \<sigma>)))"
    by (simp add: update_rows_Inr)
  moreover have "count_rows ?p (executions (db \<sigma>)) \<noteq> 0" using row_in [OF r] by (auto simp: count_rows_0)
  ultimately show ?thesis
    unfolding exec_Update_def write_executions_def run_stmt_healthy [OF inv(3)] inv(2) cvs
    by (simp add: affected_def with_status_def)
qed

lemma with_status_row:
  "execution_row (with_status i s \<sigma>) j = map_option (\<lambda>r. if j = i
     then r\<lparr>e_Status := s, e_Version := e_Version r + 1, e_UpdatedAt := clock \<sigma>\<rparr> else r) (execution_row \<sigma> j)"
  unfolding execution_row_def with_status_def
  by (auto simp: find_modify_all dest: find_SomeD intro!: option.map_cong0 split: option.split)

lemma with_status_session [simp]: "same_session \<sigma> (with_status i s \<sigma>)" "snap (with_status i s \<sigma>) = snap \<sigma>"
  "clock (with_status i s \<sigma>) = clock \<sigma>" "workflows (db (with_status i s \<sigma>)) = workflows (db \<sigma>)"
  by (simp_all add: with_status_def same_session_def)

lemma with_status_steady:
  assumes "steady \<sigma>" "execution_row \<sigma> i = Some r" "e_Version r + 1 < 2 ^ 31" "s \<in> set execution_statuses"
  shows "steady (with_status i s \<sigma>)"
proof -
  let ?f = "\<lambda>r. r\<lparr>e_Status := s, e_Version := e_Version r + 1, e_UpdatedAt := clock \<sigma>\<rparr>"
  have one: "x = r" if "x \<in> set (executions (db \<sigma>))" "e_ID x = i" for x
    using row_unique [OF _ assms(2) that] assms(1) by (simp add: steady_def)
  have rows: "\<And>x. x \<in> set (executions (db \<sigma>)) \<Longrightarrow> int4 (e_Version x) \<and> tb_check (execution_table struct_schema) x = None"
    "distinct (map e_ID (executions (db \<sigma>)))" "sch \<sigma> = struct_schema"
    using assms(1) by (auto simp: steady_def execution_inv_def executions_ok_def)
  have r: "int4 (e_Version r + 1)" "tb_check (execution_table struct_schema) (?f r) = None"
    using rows(1) [of r] row_in [OF assms(2)] assms(3,4)
    by (auto simp: int4_def execution_table_def struct_schema_def split: if_splits)
  have "healthy (with_status i s \<sigma>)" using assms(1) by (simp add: steady_def with_status_def)
  moreover have "execution_inv (with_status i s \<sigma>)"
    using rows(1,2) r(1) one by (auto simp: execution_inv_def with_status_def modify_all_cong_key set_modify_all)
  moreover have "executions_ok (with_status i s \<sigma>)"
    using rows(1,3) r(2) one by (auto simp: executions_ok_def with_status_def set_modify_all)
  ultimately show ?thesis using assms(1) by (simp add: steady_def with_status_def)
qed

text \<open>An execution given another status leaves the queue; the others keep their places.\<close>

lemma with_status_waiting:
  assumes "s \<noteq> StatusExecutionPending"
  shows "waiting (with_status i s \<sigma>) = filter (\<lambda>r. e_ID r \<noteq> i) (waiting \<sigma>)"
proof -
  have "filter (\<lambda>r. e_Status r = StatusExecutionPending)
      (modify_all (\<lambda>r. e_ID r = i) (\<lambda>r. r\<lparr>e_Status := s, e_Version := e_Version r + 1, e_UpdatedAt := t\<rparr>) rows) =
    filter (\<lambda>r. e_ID r \<noteq> i) (filter (\<lambda>r. e_Status r = StatusExecutionPending) rows)" for t and rows :: "Execution list"
    using assms by (induction rows) auto
  then show ?thesis by (simp add: waiting_def with_status_def filter_sort)
qed

lemma steady_query:
  assumes "steady \<sigma>"
  shows "steady (\<sigma>\<lparr>faults := tl (faults \<sigma>), db := db \<sigma>\<rparr>)"
  using assms healthy_tl [of \<sigma>] by (auto simp: steady_def execution_inv_def executions_ok_def)

lemma steady_end:
  assumes "steady \<sigma>"
  shows "steady (\<sigma>\<lparr>faults := tl (faults \<sigma>), snap := x, aborted := False\<rparr>)"
  using assms healthy_tl [of \<sigma>] by (auto simp: steady_def healthy_def execution_inv_def executions_ok_def)

lemma waiting_row:
  assumes "steady \<sigma>" "x \<in> set (waiting \<sigma>)"
  shows "execution_row \<sigma> (e_ID x) = Some x \<and> e_Status x = StatusExecutionPending"
proof -
  have "distinct (map e_ID (executions (db \<sigma>)))" using assms(1) by (simp add: steady_def execution_inv_def)
  with assms(2) find_unique_key [of e_ID "executions (db \<sigma>)" x] show ?thesis by (auto simp: waiting_def execution_row_def)
qed

lemma waiting_distinct: "steady \<sigma> \<Longrightarrow> distinct (map e_ID (waiting \<sigma>))"
proof -
  assume "steady \<sigma>"
  then have "distinct (map e_ID (executions (db \<sigma>)))" by (simp add: steady_def execution_inv_def)
  then have "distinct (waiting \<sigma>)" "inj_on e_ID (set (waiting \<sigma>))"
    by (auto simp: waiting_def distinct_map intro: inj_on_subset)
  then show ?thesis by (simp add: distinct_map)
qed

lemma acquire_steady:
  assumes "steady \<sigma>"
  shows "exec_AcquireForWorker n \<sigma> = (Inr (take n (waiting \<sigma>)), \<sigma>\<lparr>faults := tl (faults \<sigma>), db := db \<sigma>\<rparr>)"
proof -
  have s: "healthy \<sigma>" "sch \<sigma> = struct_schema" "locked \<sigma> = []" using assms by (auto simp: steady_def)
  have m: "missing_column (execution_table struct_schema) (execution_columns @ [''status'', ''created_at'']) = None"
    by (auto simp: missing_column_def find_None_iff2 execution_table_def struct_schema_def execution_columns_def)
  show ?thesis
    unfolding exec_AcquireForWorker_def read_executions_def query_healthy [OF s(1)] s(2,3) select_rows_def m
    by (simp add: db_result_def page_rows_def waiting_def)
qed

text \<open>The claims of a poll succeed and take their executions out of the queue.\<close>

definition bumped :: "Execution \<Rightarrow> Execution" where
  "bumped x = x\<lparr>e_Version := e_Version x + 1\<rparr>"

lemma bumped_fields [simp]: "e_ID (bumped x) = e_ID x" "e_WorkflowID (bumped x) = e_WorkflowID x"
  "e_Version (bumped x) = e_Version x + 1"
  by (simp_all add: bumped_def)

lemma statuses [simp]: "StatusExecutionRunning \<in> set execution_statuses" "StatusExecutionFailed \<in> set execution_statuses"
  by (simp_all add: execution_statuses_def)

lemma claim_execution_steady:
  assumes "steady \<sigma>" "execution_row \<sigma> (e_ID x) = Some x" "e_Version x + 1 < 2 ^ 31"
  shows "claim_execution x \<sigma> = (bumped x, with_status (e_ID x) StatusExecutionRunning \<sigma>)"
proof -
  have "int4 (e_Version x)" using assms(1,2) row_in [OF assms(2)] by (auto simp: steady_def execution_inv_def)
  then have "wrap64 (e_Version x + 1) = e_Version x + 1" by (rule int4_wrap)
  with exec_Update_status [OF assms statuses(1)] show ?thesis
    by (simp add: claim_execution_def bumped_def)
qed

lemma claim_executions_steady:
  assumes "steady \<sigma>" "distinct (map e_ID xs)"
    and "\<forall>x \<in> set xs. execution_row \<sigma> (e_ID x) = Some x \<and> e_Version x + 1 < 2 ^ 31"
  shows "\<exists>\<sigma>'. claim_executions xs \<sigma> = (map bumped xs, \<sigma>') \<and> steady \<sigma>' \<and> snap \<sigma>' = snap \<sigma> \<and>
    workflows (db \<sigma>') = workflows (db \<sigma>) \<and> waiting \<sigma>' = filter (\<lambda>r. e_ID r \<notin> e_ID ` set xs) (waiting \<sigma>) \<and>
    (\<forall>j. j \<notin> e_ID ` set xs \<longrightarrow> execution_row \<sigma>' j = execution_row \<sigma> j) \<and> (\<forall>x \<in> set xs. claimed \<sigma>' (bumped x))"
  using assms
proof (induction xs arbitrary: \<sigma>)
  case (Cons x xs)
  let ?\<sigma> = "with_status (e_ID x) StatusExecutionRunning \<sigma>"
  have x: "execution_row \<sigma> (e_ID x) = Some x" "e_Version x + 1 < 2 ^ 31" "e_ID x \<notin> e_ID ` set xs"
    using Cons.prems(2,3) by auto
  have "\<forall>y \<in> set xs. execution_row ?\<sigma> (e_ID y) = Some y \<and> e_Version y + 1 < 2 ^ 31"
    using Cons.prems(3) x(3) by (auto simp: with_status_row image_iff)
  from Cons.IH [OF with_status_steady [OF Cons.prems(1) x(1,2) statuses(1)] _ this] Cons.prems(2)
  obtain \<sigma>' where c: "claim_executions xs ?\<sigma> = (map bumped xs, \<sigma>')" "steady \<sigma>'" "snap \<sigma>' = snap \<sigma>"
    "workflows (db \<sigma>') = workflows (db \<sigma>)" "waiting \<sigma>' = filter (\<lambda>r. e_ID r \<notin> e_ID ` set xs) (waiting ?\<sigma>)"
    "\<forall>j. j \<notin> e_ID ` set xs \<longrightarrow> execution_row \<sigma>' j = execution_row ?\<sigma> j" "\<forall>y \<in> set xs. claimed \<sigma>' (bumped y)" by auto
  have "claimed \<sigma>' (bumped x)" using c(6) x by (simp add: claimed_def with_status_row)
  moreover have "waiting \<sigma>' = filter (\<lambda>r. e_ID r \<notin> e_ID ` set (x # xs)) (waiting \<sigma>)"
    unfolding c(5) by (simp add: with_status_waiting conj_commute)
  ultimately show ?case
    using c claim_execution_steady [OF Cons.prems(1) x(1,2)] by (auto simp: with_status_row option.map_ident)
qed simp

text \<open>Starting the claimed executions: one whose workflow is there starts, another fails.\<close>

definition runnable :: "store \<Rightarrow> Execution \<Rightarrow> bool" where
  "runnable \<sigma> x = list_ex (row_eq workflow_table [(''id'', TextV (e_WorkflowID x)), (''is_current'', FlagV True)]) (workflows (db \<sigma>))"

lemma wf_Get_steady:
  assumes "steady \<sigma>"
  shows "\<exists>g. wf_Get [(''id'', TextV (e_WorkflowID x))] \<sigma> = (g, \<sigma>\<lparr>faults := tl (faults \<sigma>), db := db \<sigma>\<rparr>) \<and>
    (isl g \<longleftrightarrow> \<not> runnable \<sigma> x)"
proof -
  have s: "healthy \<sigma>" using assms by (simp add: steady_def)
  have m: "missing_column workflow_table (workflow_columns @ [''id'', ''is_current'']) = None"
    by (auto simp: missing_column_def find_None_iff2 workflow_table_def workflow_columns_def)
  show ?thesis
    unfolding wf_Get_def read_workflows_def query_healthy [OF s] current_conds_def select_rows_def
    by (cases "filter (row_eq workflow_table [(''id'', TextV (e_WorkflowID x)), (''is_current'', FlagV True)]) (workflows (db \<sigma>))")
      (auto simp: m db_result_def collect_one_def runnable_def list_ex_iff filter_empty_conv dest!: filter_eq_ConsD)
qed

definition served :: "worker \<Rightarrow> Execution \<Rightarrow> bool" where
  "served w x \<longleftrightarrow> (if runnable (st (eng w)) x then (\<exists>wfl. (bumped x, wfl) \<in> set (started w)) \<and> claimed (st (eng w)) (bumped x)
     else \<exists>r. execution_row (st (eng w)) (e_ID x) = Some r \<and> e_Status r = StatusExecutionFailed \<and> e_Version r = e_Version x + 2)"

lemma executeOne_steady:
  assumes "steady (st (eng w))" "claimed (st (eng w)) (bumped x)" "e_Version x + 2 < 2 ^ 31"
  shows "let w' = executeOne (bumped x) w in steady (st (eng w')) \<and> snap (st (eng w')) = snap (st (eng w)) \<and>
    workflows (db (st (eng w'))) = workflows (db (st (eng w))) \<and> set (started w) \<subseteq> set (started w') \<and>
    waiting (st (eng w')) = waiting (st (eng w)) \<and>
    (\<forall>j. j \<noteq> e_ID x \<longrightarrow> execution_row (st (eng w')) j = execution_row (st (eng w)) j) \<and> served w' x"
proof -
  let ?\<sigma> = "(st (eng w))\<lparr>faults := tl (faults (st (eng w))), db := db (st (eng w))\<rparr>"
  obtain g where g: "wf_Get [(''id'', TextV (e_WorkflowID x))] (st (eng w)) = (g, ?\<sigma>)" "isl g \<longleftrightarrow> \<not> runnable (st (eng w)) x"
    using wf_Get_steady [OF assms(1)] by blast
  note s = steady_query [OF assms(1)]
  obtain r where r: "execution_row ?\<sigma> (e_ID x) = Some r" "e_Version r = e_Version x + 1" "e_Status r = StatusExecutionRunning"
    using assms(2) by (auto simp: claimed_def execution_row_def)
  show ?thesis
  proof (cases g)
    case (Inl e)
    have v: "e_Version r + 1 < 2 ^ 31" using r(2) assms(3) by simp
    let ?\<sigma>' = "with_status (e_ID x) StatusExecutionFailed ?\<sigma>"
    have u: "exec_Update (e_ID x) (e_Version x + 1) [(''status'', TextV ''FAILED'')] ?\<sigma> = (None, ?\<sigma>')"
      using exec_Update_status [OF s r(1) v statuses(2)] r(2) by simp
    have st: "steady ?\<sigma>'" by (rule with_status_steady [OF s r(1) v statuses(2)])
    have w': "executeOne (bumped x) w = w\<lparr>eng := (eng w)\<lparr>st := ?\<sigma>'\<rparr>\<rparr>"
      using g(1) Inl u by (simp add: executeOne_def on_eng_def)
    have "waiting ?\<sigma>' = filter (\<lambda>y. e_ID y \<noteq> e_ID x) (waiting (st (eng w)))"
      by (simp add: with_status_waiting) (simp add: waiting_def)
    moreover have "e_ID y \<noteq> e_ID x" if "y \<in> set (waiting (st (eng w)))" for y
      using waiting_row [OF assms(1) that] assms(2) by (auto simp: claimed_def)
    ultimately have q: "waiting ?\<sigma>' = waiting (st (eng w))" by (simp add: filter_id_conv)
    have nr: "\<not> runnable ?\<sigma>' x" using g(2) Inl by (simp add: runnable_def)
    have row: "execution_row ?\<sigma>' j = (if j = e_ID x then Some (r\<lparr>e_Status := StatusExecutionFailed, e_Version := e_Version x + 2,
        e_UpdatedAt := clock (st (eng w))\<rparr>) else execution_row (st (eng w)) j)" for j
      using r by (simp add: with_status_row) (simp add: execution_row_def option.map_ident)
    show ?thesis unfolding w' Let_def served_def using st q nr row by simp
  next
    case (Inr wfl)
    have w': "executeOne (bumped x) w = w\<lparr>eng := (eng w)\<lparr>st := ?\<sigma>\<rparr>, started := started w @ [(bumped x, wfl)]\<rparr>"
      using g(1) Inr by (simp add: executeOne_def on_eng_def)
    have run: "runnable ?\<sigma> x" using g(2) Inr by (simp add: runnable_def)
    have row: "execution_row ?\<sigma> = execution_row (st (eng w))" by (simp add: execution_row_def fun_eq_iff)
    have "claimed ?\<sigma> (bumped x)" using assms(2) claimed_row [of ?\<sigma> "bumped x" "st (eng w)"] row by simp
    with s run row show ?thesis unfolding w' Let_def served_def by (auto simp: waiting_def)
  qed
qed

lemma served_mono:
  assumes "served w x" "set (started w) \<subseteq> set (started w')" "workflows (db (st (eng w'))) = workflows (db (st (eng w)))"
    and "execution_row (st (eng w')) (e_ID x) = execution_row (st (eng w)) (e_ID x)"
  shows "served w' x"
proof -
  have "runnable (st (eng w')) x = runnable (st (eng w)) x" using assms(3) by (simp add: runnable_def)
  then show ?thesis using assms(1,2,4) by (auto simp: served_def claimed_def split: if_splits)
qed

lemma start_all_steady:
  assumes "steady (st (eng w))" "distinct (map e_ID xs)"
    and "\<forall>x \<in> set xs. claimed (st (eng w)) (bumped x) \<and> e_Version x + 2 < 2 ^ 31"
  shows "let w' = start_all (map bumped xs) w in steady (st (eng w')) \<and> snap (st (eng w')) = snap (st (eng w)) \<and>
    workflows (db (st (eng w'))) = workflows (db (st (eng w))) \<and> set (started w) \<subseteq> set (started w') \<and>
    waiting (st (eng w')) = waiting (st (eng w)) \<and>
    (\<forall>j. j \<notin> e_ID ` set xs \<longrightarrow> execution_row (st (eng w')) j = execution_row (st (eng w)) j) \<and> (\<forall>x \<in> set xs. served w' x)"
  using assms
proof (induction xs arbitrary: w)
  case (Cons x xs)
  define w1 where "w1 = executeOne (bumped x) w"
  have x: "claimed (st (eng w)) (bumped x)" "e_Version x + 2 < 2 ^ 31" "e_ID x \<notin> e_ID ` set xs"
    using Cons.prems(2,3) by auto
  note E = executeOne_steady [OF Cons.prems(1) x(1,2), unfolded Let_def, folded w1_def]
  have "claimed (st (eng w1)) (bumped y) \<and> e_Version y + 2 < 2 ^ 31" if "y \<in> set xs" for y
  proof -
    have "e_ID y \<noteq> e_ID x" using that x(3) by (auto simp: image_iff)
    then have "execution_row (st (eng w1)) (e_ID y) = execution_row (st (eng w)) (e_ID y)" using E by blast
    with Cons.prems(3) that show ?thesis by (simp add: claimed_def)
  qed
  with Cons.IH [of w1] E Cons.prems(2) have I: "let w' = start_all (map bumped xs) w1 in steady (st (eng w')) \<and>
      snap (st (eng w')) = snap (st (eng w1)) \<and> workflows (db (st (eng w'))) = workflows (db (st (eng w1))) \<and>
      set (started w1) \<subseteq> set (started w') \<and> waiting (st (eng w')) = waiting (st (eng w1)) \<and>
      (\<forall>j. j \<notin> e_ID ` set xs \<longrightarrow> execution_row (st (eng w')) j = execution_row (st (eng w1)) j) \<and> (\<forall>x \<in> set xs. served w' x)" by simp
  have "start_all (map bumped (x # xs)) w = start_all (map bumped xs) w1" by (simp add: w1_def)
  moreover have "served (start_all (map bumped xs) w1) x"
    by (rule served_mono [of w1]) (use E I x(3) in \<open>auto simp: Let_def\<close>)
  ultimately show ?case using E I by (auto simp: Let_def)
qed simp

text \<open>One poll serves the first five of the queue and leaves the others in order.\<close>

definition room :: "store \<Rightarrow> bool" where
  "room \<sigma> \<longleftrightarrow> (\<forall>x \<in> set (waiting \<sigma>). e_Version x + 2 < 2 ^ 31)"

lemma poll_steady:
  assumes "steady (st (eng w))" "snap (st (eng w)) = None" "room (st (eng w))"
  shows "steady (st (eng (poll w))) \<and> snap (st (eng (poll w))) = None \<and>
    workflows (db (st (eng (poll w)))) = workflows (db (st (eng w))) \<and>
    waiting (st (eng (poll w))) = drop 5 (waiting (st (eng w))) \<and> (\<forall>x \<in> set (take 5 (waiting (st (eng w)))). served (poll w) x)"
proof -
  let ?\<sigma> = "st (eng w)" and ?xs = "take 5 (waiting (st (eng w)))"
  let ?\<sigma>1 = "?\<sigma>\<lparr>faults := tl (faults ?\<sigma>), snap := Some (db ?\<sigma>)\<rparr>"
  let ?\<sigma>2 = "?\<sigma>1\<lparr>faults := tl (faults ?\<sigma>1), db := db ?\<sigma>1\<rparr>"
  have h: "healthy ?\<sigma>" "\<not> aborted ?\<sigma>" using assms(1) by (simp_all add: steady_def healthy_def)
  have b: "Begin '''' ?\<sigma> = (None, ?\<sigma>1)"
    using h by (simp add: Begin_def run_stmt_healthy Let_def)
  have s1: "steady ?\<sigma>1" "waiting ?\<sigma>1 = waiting ?\<sigma>" and row1: "execution_row ?\<sigma>2 = execution_row ?\<sigma>"
    using assms(1) healthy_tl [of ?\<sigma>]
    by (auto simp: steady_def healthy_def execution_inv_def executions_ok_def waiting_def execution_row_def fun_eq_iff)
  have s2: "steady ?\<sigma>2" by (rule steady_query [OF s1(1)])
  have a: "exec_AcquireForWorker 5 ?\<sigma>1 = (Inr ?xs, ?\<sigma>2)" using acquire_steady [OF s1(1)] s1(2) by simp
  let ?w2 = "w\<lparr>eng := (eng w)\<lparr>st := ?\<sigma>2\<rparr>\<rparr>"
  show ?thesis
  proof (cases "?xs = []")
    case True
    then have q: "waiting ?\<sigma> = []" by simp
    have "poll_body (w\<lparr>eng := (eng w)\<lparr>st := ?\<sigma>1\<rparr>\<rparr>) = (Inr (), ?w2)"
      using a q by (simp add: poll_body_def on_eng_def)
    then have p: "poll w = w\<lparr>eng := (eng w)\<lparr>st := snd (Rollback True ?\<sigma>2)\<rparr>\<rparr>"
      using b by (simp add: poll_def transact_def on_eng_def split: prod.split)
    have rb: "snd (Rollback True ?\<sigma>2) = ?\<sigma>2\<lparr>faults := tl (faults ?\<sigma>2), snap := None, aborted := False\<rparr>"
      by (auto simp: Rollback_def Let_def split: list.split option.split)
    have "steady (snd (Rollback True ?\<sigma>2))" unfolding rb by (rule steady_end [OF s2])
    with q show ?thesis unfolding p rb by (simp add: waiting_def)
  next
    case False
    have xs: "distinct (map e_ID ?xs)" "\<forall>x \<in> set ?xs. execution_row ?\<sigma>2 (e_ID x) = Some x \<and> e_Version x + 1 < 2 ^ 31"
      using waiting_distinct [OF assms(1)] waiting_row [OF assms(1)] assms(3) unfolding take_map [symmetric] row1
      by (auto simp: room_def dest!: in_set_takeD intro: distinct_take)
    obtain \<sigma>3 where c: "claim_executions ?xs ?\<sigma>2 = (map bumped ?xs, \<sigma>3)" "steady \<sigma>3" "snap \<sigma>3 = Some (db ?\<sigma>)"
      "workflows (db \<sigma>3) = workflows (db ?\<sigma>)" "waiting \<sigma>3 = filter (\<lambda>r. e_ID r \<notin> e_ID ` set ?xs) (waiting ?\<sigma>2)"
      "\<forall>x \<in> set ?xs. claimed \<sigma>3 (bumped x)"
      using claim_executions_steady [OF s2 xs] by auto
    let ?\<sigma>4 = "\<sigma>3\<lparr>faults := tl (faults \<sigma>3), snap := None, aborted := False\<rparr>"
    let ?w4 = "w\<lparr>eng := (eng w)\<lparr>st := ?\<sigma>4\<rparr>\<rparr>"
    have m: "Commit True \<sigma>3 = (None, ?\<sigma>4)"
      using c(2,3) by (auto simp: Commit_def Let_def steady_def healthy_def split: list.split option.split)
    have s4: "steady ?\<sigma>4" "waiting ?\<sigma>4 = waiting \<sigma>3" "execution_row ?\<sigma>4 = execution_row \<sigma>3"
      using steady_end [OF c(2)] by (auto simp: waiting_def execution_row_def fun_eq_iff)
    have "\<forall>x \<in> set ?xs. claimed ?\<sigma>4 (bumped x) \<and> e_Version x + 2 < 2 ^ 31"
      using c(6) assms(3) s4(3) by (auto simp: claimed_def room_def dest: in_set_takeD)
    with start_all_steady [of ?w4 ?xs] s4(1) xs(1) have S: "let w' = start_all (map bumped ?xs) ?w4 in steady (st (eng w')) \<and>
        snap (st (eng w')) = None \<and> workflows (db (st (eng w'))) = workflows (db ?\<sigma>) \<and>
        waiting (st (eng w')) = waiting \<sigma>3 \<and> (\<forall>x \<in> set ?xs. served w' x)"
      using c(4) s4(2) by (simp add: Let_def)
    have "poll_body (w\<lparr>eng := (eng w)\<lparr>st := ?\<sigma>1\<rparr>\<rparr>) = (Inr (), start_all (map bumped ?xs) ?w4)"
      using a c(1) m False by (simp add: poll_body_def on_eng_def)
    moreover have "snd (on_eng (Rollback True) (start_all (map bumped ?xs) ?w4)) = start_all (map bumped ?xs) ?w4"
      using S by (simp add: Let_def Rollback_def on_eng_def)
    ultimately have p: "poll w = start_all (map bumped ?xs) ?w4"
      using b by (simp add: poll_def transact_def on_eng_def)
    have "waiting \<sigma>3 = drop 5 (waiting ?\<sigma>)"
    proof -
      have "waiting ?\<sigma> = ?xs @ drop 5 (waiting ?\<sigma>)" by simp
      moreover have "e_ID y \<notin> e_ID ` set ?xs" if "y \<in> set (drop 5 (waiting ?\<sigma>))" for y
      proof -
        have "distinct (map e_ID (?xs @ drop 5 (waiting ?\<sigma>)))" using waiting_distinct [OF assms(1)] by simp
        with that show ?thesis unfolding map_append distinct_append by auto
      qed
      ultimately have "filter (\<lambda>r. e_ID r \<notin> e_ID ` set ?xs) (waiting ?\<sigma>) = drop 5 (waiting ?\<sigma>)"
        by (metis (mono_tags, lifting) append_Nil filter_False filter_True filter_append image_eqI)
      then show ?thesis using c(5) s1(2) by (simp add: waiting_def)
    qed
    with S p show ?thesis by (simp add: Let_def)
  qed
qed

subsection \<open>Every pending execution is served\<close>

text \<open>What other processes may do between two polls: take executions out of the queue and put new ones behind it. A
  recovery is not among it: it returns an old execution to its old place.\<close>

definition settled :: "store \<Rightarrow> store \<Rightarrow> bool" where
  "settled \<sigma> \<sigma>' \<longleftrightarrow> steady \<sigma>' \<and> snap \<sigma>' = None \<and> room \<sigma>' \<and>
     (\<exists>kept new. subseq kept (waiting \<sigma>) \<and> waiting \<sigma>' = kept @ new \<and> set new \<inter> set (waiting \<sigma>) = {})"

definition with_store :: "store \<Rightarrow> worker \<Rightarrow> worker" where
  "with_store \<sigma> w = w\<lparr>eng := (eng w)\<lparr>st := \<sigma>\<rparr>\<rparr>"

text \<open>How many executions are in front of one in a queue.\<close>

definition in_front :: "Execution \<Rightarrow> Execution list \<Rightarrow> nat" where
  "in_front x xs = length (takeWhile (\<lambda>y. y \<noteq> x) xs)"

lemma in_front_subseq: "subseq ys xs \<Longrightarrow> x \<in> set ys \<Longrightarrow> distinct xs \<Longrightarrow> in_front x ys \<le> in_front x xs"
proof (induction rule: list_emb.induct)
  case (list_emb_Cons ys xs y)
  then have "y \<noteq> x" by (auto dest: list_emb_set)
  with list_emb_Cons show ?case by (simp add: in_front_def)
qed (auto simp: in_front_def)

lemma in_front_append: "x \<in> set ys \<Longrightarrow> in_front x (ys @ zs) = in_front x ys"
  by (induction ys) (auto simp: in_front_def)

lemma in_front_first: "x \<in> set xs \<Longrightarrow> in_front x xs < n \<Longrightarrow> x \<in> set (take n xs)"
proof (induction xs arbitrary: n)
  case (Cons y xs)
  then show ?case by (cases n) (auto simp: in_front_def split: if_splits)
qed simp

lemma in_front_drop: "x \<in> set xs \<Longrightarrow> n \<le> in_front x xs \<Longrightarrow> x \<in> set (drop n xs) \<and> in_front x (drop n xs) = in_front x xs - n"
proof (induction xs arbitrary: n)
  case (Cons y xs)
  then show ?case by (cases n) (auto simp: in_front_def split: if_splits)
qed simp

lemma in_front_nth: "k < length xs \<Longrightarrow> in_front (xs ! k) xs \<le> k"
  by (induction xs arbitrary: k) (auto simp: in_front_def nth_Cons split: nat.split)

text \<open>One round: what was kept of the queue, and the poll.\<close>

lemma round_ahead:
  assumes q: "settled \<sigma> \<sigma>'" and d: "distinct (waiting \<sigma>)" and x: "x \<in> set (waiting \<sigma>)" and l: "x \<in> set (waiting \<sigma>')"
  shows "in_front x (waiting \<sigma>') \<le> in_front x (waiting \<sigma>)"
proof -
  obtain kept new where k: "subseq kept (waiting \<sigma>)" "waiting \<sigma>' = kept @ new" "x \<notin> set new"
    using q x by (auto simp: settled_def)
  then have "x \<in> set kept" using l by simp
  with in_front_subseq [OF k(1) this d] show ?thesis by (simp add: k(2) in_front_append)
qed

text \<open>In some round before number \<open>n\<close>, others have taken \<open>x\<close> from the queue or the poll has served it.\<close>

definition leaves :: "(nat \<Rightarrow> worker) \<Rightarrow> (nat \<Rightarrow> store) \<Rightarrow> nat \<Rightarrow> Execution \<Rightarrow> bool" where
  "leaves ws between n x \<longleftrightarrow> (\<exists>i < n. x \<notin> set (waiting (between i)) \<or> served (ws (Suc i)) x)"

lemma leaves_bound:
  assumes rounds: "\<forall>i < n. settled (st (eng (ws i))) (between i) \<and> ws (Suc i) = poll (with_store (between i) (ws i))"
    and "x \<in> set (waiting (st (eng (ws j))))" "distinct (waiting (st (eng (ws j))))" "j + in_front x (waiting (st (eng (ws j)))) div 5 < n"
  shows "leaves ws between n x"
  using assms(2-)
proof (induction "in_front x (waiting (st (eng (ws j))))" arbitrary: j rule: less_induct)
  case less
  then have j: "j < n" by simp
  with rounds have r: "settled (st (eng (ws j))) (between j)" "ws (Suc j) = poll (with_store (between j) (ws j))" by auto
  show ?case
  proof (cases "x \<in> set (waiting (between j))")
    case True
    have "steady (between j)" "snap (between j) = None" "room (between j)" using r(1) by (auto simp: settled_def)
    note P = poll_steady [of "with_store (between j) (ws j)", folded r(2), unfolded with_store_def, simplified, OF this]
    have le: "in_front x (waiting (between j)) \<le> in_front x (waiting (st (eng (ws j))))"
      by (rule round_ahead [OF r(1) less.prems(2,1) True])
    show ?thesis
    proof (cases "in_front x (waiting (between j)) < 5")
      case True
      with in_front_first \<open>x \<in> set (waiting (between j))\<close> P j show ?thesis by (auto simp: leaves_def)
    next
      case False
      with in_front_drop [OF True, of 5] P
      have d: "x \<in> set (waiting (st (eng (ws (Suc j)))))"
        "in_front x (waiting (st (eng (ws (Suc j))))) = in_front x (waiting (between j)) - 5" by auto
      have "distinct (map e_ID (waiting (st (eng (ws (Suc j))))))" by (rule waiting_distinct) (use P in blast)
      then have "distinct (waiting (st (eng (ws (Suc j)))))" by (simp add: distinct_map)
      with less.hyps [of "Suc j"] d le False less.prems(3) show ?thesis by simp
    qed
  next
    case False
    with j show ?thesis by (auto simp: leaves_def)
  qed
qed


definition demo_queue :: "Execution list" where
  "demo_queue = map demo_pending [''x1'', ''x2'', ''x3'', ''x4'', ''x5'', ''x6'']"

lemma settled_self: "steady \<sigma> \<Longrightarrow> snap \<sigma> = None \<Longrightarrow> room \<sigma> \<Longrightarrow> settled \<sigma> \<sigma>"
  unfolding settled_def by (intro conjI exI [of _ "waiting \<sigma>"] exI [of _ "[]"]) simp_all

lemma waiting_not_served: "steady (st (eng w)) \<Longrightarrow> x \<in> set (waiting (st (eng w))) \<Longrightarrow> \<not> served w x"
  using waiting_row [of "st (eng w)" x] by (auto simp: served_def claimed_def split: if_splits)

lemma demo_queue_steady:
  "steady (st (eng (demo_worker demo_queue))) \<and> snap (st (eng (demo_worker demo_queue))) = None"
  by (simp add: steady_def healthy_def demo_worker_def demo_session_def demo_queue_def demo_pending_def demo_execution_def
    execution_inv_def int4_def executions_ok_def execution_table_def struct_schema_def execution_statuses_def)


end
