(* ===== verification/End_To_End.thy ===== *)
theory End_To_End imports Poll_Progress Service_Properties begin

text \<open>
  From the request to the run: what the API server stores when a workflow is triggered is what the poller of a worker,
  another program on the same database, later picks up and starts.
\<close>

definition pending :: "database \<Rightarrow> Execution list" where
  "pending d = filter (\<lambda>r. e_Status r = StatusExecutionPending) (executions d)"

lemma waiting_pending: "set (waiting \<sigma>) = set (pending (db \<sigma>))" "length (waiting \<sigma>) = length (pending (db \<sigma>))"
  by (simp_all add: waiting_def pending_def)

text \<open>A triggered execution joins the pending ones.\<close>

lemma triggered_pending:
  assumes "triggered T i tt e d d'"
  shows "pending d' = pending d @ [e]"
proof -
  obtain w :: Workflow and rows where e: "e = new_execution (e_ID e) T i (if tt = '''' then ''MANUAL'' else tt) (w_Version w) (e_CreatedAt e)"
    and d': "d' = d\<lparr>executions := executions d @ [e], step_executions := step_executions d @ rows\<rparr>"
    using assms unfolding triggered_def launched_def by blast
  have "e_Status e = StatusExecutionPending" by (subst e) (simp add: new_execution_def)
  then show ?thesis by (simp add: pending_def d')
qed

lemma trigger_joins:
  assumes "workflow_Trigger c T i tt s = (Inr e, s')" "snap (ses s) = None"
  shows "pending (db (ses s')) = pending (db (ses s)) @ [e]"
  using trigger_result [OF assms] by (auto intro: triggered_pending)

lemma in_front_other: "x \<in> set xs \<Longrightarrow> in_front x xs < length xs"
proof (induction xs)
  case (Cons y xs)
  then show ?case by (auto simp: in_front_def)
qed simp



end
